(* ===== verification/Prelude.thy ===== *)
theory Prelude
  imports Main "HOL-Library.Word"
begin

text \<open>
  What every component of the development uses: Python's byte strings, text strings and
  exceptions, the state-and-exception monad in which the methods are written, Python's index
  and slice rules, and little-endian integer fields.

  A Python \<open>bytes\<close> object is a \<open>char list\<close> (an Isabelle \<open>char\<close> is exactly one byte), a
  Python \<open>str\<close> a list of Unicode code points. A method that mutates its object and may raise
  is a function from the state to a result and the state it leaves behind, also when it raises:
  Python does not undo the mutations made before an exception.
\<close>

named_theorems py_simps \<open>evaluation rules of the monad\<close>
named_theorems py_intros \<open>composition rules for statements about monadic code\<close>

section \<open>Python values\<close>

type_synonym bytes = "char list"
type_synonym ustr = "nat list"

text \<open>An ASCII literal as a \<open>str\<close>.\<close>

definition u :: "string \<Rightarrow> ustr" where
  "u s = map of_char s"

text \<open>\<open>str | bytes\<close>, the type of a command argument.\<close>

datatype arg = Str ustr | Bytes bytes

section \<open>Exceptions (exceptions.py and the built-in ones the code meets)\<close>

text \<open>The three messages with which the reader raises \<open>ProtocolError\<close>.\<close>

datatype protocol_fault = ClosedInFrame | ClosedInLine | UnknownMarker bytes

datatype exc =
    ConnectionError
  | TimeoutError
  | ResponseError ustr
  | ProtocolError protocol_fault
  | PoolExhaustedError int
  | BuiltinOSError
  | BuiltinTimeoutError
  | BuiltinValueError
  | BuiltinUnicodeDecodeError
  | BuiltinUnicodeEncodeError
  | BuiltinRecursionError
  | BuiltinTypeError
  | BuiltinStructError
  | BuiltinIndexError
  | BuiltinKeyError
  | BuiltinZeroDivisionError
  | BuiltinAttributeError
  | BuiltinFileNotFoundError
  | BuiltinOverflowError
  | BuiltinImportError
  | BuiltinBufferError

text \<open>The class hierarchy: \<open>KacheDBError\<close> and its five subclasses; \<open>builtins.TimeoutError\<close> and
  \<open>FileNotFoundError\<close> are \<open>OSError\<close>s; the two Unicode errors are \<open>ValueError\<close>s.\<close>

fun is_KacheDBError :: "exc \<Rightarrow> bool" where
  "is_KacheDBError ConnectionError = True"
| "is_KacheDBError TimeoutError = True"
| "is_KacheDBError (ResponseError _) = True"
| "is_KacheDBError (ProtocolError _) = True"
| "is_KacheDBError (PoolExhaustedError _) = True"
| "is_KacheDBError _ = False"

fun is_OSError :: "exc \<Rightarrow> bool" where
  "is_OSError BuiltinOSError = True"
| "is_OSError BuiltinTimeoutError = True"
| "is_OSError BuiltinFileNotFoundError = True"
| "is_OSError _ = False"

section \<open>State and exceptions\<close>

type_synonym ('s, 'e, 'a) py = "'s \<Rightarrow> ('e + 'a) \<times> 's"

definition ret :: "'a \<Rightarrow> ('s, 'e, 'a) py" where
  "ret x = (\<lambda>s. (Inr x, s))"

definition raise :: "'e \<Rightarrow> ('s, 'e, 'a) py" where
  "raise e = (\<lambda>s. (Inl e, s))"

definition bindE :: "('s, 'e, 'a) py \<Rightarrow> ('a \<Rightarrow> ('s, 'e, 'b) py) \<Rightarrow> ('s, 'e, 'b) py" where
  "bindE m k = (\<lambda>s. case m s of (Inl e, s') \<Rightarrow> (Inl e, s') | (Inr x, s') \<Rightarrow> k x s')"

definition getsE :: "('s \<Rightarrow> 'a) \<Rightarrow> ('s, 'e, 'a) py" where
  "getsE f = (\<lambda>s. (Inr (f s), s))"

definition modifyE :: "('s \<Rightarrow> 's) \<Rightarrow> ('s, 'e, unit) py" where
  "modifyE f = (\<lambda>s. (Inr (), f s))"

definition liftE :: "'e + 'a \<Rightarrow> ('s, 'e, 'a) py" where
  "liftE r = (\<lambda>s. (r, s))"

definition map_sumE :: "('a \<Rightarrow> 'b) \<Rightarrow> 'e + 'a \<Rightarrow> 'e + 'b" where
  "map_sumE f r = (case r of Inl e \<Rightarrow> Inl e | Inr x \<Rightarrow> Inr (f x))"

definition bind_sum :: "'e + 'a \<Rightarrow> ('a \<Rightarrow> 'e + 'b) \<Rightarrow> 'e + 'b" where
  "bind_sum r f = (case r of Inl e \<Rightarrow> Inl e | Inr x \<Rightarrow> f x)"

text \<open>\<open>try: m except Exception as e: h e\<close>.\<close>

definition try_except :: "('s, 'e, 'a) py \<Rightarrow> ('e \<Rightarrow> ('s, 'e, 'a) py) \<Rightarrow> ('s, 'e, 'a) py" where
  "try_except m h = (\<lambda>s. case m s of (Inl e, s') \<Rightarrow> h e s' | (Inr x, s') \<Rightarrow> (Inr x, s'))"

text \<open>\<open>try: m finally: f\<close>; an exception of \<open>f\<close> replaces the outcome of \<open>m\<close>.\<close>

definition try_finally :: "('s, 'e, 'a) py \<Rightarrow> ('s, 'e, unit) py \<Rightarrow> ('s, 'e, 'a) py" where
  "try_finally m f = (\<lambda>s. case m s of (r, s') \<Rightarrow>
     (case f s' of (Inl e, s'') \<Rightarrow> (Inl e, s'') | (Inr _, s'') \<Rightarrow> (r, s'')))"

text \<open>\<open>[m for _ in range(n)]\<close>.\<close>

primrec repeatM :: "nat \<Rightarrow> ('s, 'e, 'a) py \<Rightarrow> ('s, 'e, 'a list) py" where
  "repeatM 0 m = ret []"
| "repeatM (Suc n) m = bindE m (\<lambda>x. bindE (repeatM n m) (\<lambda>xs. ret (x # xs)))"

text \<open>\<open>for i in range(i, i + n): f(i)\<close>.\<close>

primrec for_range :: "nat \<Rightarrow> nat \<Rightarrow> (nat \<Rightarrow> ('s, 'e, unit) py) \<Rightarrow> ('s, 'e, unit) py" where
  "for_range i 0 f = ret ()"
| "for_range i (Suc n) f = bindE (f i) (\<lambda>_. for_range (Suc i) n f)"

text \<open>A method of a part, run on the whole: the part is read and written back.\<close>

definition zoom :: "('s \<Rightarrow> 't) \<Rightarrow> (('t \<Rightarrow> 't) \<Rightarrow> 's \<Rightarrow> 's) \<Rightarrow> ('t, 'e, 'a) py \<Rightarrow> ('s, 'e, 'a) py" where
  "zoom get upd m = (\<lambda>s. case m (get s) of (r, t) \<Rightarrow> (r, upd (\<lambda>_. t) s))"

lemma ret_run [py_simps, simp]: "ret x s = (Inr x, s)"
  by (simp add: ret_def)

lemma raise_run [py_simps, simp]: "raise e s = (Inl e, s)"
  by (simp add: raise_def)

lemma getsE_run [py_simps, simp]: "getsE f s = (Inr (f s), s)"
  by (simp add: getsE_def)

lemma modifyE_run [py_simps, simp]: "modifyE f s = (Inr (), f s)"
  by (simp add: modifyE_def)

lemma liftE_run [py_simps, simp]: "liftE r s = (r, s)"
  by (simp add: liftE_def)

lemma zoom_run [py_simps, simp]:
  "zoom get upd m s = (case m (get s) of (r, t) \<Rightarrow> (r, upd (\<lambda>_. t) s))"
  by (simp add: zoom_def)

lemma bindE_run [py_simps]:
  "bindE m k s = (case m s of (Inl e, s') \<Rightarrow> (Inl e, s') | (Inr x, s') \<Rightarrow> k x s')"
  by (simp add: bindE_def)

lemma bindE_Inr [simp]: "m s = (Inr x, s') \<Longrightarrow> bindE m k s = k x s'"
  by (simp add: bindE_def)

lemma bindE_Inl [simp]: "m s = (Inl e, s') \<Longrightarrow> bindE m k s = (Inl e, s')"
  by (simp add: bindE_def)

lemma try_except_run [py_simps]:
  "try_except m h s = (case m s of (Inl e, s') \<Rightarrow> h e s' | (Inr x, s') \<Rightarrow> (Inr x, s'))"
  by (simp add: try_except_def)

lemma try_except_Inr [simp]: "m s = (Inr x, s') \<Longrightarrow> try_except m h s = (Inr x, s')"
  by (simp add: try_except_def)

lemma try_except_Inl [simp]: "m s = (Inl e, s') \<Longrightarrow> try_except m h s = h e s'"
  by (simp add: try_except_def)

lemma try_finally_run [py_simps]:
  "try_finally m f s = (case m s of (r, s') \<Rightarrow>
     (case f s' of (Inl e, s'') \<Rightarrow> (Inl e, s'') | (Inr _, s'') \<Rightarrow> (r, s'')))"
  by (simp add: try_finally_def)

lemma bind_sum_simps [simp]: "bind_sum (Inl e) f = Inl e" "bind_sum (Inr x) f = f x"
  by (simp_all add: bind_sum_def)

lemma map_sumE_simps [simp]: "map_sumE f (Inl e) = Inl e" "map_sumE f (Inr x) = Inr (f x)"
  by (simp_all add: map_sumE_def)

lemma map_sumE_eq_Inr [simp]: "map_sumE f r = Inr y \<longleftrightarrow> (\<exists>x. r = Inr x \<and> y = f x)"
  by (cases r) auto

lemma map_sumE_eq_Inl [simp]: "map_sumE f r = Inl e \<longleftrightarrow> r = Inl e"
  by (cases r) auto

subsection \<open>Which exceptions a program can raise\<close>

definition raises :: "('e \<Rightarrow> bool) \<Rightarrow> ('s, 'e, 'a) py \<Rightarrow> bool" where
  "raises P m \<longleftrightarrow> (\<forall>s e. fst (m s) = Inl e \<longrightarrow> P e)"

lemma raisesD: "raises P m \<Longrightarrow> m s = (Inl e, s') \<Longrightarrow> P e"
  unfolding raises_def by (metis fst_conv)

lemma raisesI: "(\<And>s e s'. m s = (Inl e, s') \<Longrightarrow> P e) \<Longrightarrow> raises P m"
  unfolding raises_def by (metis prod.collapse)

lemma raises_bindE [py_intros]:
  "raises P m \<Longrightarrow> (\<And>x. raises P (k x)) \<Longrightarrow> raises P (bindE m k)"
  by (rule raisesI) (auto simp: bindE_run dest: raisesD split: prod.splits sum.splits)

lemma raises_ret [py_intros]: "raises P (ret x)" "raises P (getsE f)" "raises P (modifyE g)"
  by (auto simp: raises_def)

lemma raises_raise [py_intros]: "P e \<Longrightarrow> raises P (raise e)"
  by (auto simp: raises_def)

lemma raises_liftE [py_intros]: "(\<And>e. r = Inl e \<Longrightarrow> P e) \<Longrightarrow> raises P (liftE r)"
  by (auto simp: raises_def)

lemma raises_if [py_intros]:
  "(b \<Longrightarrow> raises P m) \<Longrightarrow> (\<not> b \<Longrightarrow> raises P n) \<Longrightarrow> raises P (if b then m else n)"
  by simp

lemma raises_repeatM [py_intros]: "raises P m \<Longrightarrow> raises P (repeatM n m)"
proof (induction n)
  case 0
  show ?case unfolding repeatM.simps by (rule raises_ret)
next
  case (Suc n)
  then show ?case unfolding repeatM.simps by (intro py_intros)
qed

lemma raises_try_except [py_intros]:
  "raises Q m \<Longrightarrow> (\<And>e. Q e \<Longrightarrow> raises P (h e)) \<Longrightarrow> raises P (try_except m h)"
  by (rule raisesI) (auto simp: try_except_run dest: raisesD split: prod.splits sum.splits)

lemma raises_mono: "raises P m \<Longrightarrow> (\<And>e. P e \<Longrightarrow> Q e) \<Longrightarrow> raises Q m"
  by (auto simp: raises_def)

subsection \<open>What a program leaves unchanged\<close>

definition keeps :: "('s \<Rightarrow> 'b) \<Rightarrow> ('s, 'e, 'a) py \<Rightarrow> bool" where
  "keeps f m \<longleftrightarrow> (\<forall>s. f (snd (m s)) = f s)"

lemma keepsI: "(\<And>s r s'. m s = (r, s') \<Longrightarrow> f s' = f s) \<Longrightarrow> keeps f m"
  unfolding keeps_def by (metis prod.collapse)

lemma keepsD: "keeps f m \<Longrightarrow> m s = (r, s') \<Longrightarrow> f s' = f s"
  unfolding keeps_def by (metis snd_conv)

lemma keeps_bindE [py_intros]: "keeps f m \<Longrightarrow> (\<And>x. keeps f (k x)) \<Longrightarrow> keeps f (bindE m k)"
proof (rule keepsI)
  fix s r s'
  assume m: "keeps f m" and k: "\<And>x. keeps f (k x)" and run: "bindE m k s = (r, s')"
  obtain x s1 where x: "m s = (x, s1)" by (cases "m s")
  with m have "f s1 = f s" by (rule keepsD)
  with run x show "f s' = f s"
    by (cases x) (auto dest: keepsD [OF k])
qed

lemma keeps_basic [py_intros]: "keeps f (ret x)" "keeps f (raise e)" "keeps f (liftE r)" "keeps f (getsE g)"
  by (simp_all add: keeps_def ret_def raise_def liftE_def getsE_def)

lemma keeps_if [py_intros]: "(b \<Longrightarrow> keeps f m) \<Longrightarrow> (\<not> b \<Longrightarrow> keeps f n) \<Longrightarrow> keeps f (if b then m else n)"
  by simp

lemma keeps_repeatM [py_intros]: "keeps f m \<Longrightarrow> keeps f (repeatM n m)"
proof (induction n)
  case 0
  show ?case unfolding repeatM.simps by (rule keeps_basic)
next
  case (Suc n)
  then show ?case unfolding repeatM.simps by (intro py_intros)
qed

subsection \<open>Pre- and postconditions\<close>

text \<open>From a state with \<open>P\<close>, \<open>m\<close> ends with a result and state in \<open>Q\<close>, or with an exception and state
  in \<open>E\<close>.\<close>

definition hoare ::
    "('s \<Rightarrow> bool) \<Rightarrow> ('s, 'e, 'a) py \<Rightarrow> ('a \<Rightarrow> 's \<Rightarrow> bool) \<Rightarrow> ('e \<Rightarrow> 's \<Rightarrow> bool) \<Rightarrow> bool" where
  "hoare P m Q E \<longleftrightarrow> (\<forall>s. P s \<longrightarrow> (case m s of (Inl e, s') \<Rightarrow> E e s' | (Inr x, s') \<Rightarrow> Q x s'))"

lemma hoareI:
  "(\<And>s e s'. P s \<Longrightarrow> m s = (Inl e, s') \<Longrightarrow> E e s') \<Longrightarrow>
   (\<And>s x s'. P s \<Longrightarrow> m s = (Inr x, s') \<Longrightarrow> Q x s') \<Longrightarrow> hoare P m Q E"
  unfolding hoare_def by (auto split: prod.splits sum.splits)

lemma hoare_Inr: "hoare P m Q E \<Longrightarrow> P s \<Longrightarrow> m s = (Inr x, s') \<Longrightarrow> Q x s'"
  unfolding hoare_def by fastforce

lemma hoare_Inl: "hoare P m Q E \<Longrightarrow> P s \<Longrightarrow> m s = (Inl e, s') \<Longrightarrow> E e s'"
  unfolding hoare_def by fastforce

lemma hoare_bind:
  "hoare P m R E \<Longrightarrow> (\<And>x. hoare (R x) (k x) Q E) \<Longrightarrow> hoare P (bindE m k) Q E"
  by (rule hoareI) (auto simp: bindE_run dest: hoare_Inr hoare_Inl split: prod.splits sum.splits)

lemma hoare_weaken:
  "hoare P m Q E \<Longrightarrow> (\<And>s. P' s \<Longrightarrow> P s) \<Longrightarrow> (\<And>x s. Q x s \<Longrightarrow> Q' x s) \<Longrightarrow>
   (\<And>e s. E e s \<Longrightarrow> E' e s) \<Longrightarrow> hoare P' m Q' E'"
  by (rule hoareI) (metis hoare_Inl, metis hoare_Inr)

lemma hoare_ret: "(\<And>s. P s \<Longrightarrow> Q x s) \<Longrightarrow> hoare P (ret x) Q E"
  by (simp add: hoare_def)

lemma hoare_raise: "(\<And>s. P s \<Longrightarrow> E e s) \<Longrightarrow> hoare P (raise e) Q E"
  by (simp add: hoare_def)

lemma hoare_gets: "(\<And>s. P s \<Longrightarrow> Q (f s) s) \<Longrightarrow> hoare P (getsE f) Q E"
  by (simp add: hoare_def)

lemma hoare_modify: "(\<And>s. P s \<Longrightarrow> Q () (f s)) \<Longrightarrow> hoare P (modifyE f) Q E"
  by (simp add: hoare_def)

lemma hoare_if:
  "(b \<Longrightarrow> hoare P m Q E) \<Longrightarrow> (\<not> b \<Longrightarrow> hoare P n Q E) \<Longrightarrow> hoare P (if b then m else n) Q E"
  by simp

lemma hoare_option:
  "(x = None \<Longrightarrow> hoare P m Q E) \<Longrightarrow> (\<And>y. x = Some y \<Longrightarrow> hoare P (n y) Q E) \<Longrightarrow>
   hoare P (case x of None \<Rightarrow> m | Some y \<Rightarrow> n y) Q E"
  by (cases x) simp_all

lemma for_range_run:
  assumes "\<And>l s. i \<le> l \<Longrightarrow> l < i + n \<Longrightarrow> I l s \<Longrightarrow> \<exists>s'. f l s = (Inr (), s') \<and> I (Suc l) s'" and "I i s"
  shows "\<exists>s'. for_range i n f s = (Inr (), s') \<and> I (i + n) s'"
  using assms
proof (induction n arbitrary: i s)
  case 0
  then show ?case by simp
next
  case (Suc n)
  obtain s1 where s1: "f i s = (Inr (), s1)" "I (Suc i) s1"
    using Suc.prems(1) [of i s] Suc.prems(2) by auto
  have "\<exists>s'. for_range (Suc i) n f s1 = (Inr (), s') \<and> I (Suc i + n) s'"
    using s1(2) by (rule Suc.IH [rotated]) (rule Suc.prems(1), auto)
  then show ?case using s1(1) by (auto simp: bindE_run)
qed

section \<open>Indices and slices\<close>

text \<open>\<open>xs[i]\<close> for a non-negative index.\<close>

definition list_item :: "'a list \<Rightarrow> nat \<Rightarrow> exc + 'a" where
  "list_item xs i = (if i < length xs then Inr (xs ! i) else Inl BuiltinIndexError)"

lemma list_item_Inr [simp]: "i < length xs \<Longrightarrow> list_item xs i = Inr (xs ! i)"
  by (simp add: list_item_def)

text \<open>\<open>xs[a:b]\<close>: a negative bound counts from the end, and both are clamped to the list.\<close>

definition py_bound :: "nat \<Rightarrow> int \<Rightarrow> nat" where
  "py_bound n i = (if i < 0 then nat (i + int n) else min (nat i) n)"

definition slice :: "int \<Rightarrow> int \<Rightarrow> 'a list \<Rightarrow> 'a list" where
  "slice a b xs = (let lo = py_bound (length xs) a; hi = py_bound (length xs) b
                   in take (hi - lo) (drop lo xs))"

lemma py_bound_nonneg: "0 \<le> i \<Longrightarrow> i \<le> int n \<Longrightarrow> py_bound n i = nat i"
  by (auto simp: py_bound_def min_def)

lemma py_bound_le [simp]: "py_bound n i \<le> n"
  by (auto simp: py_bound_def)

lemma slice_inside:
  "0 \<le> a \<Longrightarrow> a \<le> b \<Longrightarrow> b \<le> int (length xs) \<Longrightarrow> slice a b xs = take (nat (b - a)) (drop (nat a) xs)"
  by (simp add: slice_def py_bound_nonneg nat_diff_distrib Let_def)

lemma length_slice_inside:
  "0 \<le> a \<Longrightarrow> a \<le> b \<Longrightarrow> b \<le> int (length xs) \<Longrightarrow> length (slice a b xs) = nat (b - a)"
  by (auto simp: slice_inside)

section \<open>Fixed-width little-endian integers\<close>

text \<open>\<open>le_bytes w n\<close> is the \<open>w\<close> low bytes of \<open>n\<close>, lowest first; \<open>le_nat\<close> reads them back.\<close>

primrec le_bytes :: "nat \<Rightarrow> nat \<Rightarrow> bytes" where
  "le_bytes 0 n = []"
| "le_bytes (Suc w) n = char_of (n mod 256) # le_bytes w (n div 256)"

primrec le_nat :: "bytes \<Rightarrow> nat" where
  "le_nat [] = 0"
| "le_nat (b # bs) = of_char b + 256 * le_nat bs"

lemma length_le_bytes [simp]: "length (le_bytes w n) = w"
  by (induction w arbitrary: n) auto

lemma of_char_less_256 [simp]: "(of_char c :: nat) < 256"
  by (metis of_char_mod_256 mod_less_divisor zero_less_numeral)

lemma le_nat_le_bytes [simp]: "le_nat (le_bytes w n) = n mod 256 ^ w"
proof (induction w arbitrary: n)
  case 0
  then show ?case by simp
next
  case (Suc w)
  then show ?case by (simp add: mod_mult2_eq)
qed

lemma le_bytes_le_nat [simp]: "le_bytes (length bs) (le_nat bs) = bs"
  by (induction bs) (simp_all add: char_of_mod_256)

lemma le_nat_less: "le_nat bs < 256 ^ length bs"
proof (induction bs)
  case Nil
  then show ?case by simp
next
  case (Cons b bs)
  have "(of_char b :: nat) + 256 * le_nat bs < 256 + 256 * le_nat bs" by simp
  also have "\<dots> = 256 * Suc (le_nat bs)" by simp
  also have "\<dots> \<le> 256 * 256 ^ length bs" using Cons.IH by (intro mult_le_mono2) simp
  finally show ?case by simp
qed

lemma le_bytes_mod [simp]: "le_bytes w (n mod 256 ^ w) = le_bytes w n"
  by (metis le_bytes_le_nat le_nat_le_bytes length_le_bytes)

lemma le_nat_append: "le_nat (xs @ ys) = le_nat xs + 256 ^ length xs * le_nat ys"
  by (induction xs) (simp_all add: algebra_simps)

section \<open>Lists\<close>

lemma take_length_append [simp]: "take (length xs) (xs @ ys) = xs"
  by simp

lemma drop_take_slice:
  "i \<le> length xs \<Longrightarrow> drop i xs = take n (drop i xs) @ drop (i + n) xs"
  by (metis append_take_drop_id drop_drop add.commute)

end
