(* ===== verification/Py_Text.thy ===== *)
theory Py_Text
  imports Prelude
begin

text \<open>
  The text conversions of Python that the client uses: decimal rendering (\<open>str(n)\<close>,
  \<open>f"{n}"\<close>), \<open>int(b)\<close> on a byte line, and UTF-8 (\<open>s.encode("utf-8")\<close>,
  \<open>b.decode("utf-8")\<close>, \<open>b.decode("utf-8", errors="replace")\<close>), with the errors Python raises.
  The lemmas are the round trips the wire protocol rests on. The interpreter's configurable
  limit on the number of digits of such a conversion is not modelled: integers are unbounded.
\<close>

section \<open>Decimal rendering\<close>

definition digit_char :: "nat \<Rightarrow> char" where
  "digit_char d = char_of (48 + d)"

fun dec :: "nat \<Rightarrow> string" where
  "dec n = (if n < 10 then [digit_char n] else dec (n div 10) @ [digit_char (n mod 10)])"

declare dec.simps [simp del]

lemma dec_small: "n < 10 \<Longrightarrow> dec n = [digit_char n]"
  by (subst dec.simps) simp

lemma dec_step: "10 \<le> n \<Longrightarrow> dec n = dec (n div 10) @ [digit_char (n mod 10)]"
  by (subst dec.simps) simp

lemma dec_not_Nil [simp]: "dec n \<noteq> []"
  by (subst dec.simps) simp

text \<open>\<open>str(i)\<close> for an int, as ASCII characters.\<close>

definition py_str_int :: "int \<Rightarrow> string" where
  "py_str_int i = (if i < 0 then CHR ''-'' # dec (nat (- i)) else dec (nat i))"

section \<open>Parsing an integer: int(b)\<close>

definition is_digit :: "char \<Rightarrow> bool" where
  "is_digit c \<longleftrightarrow> 48 \<le> (of_char c :: nat) \<and> (of_char c :: nat) \<le> 57"

definition digit_val :: "char \<Rightarrow> nat" where
  "digit_val c = of_char c - 48"

text \<open>Space, tab, line feed, vertical tab, form feed, carriage return.\<close>

definition is_ascii_space :: "char \<Rightarrow> bool" where
  "is_ascii_space c \<longleftrightarrow> (of_char c :: nat) = 32 \<or> (9 \<le> (of_char c :: nat) \<and> (of_char c :: nat) \<le> 13)"

text \<open>Digits with single underscores between them; nothing else may follow.\<close>

fun int_digits :: "nat \<Rightarrow> bytes \<Rightarrow> nat option" where
  "int_digits acc [] = None"
| "int_digits acc (c # cs) =
     (if is_digit c then
        (case cs of
           [] \<Rightarrow> Some (10 * acc + digit_val c)
         | x # xs \<Rightarrow> if x = CHR ''_'' then int_digits (10 * acc + digit_val c) xs
                     else int_digits (10 * acc + digit_val c) cs)
      else None)"

definition strip_bytes :: "bytes \<Rightarrow> bytes" where
  "strip_bytes bs = rev (dropWhile is_ascii_space (rev (dropWhile is_ascii_space bs)))"

definition py_int :: "bytes \<Rightarrow> exc + int" where
  "py_int bs =
     (let t = strip_bytes bs;
          (sg, ds) = (case t of
              [] \<Rightarrow> (1, [])
            | c # cs \<Rightarrow> if c = CHR ''-'' then (- 1, cs)
                       else if c = CHR ''+'' then (1, cs) else (1, t))
      in case int_digits 0 ds of None \<Rightarrow> Inl BuiltinValueError | Some n \<Rightarrow> Inr (sg * int n))"

subsection \<open>int(str(i)) = i\<close>

lemma of_char_digit [simp]: "d < 10 \<Longrightarrow> of_char (digit_char d) = 48 + d"
  by (simp add: digit_char_def)

lemma is_digit_digit_char [simp]: "d < 10 \<Longrightarrow> is_digit (digit_char d)"
  by (simp add: is_digit_def)

lemma digit_val_digit_char [simp]: "d < 10 \<Longrightarrow> digit_val (digit_char d) = d"
  by (simp add: digit_val_def)

lemma dec_digits: "c \<in> set (dec n) \<Longrightarrow> is_digit c"
proof (induction n rule: dec.induct)
  case (1 n)
  then show ?case
    by (cases "n < 10") (auto simp: dec_small dec_step)
qed

lemma is_digit_not_space: "is_digit c \<Longrightarrow> \<not> is_ascii_space c"
  by (auto simp: is_digit_def is_ascii_space_def)

lemma is_digit_not_sign:
  "is_digit c \<Longrightarrow> c \<noteq> CHR ''-'' \<and> c \<noteq> CHR ''+'' \<and> c \<noteq> CHR ''_'' \<and> c \<noteq> CHR 0x0D \<and> c \<noteq> CHR 0x0A"
  by (auto simp: is_digit_def)

fun digits_value :: "nat \<Rightarrow> bytes \<Rightarrow> nat" where
  "digits_value acc [] = acc"
| "digits_value acc (c # cs) = digits_value (10 * acc + digit_val c) cs"

lemma int_digits_all_digits:
  "cs \<noteq> [] \<Longrightarrow> (\<And>c. c \<in> set cs \<Longrightarrow> is_digit c) \<Longrightarrow> int_digits acc cs = Some (digits_value acc cs)"
proof (induction cs arbitrary: acc)
  case Nil
  then show ?case by simp
next
  case (Cons c cs)
  then show ?case
    by (cases cs) (auto dest: is_digit_not_sign)
qed

lemma digits_value_append: "digits_value acc (xs @ ys) = digits_value (digits_value acc xs) ys"
  by (induction xs arbitrary: acc) auto

lemma digits_value_dec: "digits_value 0 (dec n) = n"
proof (induction n rule: dec.induct)
  case (1 n)
  then show ?case
    by (cases "n < 10") (simp_all add: dec_small dec_step digits_value_append)
qed

lemma int_digits_dec [simp]: "int_digits 0 (dec n) = Some n"
  by (simp add: int_digits_all_digits dec_digits digits_value_dec)

lemma dropWhile_none: "(\<And>x. x \<in> set xs \<Longrightarrow> \<not> P x) \<Longrightarrow> dropWhile P xs = xs"
  by (cases xs) auto

lemma strip_bytes_none: "(\<And>c. c \<in> set bs \<Longrightarrow> \<not> is_ascii_space c) \<Longrightarrow> strip_bytes bs = bs"
  using dropWhile_none [of bs is_ascii_space] dropWhile_none [of "rev bs" is_ascii_space]
  by (simp add: strip_bytes_def)

lemma py_str_int_chars: "c \<in> set (py_str_int i) \<Longrightarrow> is_digit c \<or> c = CHR ''-''"
  by (auto simp: py_str_int_def dest: dec_digits split: if_splits)

lemma strip_py_str_int [simp]: "strip_bytes (py_str_int i) = py_str_int i"
  by (rule strip_bytes_none) (auto dest!: py_str_int_chars is_digit_not_space simp: is_ascii_space_def)

lemma dec_Cons_digit: "dec n = c # cs \<Longrightarrow> is_digit c"
  using dec_digits [of c n] by simp

lemma py_int_py_str_int [simp]: "py_int (py_str_int i) = Inr i"
proof (cases "i < 0")
  case True
  then have "py_str_int i = CHR ''-'' # dec (nat (- i))" by (simp add: py_str_int_def)
  with True show ?thesis
    using strip_py_str_int [of i] by (simp add: py_int_def)
next
  case False
  obtain c cs where c: "dec (nat i) = c # cs" by (cases "dec (nat i)") auto
  then have "is_digit c" by (rule dec_Cons_digit)
  with False c show ?thesis
    using strip_py_str_int [of i] int_digits_dec [of "nat i"]
    by (simp add: py_int_def py_str_int_def is_digit_not_sign del: int_digits_dec)
qed

lemma py_str_int_no_crlf: "c \<in> set (py_str_int i) \<Longrightarrow> c \<noteq> CHR 0x0D \<and> c \<noteq> CHR 0x0A"
  by (auto dest!: py_str_int_chars is_digit_not_sign)

section \<open>UTF-8\<close>

definition cont_byte :: "nat \<Rightarrow> bool" where
  "cont_byte b \<longleftrightarrow> 0x80 \<le> b \<and> b \<le> 0xBF"

text \<open>The admissible second byte of a three- or four-byte sequence: no overlong form, no
  surrogate, nothing above \<open>U+10FFFF\<close>.\<close>

definition second_ok :: "nat \<Rightarrow> nat \<Rightarrow> bool" where
  "second_ok b0 b1 \<longleftrightarrow>
     (if b0 = 0xE0 then 0xA0 \<le> b1 \<and> b1 \<le> 0xBF
      else if b0 = 0xED then 0x80 \<le> b1 \<and> b1 \<le> 0x9F
      else if b0 = 0xF0 then 0x90 \<le> b1 \<and> b1 \<le> 0xBF
      else if b0 = 0xF4 then 0x80 \<le> b1 \<and> b1 \<le> 0x8F
      else cont_byte b1)"

text \<open>One step of the decoder at lead byte \<open>b0\<close>: a code point with the number of bytes that
  follow the lead byte, or an ill-formed prefix with that number (the part that
  \<open>errors="replace"\<close> turns into one \<open>U+FFFD\<close>).\<close>

datatype utf8_tok = Cp nat nat | Bad nat

definition utf8_step :: "nat \<Rightarrow> nat list \<Rightarrow> utf8_tok" where
  "utf8_step b0 bs =
     (if b0 < 0x80 then Cp b0 0
      else if b0 < 0xC2 then Bad 0
      else if b0 < 0xE0 then
        (case bs of
           b1 # _ \<Rightarrow> if cont_byte b1 then Cp ((b0 - 0xC0) * 64 + (b1 - 0x80)) 1 else Bad 0
         | [] \<Rightarrow> Bad 0)
      else if b0 < 0xF0 then
        (case bs of
           b1 # bs1 \<Rightarrow> if second_ok b0 b1 then
             (case bs1 of
                b2 # _ \<Rightarrow> if cont_byte b2
                  then Cp ((b0 - 0xE0) * 4096 + (b1 - 0x80) * 64 + (b2 - 0x80)) 2 else Bad 1
              | [] \<Rightarrow> Bad 1)
             else Bad 0
         | [] \<Rightarrow> Bad 0)
      else if b0 < 0xF5 then
        (case bs of
           b1 # bs1 \<Rightarrow> if second_ok b0 b1 then
             (case bs1 of
                b2 # bs2 \<Rightarrow> if cont_byte b2 then
                  (case bs2 of
                     b3 # _ \<Rightarrow> if cont_byte b3
                       then Cp ((b0 - 0xF0) * 262144 + (b1 - 0x80) * 4096 + (b2 - 0x80) * 64
                                + (b3 - 0x80)) 3 else Bad 2
                   | [] \<Rightarrow> Bad 2)
                  else Bad 1
              | [] \<Rightarrow> Bad 1)
             else Bad 0
         | [] \<Rightarrow> Bad 0)
      else Bad 0)"

function utf8_strict :: "nat list \<Rightarrow> ustr option" where
  "utf8_strict [] = Some []"
| "utf8_strict (b # bs) =
     (case utf8_step b bs of
        Cp c k \<Rightarrow> map_option (Cons c) (utf8_strict (drop k bs))
      | Bad _ \<Rightarrow> None)"
  by pat_completeness auto
termination
  by (relation "measure length") auto

function utf8_replace :: "nat list \<Rightarrow> ustr" where
  "utf8_replace [] = []"
| "utf8_replace (b # bs) =
     (case utf8_step b bs of
        Cp c k \<Rightarrow> c # utf8_replace (drop k bs)
      | Bad k \<Rightarrow> 0xFFFD # utf8_replace (drop k bs))"
  by pat_completeness auto
termination
  by (relation "measure length") auto

text \<open>\<open>b.decode("utf-8")\<close> and \<open>b.decode("utf-8", errors="replace")\<close>.\<close>

definition utf8_decode :: "bytes \<Rightarrow> exc + ustr" where
  "utf8_decode bs = (case utf8_strict (map of_char bs) of
     None \<Rightarrow> Inl BuiltinUnicodeDecodeError | Some s \<Rightarrow> Inr s)"

definition utf8_decode_replace :: "bytes \<Rightarrow> ustr" where
  "utf8_decode_replace bs = utf8_replace (map of_char bs)"

text \<open>One code point; \<open>None\<close> for a surrogate, which \<open>encode\<close> refuses.\<close>

definition utf8_cp :: "nat \<Rightarrow> nat list option" where
  "utf8_cp c =
     (if c < 0x80 then Some [c]
      else if c < 0x800 then Some [0xC0 + c div 64, 0x80 + c mod 64]
      else if 0xD800 \<le> c \<and> c \<le> 0xDFFF then None
      else if c < 0x10000 then
        Some [0xE0 + c div 4096, 0x80 + c div 64 mod 64, 0x80 + c mod 64]
      else if c < 0x110000 then
        Some [0xF0 + c div 262144, 0x80 + c div 4096 mod 64, 0x80 + c div 64 mod 64,
              0x80 + c mod 64]
      else None)"

fun utf8_nats :: "ustr \<Rightarrow> nat list option" where
  "utf8_nats [] = Some []"
| "utf8_nats (c # cs) =
     (case utf8_cp c of None \<Rightarrow> None
      | Some bs \<Rightarrow> (case utf8_nats cs of None \<Rightarrow> None | Some bss \<Rightarrow> Some (bs @ bss)))"

definition utf8_encode :: "ustr \<Rightarrow> exc + bytes" where
  "utf8_encode s = (case utf8_nats s of
     None \<Rightarrow> Inl BuiltinUnicodeEncodeError | Some bs \<Rightarrow> Inr (map char_of bs))"

subsection \<open>Round trips\<close>

lemma base64_3: "(n::nat) div 4096 * 4096 + n div 64 mod 64 * 64 + n mod 64 = n"
proof -
  have "n div 64 = n div 4096 * 64 + n div 64 mod 64"
    using div_mult_mod_eq [of "n div 64" 64] by (simp add: div_mult2_eq [of n 64 64, simplified])
  with div_mult_mod_eq [of n 64] show ?thesis by linarith
qed

lemma base64_4:
  "(n::nat) div 262144 * 262144 + n div 4096 mod 64 * 4096 + n div 64 mod 64 * 64 + n mod 64 = n"
proof -
  have "n div 4096 = n div 262144 * 64 + n div 4096 mod 64"
    using div_mult_mod_eq [of "n div 4096" 64]
    by (simp add: div_mult2_eq [of n 4096 64, simplified])
  with base64_3 [of n] show ?thesis by linarith
qed

lemma utf8_cp_step:
  assumes "utf8_cp c = Some bs"
  shows "\<exists>b rest. bs = b # rest \<and> utf8_step b (rest @ more) = Cp c (length rest)"
proof -
  consider "c < 0x80" | "0x80 \<le> c" "c < 0x800" | "0x800 \<le> c" "c < 0x10000"
    | "0x10000 \<le> c" "c < 0x110000" | "0x110000 \<le> c"
    by linarith
  then show ?thesis
  proof cases
    case 1
    with assms have "bs = [c]" by (simp add: utf8_cp_def)
    with 1 show ?thesis by (simp add: utf8_step_def)
  next
    case 2
    define x z where "x = c div 64" and "z = c mod 64"
    note defs = this
    have c: "x * 64 + z = c" unfolding defs by presburger
    have r: "2 \<le> x" "x < 32" "z < 64" using 2 by (auto simp: defs)
    have "bs = [0xC0 + x, 0x80 + z]"
      using assms 2 by (simp add: utf8_cp_def defs)
    then show ?thesis using c r by (simp add: utf8_step_def cont_byte_def)
  next
    case 3
    define x y z where "x = c div 4096" and "y = c div 64 mod 64" and "z = c mod 64"
    note defs = this
    have c: "x * 4096 + y * 64 + z = c" unfolding defs by (rule base64_3)
    have r: "x < 16" "y < 64" "z < 64" using 3 by (auto simp: defs)
    have lo: "x = 0 \<Longrightarrow> 32 \<le> y" using 3 c r by linarith
    have "\<not> (0xD800 \<le> c \<and> c \<le> 0xDFFF)"
      using assms 3 by (simp add: utf8_cp_def split: if_splits)
    then have hi: "x = 13 \<Longrightarrow> y < 32" using c r by auto
    have "bs = [0xE0 + x, 0x80 + y, 0x80 + z]"
      using assms 3 by (simp add: utf8_cp_def defs split: if_splits)
    then show ?thesis using c r lo hi
      by (auto simp: utf8_step_def cont_byte_def second_ok_def)
  next
    case 4
    define w x y z where "w = c div 262144" and "x = c div 4096 mod 64"
      and "y = c div 64 mod 64" and "z = c mod 64"
    note defs = this
    have c: "w * 262144 + x * 4096 + y * 64 + z = c" unfolding defs by (rule base64_4)
    have r: "w < 5" "x < 64" "y < 64" "z < 64" using 4 by (auto simp: defs)
    have lo: "w = 0 \<Longrightarrow> 16 \<le> x" using 4 c r by linarith
    have hi: "w = 4 \<Longrightarrow> x < 16" using 4 c r by linarith
    have "bs = [0xF0 + w, 0x80 + x, 0x80 + y, 0x80 + z]"
      using assms 4 by (simp add: utf8_cp_def defs split: if_splits)
    then show ?thesis using c r lo hi
      by (auto simp: utf8_step_def cont_byte_def second_ok_def)
  next
    case 5
    with assms show ?thesis by (simp add: utf8_cp_def split: if_splits)
  qed
qed

lemma utf8_strict_nats_append:
  "utf8_nats s = Some bs \<Longrightarrow>
   utf8_strict (bs @ more) = map_option ((@) s) (utf8_strict more)"
proof (induction s arbitrary: bs)
  case Nil
  then show ?case by (simp add: option.map_ident)
next
  case (Cons c cs)
  from Cons.prems obtain b1 b2 where b: "utf8_cp c = Some b1" "utf8_nats cs = Some b2" "bs = b1 @ b2"
    by (auto split: option.splits)
  from utf8_cp_step [OF b(1), of "b2 @ more"] obtain b r
    where r: "b1 = b # r" "utf8_step b (r @ b2 @ more) = Cp c (length r)" by auto
  with b(3) Cons.IH [OF b(2)] show ?case by (simp add: option.map_comp comp_def)
qed

lemma utf8_nats_bytes: "utf8_nats s = Some bs \<Longrightarrow> b \<in> set bs \<Longrightarrow> b < 256"
proof (induction s arbitrary: bs)
  case Nil
  then show ?case by simp
next
  case (Cons c cs)
  have "utf8_cp c = Some xs \<Longrightarrow> b \<in> set xs \<Longrightarrow> b < 256" for xs
    by (auto simp: utf8_cp_def split: if_splits)
  with Cons show ?case by (auto split: option.splits)
qed

lemma map_of_char_char_of:
  "(\<And>b. b \<in> set bs \<Longrightarrow> b < 256) \<Longrightarrow> map of_char (map char_of bs) = (bs :: nat list)"
  by (induction bs) auto

lemma utf8_decode_encode: "utf8_encode s = Inr bs \<Longrightarrow> utf8_decode bs = Inr s"
  using utf8_strict_nats_append [of s _ "[]"]
  by (auto simp: utf8_encode_def utf8_decode_def map_of_char_char_of [OF utf8_nats_bytes]
      simp del: map_map split: option.splits)

text \<open>The decoder accepts only what the encoder produces.\<close>

lemma div_mod_64:
  fixes x z :: nat
  assumes "z < 64"
  shows "(x * 64 + z) div 64 = x" "(x * 64 + z) mod 64 = z"
  using assms by auto

lemma utf8_step_cp:
  assumes "utf8_step b bs = Cp c k"
  shows "utf8_cp c = Some (b # take k bs) \<and> k \<le> length bs"
proof -
  consider "b < 0x80" | "0xC2 \<le> b" "b < 0xE0" | "0xE0 \<le> b" "b < 0xF0" | "0xF0 \<le> b" "b < 0xF5"
    using assms by (fastforce simp: utf8_step_def split: if_splits)
  then show ?thesis
  proof cases
    case 1
    with assms show ?thesis by (auto simp: utf8_step_def utf8_cp_def)
  next
    case 2
    with assms obtain b1 r where bs: "bs = b1 # r" "cont_byte b1"
      and c: "c = (b - 0xC0) * 64 + (b1 - 0x80)" "k = 1"
      by (auto simp: utf8_step_def split: list.splits if_splits)
    define x z where "x = b - 0xC0" and "z = b1 - 0x80"
    have "b = 0xC0 + x" "b1 = 0x80 + z" "2 \<le> x" "x < 32" "z < 64" "c = x * 64 + z"
      using 2 bs c by (auto simp: x_def z_def cont_byte_def)
    with bs c show ?thesis by (auto simp: utf8_cp_def)
  next
    case 3
    with assms obtain b1 b2 r where bs: "bs = b1 # b2 # r" "second_ok b b1" "cont_byte b2"
      and c: "c = (b - 0xE0) * 4096 + (b1 - 0x80) * 64 + (b2 - 0x80)" "k = 2"
      by (auto simp: utf8_step_def split: list.splits if_splits)
    define x y z where "x = b - 0xE0" and "y = b1 - 0x80" and "z = b2 - 0x80"
    have b: "b = 0xE0 + x" "b1 = 0x80 + y" "b2 = 0x80 + z" and r: "x < 16" "y < 64" "z < 64"
      and h: "x = 0 \<Longrightarrow> 32 \<le> y" "x = 13 \<Longrightarrow> y < 32"
      using 3 bs c by (auto simp: x_def y_def z_def cont_byte_def second_ok_def split: if_splits)
    have cx: "c = (x * 64 + y) * 64 + z" using c by (simp add: x_def y_def z_def)
    have d: "c div 64 = x * 64 + y" "c mod 64 = z" "c div 4096 = x"
      using r div_mod_64 [of z "x * 64 + y"] div_mod_64 [of y x]
      by (simp_all add: cx div_mult2_eq [of _ 64 64, simplified])
    have lo: "0x800 \<le> c" using r h(1) cx by (cases "x = 0") auto
    have up: "c < 0x10000" using r cx by auto
    have "\<not> (0xD800 \<le> c \<and> c \<le> 0xDFFF)" using r h(2) cx by (cases "x = 13") auto
    with lo up show ?thesis using bs c(2) b d r by (simp add: utf8_cp_def)
  next
    case 4
    with assms obtain b1 b2 b3 r where bs: "bs = b1 # b2 # b3 # r" "second_ok b b1"
        "cont_byte b2" "cont_byte b3"
      and c: "c = (b - 0xF0) * 262144 + (b1 - 0x80) * 4096 + (b2 - 0x80) * 64 + (b3 - 0x80)" "k = 3"
      by (auto simp: utf8_step_def split: list.splits if_splits)
    define w x y z where "w = b - 0xF0" and "x = b1 - 0x80" and "y = b2 - 0x80" and "z = b3 - 0x80"
    have b: "b = 0xF0 + w" "b1 = 0x80 + x" "b2 = 0x80 + y" "b3 = 0x80 + z"
      and r: "w < 5" "x < 64" "y < 64" "z < 64" and h: "w = 0 \<Longrightarrow> 16 \<le> x" "w = 4 \<Longrightarrow> x < 16"
      using 4 bs c by (auto simp: w_def x_def y_def z_def cont_byte_def second_ok_def split: if_splits)
    have cx: "c = ((w * 64 + x) * 64 + y) * 64 + z"
      using c by (simp add: w_def x_def y_def z_def)
    have d: "c div 64 = (w * 64 + x) * 64 + y" "c mod 64 = z"
      using r div_mod_64 [of z "(w * 64 + x) * 64 + y"] by (simp_all add: cx)
    have d2: "c div 4096 = w * 64 + x"
      using r d div_mod_64 [of y "w * 64 + x"] by (simp add: div_mult2_eq [of _ 64 64, simplified])
    have m: "c div 64 mod 64 = y" "c div 4096 mod 64 = x"
      using r by (simp_all only: d(1) d2 div_mod_64)
    have d3: "c div 262144 = w"
      using r d2 div_mod_64 [of x w] by (simp add: div_mult2_eq [of _ 4096 64, simplified])
    have "0x10000 \<le> c" using r h(1) cx by (cases "w = 0") auto
    moreover have "c < 0x110000" using r h(2) cx by (cases "w = 4") auto
    ultimately show ?thesis using bs c(2) b d(2) m d3 by (simp add: utf8_cp_def)
  qed
qed

lemma utf8_strict_nats: "utf8_strict bs = Some s \<Longrightarrow> utf8_nats s = Some bs"
proof (induction bs arbitrary: s rule: utf8_strict.induct)
  case 1
  then show ?case by simp
next
  case (2 b bs)
  then obtain c k s' where st: "utf8_step b bs = Cp c k" "utf8_strict (drop k bs) = Some s'" "s = c # s'"
    by (auto split: utf8_tok.splits)
  with 2 have "utf8_nats s' = Some (drop k bs)" by simp
  with utf8_step_cp [OF st(1)] st(3) show ?case by simp
qed

lemma map_char_of_of_char: "map char_of (map of_char bs :: nat list) = bs"
  by (induction bs) auto

lemma utf8_encode_decode: "utf8_decode bs = Inr s \<Longrightarrow> utf8_encode s = Inr bs"
  using utf8_strict_nats [of "map of_char bs" s]
  by (auto simp: utf8_decode_def utf8_encode_def map_char_of_of_char simp del: map_map
      split: option.splits)

lemma utf8_decode_iff: "utf8_decode bs = Inr s \<longleftrightarrow> utf8_encode s = Inr bs"
  by (auto intro: utf8_decode_encode utf8_encode_decode)

text \<open>ASCII text is its own encoding.\<close>

definition ascii :: "string \<Rightarrow> bool" where
  "ascii s \<longleftrightarrow> (\<forall>c \<in> set s. (of_char c :: nat) < 128)"

lemma utf8_nats_ascii: "ascii s \<Longrightarrow> utf8_nats (map of_char s) = Some (map of_char s)"
  by (induction s) (auto simp: ascii_def utf8_cp_def)

lemma utf8_encode_u: "ascii s \<Longrightarrow> utf8_encode (u s) = Inr s"
  by (simp add: utf8_encode_def u_def utf8_nats_ascii map_char_of_of_char del: map_map)

lemma utf8_decode_ascii: "ascii s \<Longrightarrow> utf8_decode s = Inr (u s)"
  by (rule utf8_decode_encode) (rule utf8_encode_u)

lemma u_inj [simp]: "u s = u t \<longleftrightarrow> s = t"
  unfolding u_def by (rule inj_map_eq_map) (simp add: inj_on_def)

lemma ascii_py_str_int [simp]: "ascii (py_str_int i)"
  by (auto simp: ascii_def is_digit_def dest!: py_str_int_chars)

section \<open>Whitespace in text\<close>

text \<open>\<open>str.isspace\<close> of one character.\<close>

definition is_space :: "nat \<Rightarrow> bool" where
  "is_space n \<longleftrightarrow> (9 \<le> n \<and> n \<le> 13) \<or> (28 \<le> n \<and> n \<le> 32) \<or> n = 133 \<or> n = 160 \<or> n = 5760 \<or>
     (8192 \<le> n \<and> n \<le> 8202) \<or> n = 8232 \<or> n = 8233 \<or> n = 8239 \<or> n = 8287 \<or> n = 12288"

text \<open>\<open>s.strip()\<close>.\<close>

definition strip :: "ustr \<Rightarrow> ustr" where
  "strip s = rev (dropWhile is_space (rev (dropWhile is_space s)))"

lemma strip_Nil [simp]: "strip [] = []"
  by (simp add: strip_def)

lemma dropWhile_idem: "dropWhile P (dropWhile P xs) = dropWhile P xs"
  by (induction xs) auto

lemma strip_idem [simp]: "strip (strip s) = strip s"
proof -
  have 1: "dropWhile is_space (rev (dropWhile is_space (rev s'))) = rev (dropWhile is_space (rev s'))"
    if "dropWhile is_space s' = s'" for s'
  proof (cases s')
    case Nil
    then show ?thesis by simp
  next
    case (Cons x xs)
    then have "\<not> is_space x" using that by (auto split: if_splits dest: arg_cong [of _ _ length])
      (metis impossible_Cons length_dropWhile_le)
    then have "dropWhile is_space (rev s') \<noteq> []" using Cons by auto
    then show ?thesis using Cons \<open>\<not> is_space x\<close> by (simp add: dropWhile_append)
  qed
  show ?thesis by (simp add: strip_def dropWhile_idem 1)
qed

end
