(* ===== verification/Resp.thy ===== *)
theory Resp
  imports Py_Text
begin

text \<open>
  The values and the encoder of \<open>resp.py\<close>: decoded replies (\<open>RespValue\<close>), \<open>encode_command\<close>
  and \<open>encode_commands\<close>; and what a server may send: the wire form of a value and the
  condition under which it is one.
\<close>

section \<open>Values\<close>

datatype resp = RStr ustr | RBytes bytes | RInt int | RList "resp list" | RNone

definition crlf :: bytes where
  "crlf = [CHR 0x0D, CHR 0x0A]"

lemma length_crlf [simp]: "length crlf = 2"
  by (simp add: crlf_def)

section \<open>Encoding of commands\<close>

definition encode_arg :: "arg \<Rightarrow> exc + bytes" where
  "encode_arg a = (case a of Str s \<Rightarrow> utf8_encode s | Bytes b \<Rightarrow> Inr b)"

fun encode_parts :: "arg list \<Rightarrow> exc + bytes" where
  "encode_parts [] = Inr []"
| "encode_parts (a # as) =
     (case encode_arg a of
        Inl e \<Rightarrow> Inl e
      | Inr raw \<Rightarrow>
          map_sumE (\<lambda>rest. ''$'' @ dec (length raw) @ crlf @ raw @ crlf @ rest) (encode_parts as))"

definition encode_command :: "arg list \<Rightarrow> exc + bytes" where
  "encode_command args =
     map_sumE (\<lambda>parts. ''*'' @ dec (length args) @ crlf @ parts) (encode_parts args)"

fun encode_commands :: "arg list list \<Rightarrow> exc + bytes" where
  "encode_commands [] = Inr []"
| "encode_commands (c # cs) =
     (case encode_command c of
        Inl e \<Rightarrow> Inl e
      | Inr b \<Rightarrow> map_sumE (\<lambda>bs. b @ bs) (encode_commands cs))"

section \<open>Wire form of replies\<close>

fun find_crlf :: "bytes \<Rightarrow> nat option" where
  "find_crlf [] = None"
| "find_crlf [c] = None"
| "find_crlf (c # d # cs) =
     (if c = CHR 0x0D \<and> d = CHR 0x0A then Some 0 else map_option Suc (find_crlf (d # cs)))"

definition simple_bytes :: "ustr \<Rightarrow> bytes" where
  "simple_bytes s = (case utf8_encode s of Inl _ \<Rightarrow> [] | Inr b \<Rightarrow> b)"

text \<open>How a server writes a value: simple strings, integers, bulk strings, arrays, and the null
  bulk string.\<close>

fun resp_wire :: "resp \<Rightarrow> bytes" where
  "resp_wire (RStr s) = ''+'' @ simple_bytes s @ crlf"
| "resp_wire (RInt i) = '':'' @ py_str_int i @ crlf"
| "resp_wire (RBytes b) = ''$'' @ dec (length b) @ crlf @ b @ crlf"
| "resp_wire (RList xs) = ''*'' @ dec (length xs) @ crlf @ concat (map resp_wire xs)"
| "resp_wire RNone = ''$-1'' @ crlf"

text \<open>A simple string is one line of well-formed text; bulk strings hold any bytes.\<close>

fun reply_ok :: "resp \<Rightarrow> bool" where
  "reply_ok (RStr s) = (case utf8_encode s of Inl _ \<Rightarrow> False | Inr b \<Rightarrow> find_crlf b = None)"
| "reply_ok (RList xs) = list_all reply_ok xs"
| "reply_ok _ = True"

fun resp_depth :: "resp \<Rightarrow> nat" where
  "resp_depth (RList xs) = Suc (foldr (\<lambda>x m. max (resp_depth x) m) xs 0)"
| "resp_depth _ = 1"

subsection \<open>Lines\<close>

lemma find_crlf_Some:
  "find_crlf bs = Some i \<Longrightarrow> bs = take i bs @ crlf @ drop (i + 2) bs \<and> i + 2 \<le> length bs"
proof (induction bs arbitrary: i rule: find_crlf.induct)
  case (3 c d cs)
  then show ?case
    by (cases "c = CHR 0x0D \<and> d = CHR 0x0A") (auto simp: crlf_def)
qed simp_all

lemma find_crlf_append_line:
  "find_crlf l = None \<Longrightarrow> find_crlf (l @ crlf @ rest) = Some (length l)"
proof (induction l rule: find_crlf.induct)
  case 1
  then show ?case by (simp add: crlf_def)
next
  case (2 c)
  then show ?case by (simp add: crlf_def)
next
  case (3 c d cs)
  then show ?case by (auto split: if_splits)
qed

lemma find_crlf_append: "find_crlf bs = Some i \<Longrightarrow> find_crlf (bs @ more) = Some i"
  by (induction bs arbitrary: i rule: find_crlf.induct) (auto split: if_splits)

lemma find_crlf_no_cr: "(\<And>c. c \<in> set l \<Longrightarrow> c \<noteq> CHR 0x0D) \<Longrightarrow> find_crlf l = None"
  by (induction l rule: find_crlf.induct) auto

lemma find_crlf_int [simp]: "find_crlf (py_str_int i) = None"
  by (rule find_crlf_no_cr) (simp add: py_str_int_no_crlf)

lemma py_str_int_nat: "py_str_int (int n) = dec n"
  by (simp add: py_str_int_def)

lemma find_crlf_dec [simp]: "find_crlf (dec n) = None"
  using find_crlf_int [of "int n"] by (simp add: py_str_int_nat)

lemma py_int_dec [simp]: "py_int (dec n) = Inr (int n)"
  using py_int_py_str_int [of "int n"] by (simp add: py_str_int_nat)

subsection \<open>The encoder\<close>

lemma encode_arg_Bytes [simp]: "encode_arg (Bytes b) = Inr b"
  by (simp add: encode_arg_def)

lemma encode_arg_u: "ascii s \<Longrightarrow> encode_arg (Str (u s)) = Inr s"
  by (simp add: encode_arg_def utf8_encode_u)

text \<open>A command is on the wire exactly an array of bulk strings, one per argument.\<close>

fun encode_args :: "arg list \<Rightarrow> exc + bytes list" where
  "encode_args [] = Inr []"
| "encode_args (a # as) =
     (case encode_arg a of Inl e \<Rightarrow> Inl e | Inr raw \<Rightarrow> map_sumE (\<lambda>rs. raw # rs) (encode_args as))"

lemma encode_parts_args:
  "encode_parts as = map_sumE (\<lambda>rs. concat (map (\<lambda>r. resp_wire (RBytes r)) rs)) (encode_args as)"
  by (induction as) (auto simp: map_sumE_def split: sum.splits)

lemma length_encode_args: "encode_args as = Inr rs \<Longrightarrow> length rs = length as"
  by (induction as arbitrary: rs) (auto split: sum.splits)

lemma encode_command_wire:
  "encode_command as = map_sumE (\<lambda>rs. resp_wire (RList (map RBytes rs))) (encode_args as)"
  by (cases "encode_args as")
    (auto simp: encode_command_def encode_parts_args comp_def dest: length_encode_args)

lemma encode_commands_append:
  "encode_commands (cs @ ds) =
     (case encode_commands cs of Inl e \<Rightarrow> Inl e
      | Inr b \<Rightarrow> map_sumE (\<lambda>bs. b @ bs) (encode_commands ds))"
  by (induction cs) (auto simp: map_sumE_def split: sum.splits)

end
