(* ===== verification/Resp_Spec.thy ===== *)
theory Resp_Spec
  imports Resp
begin

text \<open>
  The abstract specification of the streaming decoders: a parser over the bytes of the stream
  that have not been consumed yet, with no buffer, no cursor and no packets. \<open>ending\<close> says what
  happens when the bytes run out. A bulk length below \<open>-1\<close> has no meaning in the protocol and is
  the outcome \<open>Rewind\<close>, about which the specification promises nothing.

  The second half states when a program over some concrete reader \<^emph>\<open>simulates\<close> a parser of this
  kind, and that simulation is preserved by the combinators the decoders are written with.
\<close>

section \<open>The stream parser\<close>

datatype ending = Eof | TimedOut | Broken

fun starve :: "ending \<Rightarrow> protocol_fault \<Rightarrow> exc" where
  "starve Eof p = ProtocolError p"
| "starve TimedOut p = BuiltinTimeoutError"
| "starve Broken p = BuiltinOSError"

text \<open>The exceptions a decoder raises only because the stream ended early.\<close>

definition starved :: "exc \<Rightarrow> bool" where
  "starved e \<longleftrightarrow> e = ProtocolError ClosedInFrame \<or> e = ProtocolError ClosedInLine \<or> is_OSError e"

lemma starved_starve [simp]: "starved (starve e ClosedInFrame)" "starved (starve e ClosedInLine)"
  by (cases e; simp add: starved_def)+

datatype spec_exc = Py exc | Rewind

definition spec_line :: "ending \<Rightarrow> (bytes, spec_exc, bytes) py" where
  "spec_line e = (\<lambda>bs. case find_crlf bs of
      None \<Rightarrow> (Inl (Py (starve e ClosedInLine)), bs)
    | Some i \<Rightarrow> (Inr (take i bs), drop (i + 2) bs))"

definition spec_exact :: "int \<Rightarrow> ending \<Rightarrow> (bytes, spec_exc, bytes) py" where
  "spec_exact n e = (\<lambda>bs.
      if n < 0 then (Inl Rewind, bs)
      else if length bs < nat n then (Inl (Py (starve e ClosedInFrame)), bs)
      else (Inr (take (nat n) bs), drop (nat n) bs))"

text \<open>The exceptions of a total conversion, in the exception type of the program around it.\<close>

definition map_exc :: "(exc \<Rightarrow> 'e) \<Rightarrow> exc + 'a \<Rightarrow> 'e + 'a" where
  "map_exc f r = (case r of Inl e \<Rightarrow> Inl (f e) | Inr x \<Rightarrow> Inr x)"

lemma map_exc_simps [simp]: "map_exc f (Inl e) = Inl (f e)" "map_exc f (Inr x) = Inr x"
  by (simp_all add: map_exc_def)

lemma map_exc_id [simp]: "map_exc id r = r"
  by (cases r) simp_all

text \<open>The shape of a frame decoder, over the way to read the marker, a line and an exact number of
  bytes, and over the decoder of nested frames.\<close>

definition frame_body ::
    "(exc \<Rightarrow> 'e) \<Rightarrow> ('r, 'e, bytes) py \<Rightarrow> ('r, 'e, bytes) py \<Rightarrow> (int \<Rightarrow> ('r, 'e, bytes) py) \<Rightarrow>
     ('r, 'e, resp) py \<Rightarrow> ('r, 'e, resp) py" where
  "frame_body emb mark line exact nested = bindE mark (\<lambda>m.
     if m = ''+'' then bindE line (\<lambda>l. liftE (map_exc emb (map_sumE RStr (utf8_decode l))))
     else if m = ''-'' then
       bindE line (\<lambda>l. bindE (liftE (map_exc emb (utf8_decode l))) (\<lambda>t. raise (emb (ResponseError t))))
     else if m = '':'' then bindE line (\<lambda>l. liftE (map_exc emb (map_sumE RInt (py_int l))))
     else if m = ''$'' then
       bindE line (\<lambda>l. bindE (liftE (map_exc emb (py_int l))) (\<lambda>n.
         if n = -1 then ret RNone
         else bindE (exact n) (\<lambda>b. bindE (exact 2) (\<lambda>_. ret (RBytes b)))))
     else if m = ''*'' then
       bindE line (\<lambda>l. bindE (liftE (map_exc emb (py_int l))) (\<lambda>n.
         if n = -1 then ret RNone
         else bindE (repeatM (nat n) nested) (\<lambda>xs. ret (RList xs))))
     else if m = ''_'' then bindE line (\<lambda>_. ret RNone)
     else raise (emb (ProtocolError (UnknownMarker m))))"

primrec spec_frame :: "nat \<Rightarrow> ending \<Rightarrow> (bytes, spec_exc, resp) py" where
  "spec_frame 0 e = raise (Py BuiltinRecursionError)"
| "spec_frame (Suc d) e =
     frame_body Py (spec_exact 1 e) (spec_line e) (\<lambda>n. spec_exact n e) (spec_frame d e)"

subsection \<open>The parser inverts the wire form\<close>

lemma spec_line_line:
  "find_crlf l = None \<Longrightarrow> spec_line e (l @ crlf @ rest) = (Inr l, rest)"
  by (simp add: spec_line_def find_crlf_append_line)

lemma spec_exact_take:
  "length b = n \<Longrightarrow> spec_exact (int n) e (b @ rest) = (Inr b, rest)"
  by (simp add: spec_exact_def)

lemma spec_marker: "spec_exact 1 e (c # rest) = (Inr [c], rest)"
  by (simp add: spec_exact_def)

lemma spec_crlf: "spec_exact 2 e (crlf @ rest) = (Inr crlf, rest)"
  by (simp add: spec_exact_def crlf_def)

lemmas spec_steps = spec_marker spec_line_line spec_exact_take spec_crlf

lemma repeatM_wire:
  assumes "\<And>x rest. x \<in> set xs \<Longrightarrow> m (f x @ rest) = (Inr x, rest)"
  shows "repeatM (length xs) m (concat (map f xs) @ rest) = (Inr xs, rest)"
  using assms
proof (induction xs)
  case Nil
  then show ?case by simp
next
  case (Cons x xs)
  have x: "m (f x @ concat (map f xs) @ rest) = (Inr x, concat (map f xs) @ rest)"
    using Cons.prems by simp
  have "repeatM (length xs) m (concat (map f xs) @ rest) = (Inr xs, rest)"
    using Cons by simp
  with x show ?case by (simp add: py_simps)
qed

lemma foldr_max_depth:
  "foldr (\<lambda>x m. max (g x) m) xs (0::nat) \<le> d \<longleftrightarrow> (\<forall>x \<in> set xs. g x \<le> d)"
  by (induction xs) auto

lemma spec_frame_wire:
  "reply_ok v \<Longrightarrow> resp_depth v \<le> d \<Longrightarrow> spec_frame d e (resp_wire v @ rest) = (Inr v, rest)"
proof (induction v arbitrary: d rest)
  case (RStr s)
  then obtain b d' where b: "utf8_encode s = Inr b" "find_crlf b = None" "d = Suc d'"
    by (cases d) (auto split: sum.splits)
  then show ?case
    by (simp add: frame_body_def simple_bytes_def py_simps spec_steps utf8_decode_encode)
next
  case (RBytes b)
  then obtain d' where "d = Suc d'" by (cases d) auto
  then show ?case
    by (simp add: frame_body_def py_simps spec_steps)
next
  case (RInt i)
  then obtain d' where "d = Suc d'" by (cases d) auto
  then show ?case
    by (simp add: frame_body_def py_simps spec_steps)
next
  case (RList xs)
  then obtain d' where d: "d = Suc d'" by (cases d) auto
  with RList.prems have "\<forall>x \<in> set xs. resp_depth x \<le> d'" "\<forall>x \<in> set xs. reply_ok x"
    by (auto simp: foldr_max_depth list_all_iff)
  then have "repeatM (length xs) (spec_frame d' e) (concat (map resp_wire xs) @ rest) = (Inr xs, rest)"
    by (intro repeatM_wire RList.IH) auto
  then show ?case
    by (simp add: d frame_body_def py_simps spec_steps)
next
  case RNone
  then obtain d' where "d = Suc d'" by (cases d) auto
  moreover have "find_crlf ''-1'' = None" by simp
  moreover have "py_int ''-1'' = Inr (-1)" by code_simp
  moreover have "spec_line e (CHR ''-'' # CHR ''1'' # crlf @ rest) = (Inr ''-1'', rest)"
    using spec_line_line [of "''-1''" e rest] by simp
  ultimately show ?case
    by (simp add: frame_body_def py_simps spec_steps)
qed

text \<open>An error reply is raised, and consumed whole.\<close>

lemma spec_frame_error:
  "utf8_encode t = Inr b \<Longrightarrow> find_crlf b = None \<Longrightarrow>
   spec_frame (Suc d) e (''-'' @ b @ crlf @ rest) = (Inl (Py (ResponseError t)), rest)"
  by (simp add: frame_body_def py_simps spec_steps utf8_decode_encode)

section \<open>Enough depth\<close>

text \<open>A step over the stream never gives bytes back.\<close>

definition shrinks :: "(bytes, 'e, 'a) py \<Rightarrow> bool" where
  "shrinks m \<longleftrightarrow> (\<forall>bs. length (snd (m bs)) \<le> length bs)"

lemma shrinks_bindE [py_intros]:
  assumes "shrinks m" and "\<And>x. shrinks (k x)"
  shows "shrinks (bindE m k)"
  unfolding shrinks_def
proof
  fix bs
  obtain r s where m: "m bs = (r, s)" by (cases "m bs")
  from assms(1) have "length s \<le> length bs" unfolding shrinks_def by (metis m snd_conv)
  moreover have "length (snd (k x s)) \<le> length s" for x
    using assms(2) by (simp add: shrinks_def)
  ultimately show "length (snd (bindE m k bs)) \<le> length bs"
    by (cases r) (auto simp: m intro: le_trans)
qed

lemma shrinks_basic [py_intros]:
  "shrinks (ret x)" "shrinks (raise e)" "shrinks (liftE r)"
  by (simp_all add: shrinks_def)

lemma shrinks_line [py_intros]: "shrinks (spec_line e)"
  by (auto simp: shrinks_def spec_line_def split: option.splits)

lemma shrinks_exact [py_intros]: "shrinks (spec_exact n e)"
  by (simp add: shrinks_def spec_exact_def)

lemma shrinks_repeatM [py_intros]: "shrinks m \<Longrightarrow> shrinks (repeatM n m)"
  by (induction n) (simp_all add: py_intros)

lemma shrinks_frame_body [py_intros]:
  "shrinks mk \<Longrightarrow> shrinks ln \<Longrightarrow> (\<And>n. shrinks (ex n)) \<Longrightarrow> shrinks nested \<Longrightarrow>
   shrinks (frame_body emb mk ln ex nested)"
  by (simp add: frame_body_def py_intros)

lemma shrinks_spec_frame [py_intros]: "shrinks (spec_frame d e)"
proof (induction d)
  case 0
  show ?case unfolding spec_frame.simps by (rule shrinks_basic)
next
  case (Suc d)
  then show ?case unfolding spec_frame.simps by (intro py_intros)
qed

text \<open>\<open>no_limit k m\<close>: on a stream of at most \<open>k\<close> bytes, \<open>m\<close> does not hit the recursion limit.\<close>

definition no_limit :: "nat \<Rightarrow> (bytes, spec_exc, 'a) py \<Rightarrow> bool" where
  "no_limit k m \<longleftrightarrow> (\<forall>bs. length bs \<le> k \<longrightarrow> fst (m bs) \<noteq> Inl (Py BuiltinRecursionError))"

lemma no_limit_bindE [py_intros]:
  assumes "no_limit k m" and "shrinks m" and "\<And>x. no_limit k (f x)"
  shows "no_limit k (bindE m f)"
  unfolding no_limit_def
proof (intro allI impI)
  fix bs :: bytes
  assume k: "length bs \<le> k"
  obtain r s where m: "m bs = (r, s)" by (cases "m bs")
  have "length s \<le> length bs" using assms(2) unfolding shrinks_def by (metis m snd_conv)
  with k assms(3) have "fst (f x s) \<noteq> Inl (Py BuiltinRecursionError)" for x
    by (simp add: no_limit_def)
  moreover have "fst (m bs) \<noteq> Inl (Py BuiltinRecursionError)"
    using assms(1) k by (simp add: no_limit_def)
  ultimately show "fst (bindE m f bs) \<noteq> Inl (Py BuiltinRecursionError)"
    by (cases r) (auto simp: m)
qed

lemma no_limit_basic [py_intros]:
  "no_limit k (ret x)"
  "e \<noteq> Py BuiltinRecursionError \<Longrightarrow> no_limit k (raise e)"
  "r \<noteq> Inl (Py BuiltinRecursionError) \<Longrightarrow> no_limit k (liftE r)"
  by (simp_all add: no_limit_def)

lemma starve_not_recursion [simp]: "starve e p \<noteq> BuiltinRecursionError"
  by (cases e) auto

lemma no_limit_line [py_intros]: "no_limit k (spec_line e)"
  by (auto simp: no_limit_def spec_line_def split: option.splits)

lemma no_limit_exact [py_intros]: "no_limit k (spec_exact n e)"
  by (simp add: no_limit_def spec_exact_def)

lemma no_limit_repeatM [py_intros]: "no_limit k m \<Longrightarrow> shrinks m \<Longrightarrow> no_limit k (repeatM n m)"
  by (induction n) (simp_all add: py_intros)

lemma conversions_not_recursion [simp]:
  "map_exc Py (utf8_decode l) \<noteq> Inl (Py BuiltinRecursionError)"
  "map_exc Py (map_sumE f (utf8_decode l)) \<noteq> Inl (Py BuiltinRecursionError)"
  "map_exc Py (py_int l) \<noteq> Inl (Py BuiltinRecursionError)"
  "map_exc Py (map_sumE g (py_int l)) \<noteq> Inl (Py BuiltinRecursionError)"
  by (auto simp: utf8_decode_def py_int_def Let_def split: option.splits prod.splits)

text \<open>The marker costs a byte, so what is nested has less stream left than its frame.\<close>

lemma no_limit_spec_frame: "no_limit k (spec_frame (Suc k) e)"
proof (induction k)
  case 0
  show ?case
    by (simp add: no_limit_def frame_body_def py_simps spec_exact_def)
next
  case (Suc k)
  have IH: "no_limit k (spec_frame (Suc k) e)" by (rule Suc)
  show ?case
    unfolding no_limit_def
  proof (intro allI impI)
    fix bs :: bytes
    assume k: "length bs \<le> Suc k"
    show "fst (spec_frame (Suc (Suc k)) e bs) \<noteq> Inl (Py BuiltinRecursionError)"
    proof (cases bs)
      case Nil
      then show ?thesis by (simp add: frame_body_def py_simps spec_exact_def)
    next
      case (Cons c cs)
      let ?body = "frame_body Py (ret [c]) (spec_line e) (\<lambda>n. spec_exact n e) (spec_frame (Suc k) e)"
      have "spec_frame (Suc (Suc k)) e bs = ?body cs"
        unfolding Cons spec_frame.simps(2) [of "Suc k"]
        by (simp only: frame_body_def bindE_Inr [of "spec_exact 1 e" "c # cs" "[c]" cs, OF spec_marker]
          bindE_Inr [of "ret [c]" cs "[c]" cs, OF ret_run])
      moreover have "no_limit k ?body"
        by (simp add: frame_body_def py_intros IH del: spec_frame.simps)
      ultimately show ?thesis using k Cons by (simp add: no_limit_def)
    qed
  qed
qed

section \<open>Cut streams\<close>

text \<open>The exceptions of one ending: inside a frame or inside a line.\<close>

definition cut_by :: "ending \<Rightarrow> exc \<Rightarrow> bool" where
  "cut_by en e \<longleftrightarrow> e = starve en ClosedInFrame \<or> e = starve en ClosedInLine"

lemma cut_by_starve [simp]: "cut_by en (starve en ClosedInFrame)" "cut_by en (starve en ClosedInLine)"
  by (simp_all add: cut_by_def)

lemma cut_by_simps:
  "cut_by Eof e \<longleftrightarrow> e = ProtocolError ClosedInFrame \<or> e = ProtocolError ClosedInLine"
  "cut_by TimedOut e \<longleftrightarrow> e = BuiltinTimeoutError"
  "cut_by Broken e \<longleftrightarrow> e = BuiltinOSError"
  by (simp_all add: cut_by_def)

text \<open>\<open>stable en m\<close>: bytes that arrive later never change what \<open>m\<close> has decided, unless it had run out
  of a stream that ends with \<open>en\<close>.\<close>

definition stable :: "ending \<Rightarrow> (bytes, spec_exc, 'a) py \<Rightarrow> bool" where
  "stable en m \<longleftrightarrow> (\<forall>bs more. (\<exists>e. fst (m bs) = Inl (Py e) \<and> cut_by en e) \<or>
     m (bs @ more) = (fst (m bs), snd (m bs) @ more))"

lemma stableD:
  "stable en m \<Longrightarrow> m bs = (r, rest) \<Longrightarrow> \<nexists>e. r = Inl (Py e) \<and> cut_by en e \<Longrightarrow> m (bs @ more) = (r, rest @ more)"
  unfolding stable_def by (metis fst_conv snd_conv)

lemma stable_bindE [py_intros]:
  assumes m: "stable en m" and k: "\<And>x. stable en (k x)"
  shows "stable en (bindE m k)"
  unfolding stable_def
proof (intro allI)
  fix bs more
  obtain r s where r: "m bs = (r, s)" by (cases "m bs")
  show "(\<exists>e. fst (bindE m k bs) = Inl (Py e) \<and> cut_by en e) \<or>
      bindE m k (bs @ more) = (fst (bindE m k bs), snd (bindE m k bs) @ more)"
  proof (cases "\<exists>e. r = Inl (Py e) \<and> cut_by en e")
    case True
    with r show ?thesis by auto
  next
    case False
    with stableD [OF m r] have m2: "m (bs @ more) = (r, s @ more)" by simp
    show ?thesis
    proof (cases r)
      case (Inl e)
      with r m2 show ?thesis by simp
    next
      case (Inr x)
      have "(\<exists>e. fst (k x s) = Inl (Py e) \<and> cut_by en e) \<or>
          k x (s @ more) = (fst (k x s), snd (k x s) @ more)"
        using k [of x] unfolding stable_def by blast
      with r m2 Inr show ?thesis by simp
    qed
  qed
qed

lemma stable_basic [py_intros]: "stable en (ret x)" "stable en (raise e)" "stable en (liftE r)"
  by (auto simp: stable_def)

lemma stable_if [py_intros]: "(b \<Longrightarrow> stable en m) \<Longrightarrow> (\<not> b \<Longrightarrow> stable en n) \<Longrightarrow> stable en (if b then m else n)"
  by simp

lemma stable_line [py_intros]: "stable en (spec_line en)"
  unfolding stable_def
proof (intro allI)
  fix bs more
  show "(\<exists>x. fst (spec_line en bs) = Inl (Py x) \<and> cut_by en x) \<or>
      spec_line en (bs @ more) = (fst (spec_line en bs), snd (spec_line en bs) @ more)"
  proof (cases "find_crlf bs")
    case (Some i)
    with find_crlf_Some [OF Some] show ?thesis by (simp add: spec_line_def find_crlf_append)
  qed (simp add: spec_line_def)
qed

lemma stable_exact [py_intros]: "stable en (spec_exact n en)"
  by (auto simp: stable_def spec_exact_def)

lemma stable_repeatM [py_intros]: "stable en m \<Longrightarrow> stable en (repeatM n m)"
proof (induction n)
  case 0
  show ?case unfolding repeatM.simps by (rule stable_basic)
next
  case (Suc n)
  then show ?case unfolding repeatM.simps by (intro py_intros)
qed

lemma stable_spec_frame: "stable en (spec_frame d en)"
proof (induction d)
  case 0
  show ?case unfolding spec_frame.simps by (rule stable_basic)
next
  case (Suc d)
  then show ?case unfolding spec_frame.simps frame_body_def by (intro py_intros)
qed

text \<open>A proper prefix of a reply is never taken for a reply, nor for an error of the server.\<close>

lemma spec_frame_prefix:
  assumes "reply_ok v" and "resp_depth v \<le> d" and "resp_wire v = p @ q" and "q \<noteq> []"
  shows "\<exists>x bs. spec_frame d en p = (Inl (Py x), bs) \<and> cut_by en x"
proof (rule ccontr)
  assume no: "\<not> ?thesis"
  obtain r rest where p: "spec_frame d en p = (r, rest)" by (cases "spec_frame d en p")
  have "spec_frame d en (p @ q) = (r, rest @ q)"
    using stableD [OF stable_spec_frame p] no p by auto
  moreover have "spec_frame d en (p @ q) = (Inr v, [])"
    using spec_frame_wire [OF assms(1,2), of en "[]"] assms(3) by simp
  ultimately show False using assms(4) by simp
qed

section \<open>Simulation\<close>

text \<open>\<open>simulates good unread obs m sp\<close>: from a good reader state, \<open>m\<close> has the outcome \<open>sp\<close> prescribes
  for the unread bytes, and leaves a good state whose unread bytes are those \<open>sp\<close> leaves and
  whose observations \<open>obs\<close> (the ending of the stream first) are unchanged. After an exception
  that reports the end of the stream nothing is promised of the state.\<close>

definition simulates ::
    "('r \<Rightarrow> bool) \<Rightarrow> ('r \<Rightarrow> bytes) \<Rightarrow> ('r \<Rightarrow> ending \<times> 'o) \<Rightarrow>
     ('r, exc, 'a) py \<Rightarrow> (ending \<Rightarrow> (bytes, spec_exc, 'a) py) \<Rightarrow> bool" where
  "simulates good unread obs m sp \<longleftrightarrow> (\<forall>r. good r \<longrightarrow>
     (case sp (fst (obs r)) (unread r) of
        (Inr x, bs) \<Rightarrow> \<exists>r'. m r = (Inr x, r') \<and> good r' \<and> unread r' = bs \<and> obs r' = obs r
      | (Inl (Py e), bs) \<Rightarrow>
          \<exists>r'. m r = (Inl e, r') \<and> (starved e \<or> good r' \<and> unread r' = bs \<and> obs r' = obs r)
      | (Inl Rewind, bs) \<Rightarrow> True))"

lemma simulates_Inr:
  "simulates good unread obs m sp \<Longrightarrow> good r \<Longrightarrow> sp (fst (obs r)) (unread r) = (Inr x, bs) \<Longrightarrow>
   \<exists>r'. m r = (Inr x, r') \<and> good r' \<and> unread r' = bs \<and> obs r' = obs r"
  by (auto simp: simulates_def dest!: spec [of _ r])

lemma simulates_Inl:
  "simulates good unread obs m sp \<Longrightarrow> good r \<Longrightarrow> sp (fst (obs r)) (unread r) = (Inl (Py e), bs) \<Longrightarrow>
   \<exists>r'. m r = (Inl e, r') \<and> (starved e \<or> good r' \<and> unread r' = bs \<and> obs r' = obs r)"
  by (auto simp: simulates_def dest!: spec [of _ r])

lemma simulatesI:
  assumes "\<And>r x bs. good r \<Longrightarrow> sp (fst (obs r)) (unread r) = (Inr x, bs) \<Longrightarrow>
      \<exists>r'. m r = (Inr x, r') \<and> good r' \<and> unread r' = bs \<and> obs r' = obs r"
    and "\<And>r e bs. good r \<Longrightarrow> sp (fst (obs r)) (unread r) = (Inl (Py e), bs) \<Longrightarrow>
      \<exists>r'. m r = (Inl e, r') \<and> (starved e \<or> good r' \<and> unread r' = bs \<and> obs r' = obs r)"
  shows "simulates good unread obs m sp"
  using assms by (auto simp: simulates_def split: prod.splits sum.splits spec_exc.splits)

lemma simulates_bindE:
  assumes m: "simulates good unread obs m sm" and k: "\<And>x. simulates good unread obs (k x) (sk x)"
  shows "simulates good unread obs (bindE m k) (\<lambda>e. bindE (sm e) (\<lambda>x. sk x e))"
proof (rule simulatesI)
  fix r x bs
  assume r: "good r" and sp: "bindE (sm (fst (obs r))) (\<lambda>x. sk x (fst (obs r))) (unread r) = (Inr x, bs)"
  from sp obtain y cs where y: "sm (fst (obs r)) (unread r) = (Inr y, cs)"
      and z: "sk y (fst (obs r)) cs = (Inr x, bs)"
    by (auto simp: bindE_run split: prod.splits sum.splits)
  from simulates_Inr [OF m r y] obtain r1 where r1: "m r = (Inr y, r1)" "good r1" "unread r1 = cs"
      "obs r1 = obs r" by blast
  with z have "sk y (fst (obs r1)) (unread r1) = (Inr x, bs)" by simp
  from simulates_Inr [OF k r1(2) this] r1
  show "\<exists>r'. bindE m k r = (Inr x, r') \<and> good r' \<and> unread r' = bs \<and> obs r' = obs r" by auto
next
  fix r e bs
  assume r: "good r"
    and sp: "bindE (sm (fst (obs r))) (\<lambda>x. sk x (fst (obs r))) (unread r) = (Inl (Py e), bs)"
  then consider (first) "sm (fst (obs r)) (unread r) = (Inl (Py e), bs)"
    | (second) y cs where "sm (fst (obs r)) (unread r) = (Inr y, cs)"
        "sk y (fst (obs r)) cs = (Inl (Py e), bs)"
    by (auto simp: bindE_run split: prod.splits sum.splits)
  then show "\<exists>r'. bindE m k r = (Inl e, r') \<and>
      (starved e \<or> good r' \<and> unread r' = bs \<and> obs r' = obs r)"
  proof cases
    case first
    from simulates_Inl [OF m r first] show ?thesis by auto
  next
    case second
    from simulates_Inr [OF m r second(1)] obtain r1 where r1: "m r = (Inr y, r1)" "good r1"
        "unread r1 = cs" "obs r1 = obs r" by blast
    with second(2) have "sk y (fst (obs r1)) (unread r1) = (Inl (Py e), bs)" by simp
    from simulates_Inl [OF k r1(2) this] r1 show ?thesis by auto
  qed
qed

lemma simulates_basic:
  "simulates good unread obs (ret x) (\<lambda>_. ret x)"
  "simulates good unread obs (raise e) (\<lambda>_. raise (Py e))"
  "simulates good unread obs (liftE r) (\<lambda>_. liftE (map_exc Py r))"
  by (cases r; simp add: simulates_def)+

lemma simulates_if:
  "(b \<Longrightarrow> simulates good unread obs m sm) \<Longrightarrow> (\<not> b \<Longrightarrow> simulates good unread obs m' sm') \<Longrightarrow>
   simulates good unread obs (if b then m else m') (\<lambda>e. if b then sm e else sm' e)"
  by simp

lemma simulates_repeatM:
  "simulates good unread obs m sm \<Longrightarrow> simulates good unread obs (repeatM n m) (\<lambda>e. repeatM n (sm e))"
  by (induction n) (simp_all add: simulates_basic simulates_bindE)

lemmas simulates_intros = simulates_bindE simulates_basic simulates_if simulates_repeatM

lemma simulates_frame_body:
  assumes "simulates good unread obs mark smark" and "simulates good unread obs line sline"
    and "\<And>n. simulates good unread obs (exact n) (sexact n)" and "simulates good unread obs nested snested"
  shows "simulates good unread obs (frame_body id mark line exact nested)
    (\<lambda>e. frame_body Py (smark e) (sline e) (\<lambda>n. sexact n e) (snested e))"
  unfolding frame_body_def map_exc_id id_apply by (intro simulates_intros assms)

end
