(* ===== verification/Reader_Laws.thy ===== *)
theory Reader_Laws
  imports Resp_Spec
begin

text \<open>
  The buffer both stream decoders keep, and the interfaces between the layers of a decoder, as
  locales: \<open>byte_source\<close> is what a decoder relies on of the object it reads from (a socket, an
  asyncio stream), \<open>buffered_reader\<close> adds the buffer operations built on it, and
  \<open>frame_reader\<close> is what the callers of a decoder rely on. Each is interpreted on the
  operations of \<open>resp.py\<close> in \<open>Resp_Reader\<close> and \<open>Resp_Async\<close>.
\<close>

section \<open>The buffer\<close>

text \<open>The slots \<open>_sock\<close> (or \<open>_reader\<close>), \<open>_buf\<close>, \<open>_pos\<close> and \<open>_chunk_size\<close>.\<close>

record 's reader =
  r_src :: 's
  r_buf :: bytes
  r_pos :: int
  r_chunk :: nat

definition good :: "'s reader \<Rightarrow> bool" where
  "good r \<longleftrightarrow> 0 \<le> r_pos r \<and> r_pos r \<le> int (length (r_buf r)) \<and> 0 < r_chunk r"

text \<open>\<open>buf.find(b"\r\n", start)\<close>: an absolute index, or \<open>-1\<close>.\<close>

definition find_from :: "bytes \<Rightarrow> int \<Rightarrow> int" where
  "find_from buf start = (let lo = py_bound (length buf) start in
     case find_crlf (drop lo buf) of None \<Rightarrow> -1 | Some i \<Rightarrow> int lo + int i)"

lemma find_from_None:
  "find_crlf (drop (nat p) buf) = None \<Longrightarrow> 0 \<le> p \<Longrightarrow> p \<le> int (length buf) \<Longrightarrow>
   find_from buf p = -1"
  by (simp add: find_from_def py_bound_nonneg)

lemma find_from_Some:
  "find_crlf (drop (nat p) buf) = Some i \<Longrightarrow> 0 \<le> p \<Longrightarrow> p \<le> int (length buf) \<Longrightarrow>
   find_from buf p = p + int i"
  by (simp add: find_from_def py_bound_nonneg)

text \<open>What a reader has still to consume: the rest of its buffer and what has arrived at the source;
  and what reading does not change.\<close>

definition unread :: "('s \<Rightarrow> bytes) \<Rightarrow> 's reader \<Rightarrow> bytes" where
  "unread arrived r = drop (nat (r_pos r)) (r_buf r) @ arrived (r_src r)"

definition robs :: "('s \<Rightarrow> ending \<times> 'o) \<Rightarrow> 's reader \<Rightarrow> ending \<times> 'o \<times> nat" where
  "robs sobs r = (fst (sobs (r_src r)), snd (sobs (r_src r)), r_chunk r)"

section \<open>Sources of bytes\<close>

text \<open>\<open>arrived s\<close> is what the peer has sent and the program has not received, \<open>sobs s\<close> how the
  stream ends after it, with whatever else of the source a receive leaves unchanged.\<close>

locale byte_source =
  fixes recv :: "nat \<Rightarrow> ('s, exc, bytes) py"
    and arrived :: "'s \<Rightarrow> bytes"
    and sobs :: "'s \<Rightarrow> ending \<times> 'o"
  assumes recv_data: "0 < n \<Longrightarrow> arrived s \<noteq> [] \<Longrightarrow>
      \<exists>c s'. recv n s = (Inr c, s') \<and> c \<noteq> [] \<and> arrived s = c @ arrived s' \<and> sobs s' = sobs s"
    and recv_dry: "0 < n \<Longrightarrow> arrived s = [] \<Longrightarrow>
      fst (recv n s) = (case fst (sobs s) of
        Eof \<Rightarrow> Inr [] | TimedOut \<Rightarrow> Inl BuiltinTimeoutError | Broken \<Rightarrow> Inl BuiltinOSError)"
begin

lemma unread_fill:
  "good r \<Longrightarrow> arrived (r_src r) = c @ arrived s \<Longrightarrow> sobs s = sobs (r_src r) \<Longrightarrow>
   good (r\<lparr>r_src := s, r_buf := r_buf r @ c\<rparr>) \<and>
   unread arrived (r\<lparr>r_src := s, r_buf := r_buf r @ c\<rparr>) = unread arrived r \<and>
   robs sobs (r\<lparr>r_src := s, r_buf := r_buf r @ c\<rparr>) = robs sobs r"
  by (auto simp: good_def unread_def robs_def)

end

section \<open>Buffered reading\<close>

locale buffered_reader = byte_source recv arrived sobs
  for recv :: "nat \<Rightarrow> ('s, exc, bytes) py" and arrived and sobs :: "'s \<Rightarrow> ending \<times> 'o" +
  fixes ensure :: "int \<Rightarrow> ('s reader, exc, unit) py"
    and line :: "('s reader, exc, bytes) py"
    and exact :: "int \<Rightarrow> ('s reader, exc, bytes) py"
    and mark :: "('s reader, exc, bytes) py"
    and compact :: "'s reader \<Rightarrow> 's reader"
  assumes ensure_eq: "ensure needed r =
      (if int (length (r_buf r)) - r_pos r < needed then
         (case recv (r_chunk r) (r_src r) of
            (Inl e, s) \<Rightarrow> (Inl e, r\<lparr>r_src := s\<rparr>)
          | (Inr c, s) \<Rightarrow>
              if c = [] then (Inl (ProtocolError ClosedInFrame), r\<lparr>r_src := s\<rparr>)
              else ensure needed (r\<lparr>r_src := s, r_buf := r_buf r @ c\<rparr>))
       else (Inr (), r))"
    and line_eq: "line r =
      (let idx = find_from (r_buf r) (r_pos r) in
       if idx \<noteq> -1 then
         (Inr (slice (r_pos r) idx (r_buf r)), compact (r\<lparr>r_pos := idx + 2\<rparr>))
       else
         (case recv (r_chunk r) (r_src r) of
            (Inl e, s) \<Rightarrow> (Inl e, r\<lparr>r_src := s\<rparr>)
          | (Inr c, s) \<Rightarrow>
              if c = [] then (Inl (ProtocolError ClosedInLine), r\<lparr>r_src := s\<rparr>)
              else line (r\<lparr>r_src := s, r_buf := r_buf r @ c\<rparr>)))"
    and exact_eq: "exact n = bindE (ensure n) (\<lambda>_ r.
      (Inr (slice (r_pos r) (r_pos r + n) (r_buf r)), compact (r\<lparr>r_pos := r_pos r + n\<rparr>)))"
    and mark_eq: "mark = bindE (ensure 1) (\<lambda>_ r.
      (Inr (slice (r_pos r) (r_pos r + 1) (r_buf r)), r\<lparr>r_pos := r_pos r + 1\<rparr>))"
    and compact_good: "good r \<Longrightarrow> good (compact r)"
    and compact_view: "good r \<Longrightarrow>
      drop (nat (r_pos (compact r))) (r_buf (compact r)) = drop (nat (r_pos r)) (r_buf r)"
    and compact_src: "r_src (compact r) = r_src r" "r_chunk (compact r) = r_chunk r"
begin

lemma compact_unread:
  "good r \<Longrightarrow> good (compact r) \<and> unread arrived (compact r) = unread arrived r \<and> robs sobs (compact r) = robs sobs r"
  by (simp add: compact_good compact_view compact_src unread_def robs_def)

text \<open>Either the buffer gets to hold enough bytes, or the stream ends before.\<close>

lemma ensure_ok:
  assumes "good r" and "nat n \<le> length (unread arrived r)"
  shows "\<exists>r'. ensure n r = (Inr (), r') \<and> good r' \<and> unread arrived r' = unread arrived r \<and> robs sobs r' = robs sobs r \<and>
    n \<le> int (length (r_buf r')) - r_pos r'"
  using assms
proof (induction "length (arrived (r_src r))" arbitrary: r rule: less_induct)
  case less
  show ?case
  proof (cases "int (length (r_buf r)) - r_pos r < n")
    case False
    with less.prems show ?thesis by (subst ensure_eq) auto
  next
    case True
    with less.prems have "arrived (r_src r) \<noteq> []"
      by (auto simp: good_def unread_def)
    moreover have "0 < r_chunk r" using less.prems by (simp add: good_def)
    ultimately obtain c s where c: "recv (r_chunk r) (r_src r) = (Inr c, s)" "c \<noteq> []"
        "arrived (r_src r) = c @ arrived s" "sobs s = sobs (r_src r)"
      using recv_data by blast
    let ?r = "r\<lparr>r_src := s, r_buf := r_buf r @ c\<rparr>"
    from c unread_fill [OF less.prems(1) c(3,4)]
    have r: "good ?r" "unread arrived ?r = unread arrived r" "robs sobs ?r = robs sobs r" by auto
    have "length (arrived (r_src ?r)) < length (arrived (r_src r))" using c by simp
    from less.hyps [OF this r(1)] less.prems r c True show ?thesis
      by (subst ensure_eq) auto
  qed
qed

lemma ensure_starved:
  assumes "good r" and "length (unread arrived r) < nat n"
  shows "\<exists>r'. ensure n r = (Inl (starve (fst (robs sobs r)) ClosedInFrame), r')"
  using assms
proof (induction "length (arrived (r_src r))" arbitrary: r rule: less_induct)
  case less
  have short: "int (length (r_buf r)) - r_pos r < n"
    using less.prems by (auto simp: good_def unread_def)
  have pos: "0 < r_chunk r" using less.prems by (simp add: good_def)
  show ?case
  proof (cases "arrived (r_src r) = []")
    case True
    obtain x s where x: "recv (r_chunk r) (r_src r) = (x, s)" by (cases "recv (r_chunk r) (r_src r)")
    with recv_dry [OF pos True] short show ?thesis
      by (subst ensure_eq) (cases "fst (sobs (r_src r))", auto simp: robs_def)
  next
    case False
    with pos obtain c s where c: "recv (r_chunk r) (r_src r) = (Inr c, s)" "c \<noteq> []"
        "arrived (r_src r) = c @ arrived s" "sobs s = sobs (r_src r)"
      using recv_data by blast
    let ?r = "r\<lparr>r_src := s, r_buf := r_buf r @ c\<rparr>"
    from c unread_fill [OF less.prems(1) c(3,4)]
    have r: "good ?r" "unread arrived ?r = unread arrived r" "robs sobs ?r = robs sobs r" by auto
    have "length (arrived (r_src ?r)) < length (arrived (r_src r))" using c by simp
    from less.hyps [OF this r(1)] less.prems r c short show ?thesis
      by (subst ensure_eq) auto
  qed
qed

lemma advance:
  assumes "good r" and "0 \<le> n" and "n \<le> int (length (r_buf r)) - r_pos r"
  shows "slice (r_pos r) (r_pos r + n) (r_buf r) = take (nat n) (unread arrived r)"
    and "good (r\<lparr>r_pos := r_pos r + n\<rparr>)"
    and "unread arrived (r\<lparr>r_pos := r_pos r + n\<rparr>) = drop (nat n) (unread arrived r)"
    and "robs sobs (r\<lparr>r_pos := r_pos r + n\<rparr>) = robs sobs r"
proof -
  have n: "nat n \<le> length (r_buf r) - nat (r_pos r)" using assms unfolding good_def by arith
  show "slice (r_pos r) (r_pos r + n) (r_buf r) = take (nat n) (unread arrived r)"
    using assms n by (simp add: slice_inside good_def unread_def)
  show "good (r\<lparr>r_pos := r_pos r + n\<rparr>)" using assms by (simp add: good_def)
  show "unread arrived (r\<lparr>r_pos := r_pos r + n\<rparr>) = drop (nat n) (unread arrived r)"
    using assms n by (simp add: good_def unread_def nat_add_distrib add.commute)
  show "robs sobs (r\<lparr>r_pos := r_pos r + n\<rparr>) = robs sobs r" by (simp add: robs_def)
qed

lemma exact_simulates: "simulates good (unread arrived) (robs sobs) (exact n) (spec_exact n)"
proof (rule simulatesI)
  fix r x bs
  assume r: "good r" and sp: "spec_exact n (fst (robs sobs r)) (unread arrived r) = (Inr x, bs)"
  then have n: "0 \<le> n" "nat n \<le> length (unread arrived r)" and x: "x = take (nat n) (unread arrived r)"
      and bs: "bs = drop (nat n) (unread arrived r)"
    by (auto simp: spec_exact_def split: if_splits)
  from ensure_ok [OF r n(2)] obtain r1 where r1: "ensure n r = (Inr (), r1)" "good r1"
      "unread arrived r1 = unread arrived r" "robs sobs r1 = robs sobs r" "n \<le> int (length (r_buf r1)) - r_pos r1" by blast
  note adv = advance [OF r1(2) n(1) r1(5)]
  from compact_unread [OF adv(2)] adv r1 x bs
  show "\<exists>r'. exact n r = (Inr x, r') \<and> good r' \<and> unread arrived r' = bs \<and> robs sobs r' = robs sobs r"
    by (auto simp: exact_eq)
next
  fix r e bs
  assume r: "good r" and sp: "spec_exact n (fst (robs sobs r)) (unread arrived r) = (Inl (Py e), bs)"
  then have "length (unread arrived r) < nat n" "e = starve (fst (robs sobs r)) ClosedInFrame"
    by (auto simp: spec_exact_def split: if_splits)
  with ensure_starved [OF r] show "\<exists>r'. exact n r = (Inl e, r') \<and>
      (starved e \<or> good r' \<and> unread arrived r' = bs \<and> robs sobs r' = robs sobs r)"
    by (fastforce simp: exact_eq)
qed

lemma mark_simulates: "simulates good (unread arrived) (robs sobs) mark (spec_exact 1)"
proof (rule simulatesI)
  fix r x bs
  assume r: "good r" and sp: "spec_exact 1 (fst (robs sobs r)) (unread arrived r) = (Inr x, bs)"
  then have n: "nat 1 \<le> length (unread arrived r)" and x: "x = take (nat 1) (unread arrived r)"
      and bs: "bs = drop (nat 1) (unread arrived r)"
    by (auto simp: spec_exact_def Suc_le_eq split: if_splits)
  from ensure_ok [OF r n] obtain r1 where r1: "ensure 1 r = (Inr (), r1)" "good r1"
      "unread arrived r1 = unread arrived r" "robs sobs r1 = robs sobs r" "1 \<le> int (length (r_buf r1)) - r_pos r1" by blast
  from advance [OF r1(2) _ r1(5)] r1 x bs
  show "\<exists>r'. mark r = (Inr x, r') \<and> good r' \<and> unread arrived r' = bs \<and> robs sobs r' = robs sobs r"
    by (auto simp: mark_eq)
next
  fix r e bs
  assume r: "good r" and sp: "spec_exact 1 (fst (robs sobs r)) (unread arrived r) = (Inl (Py e), bs)"
  then have "length (unread arrived r) < nat 1" "e = starve (fst (robs sobs r)) ClosedInFrame"
    by (auto simp: spec_exact_def split: if_splits)
  with ensure_starved [OF r] show "\<exists>r'. mark r = (Inl e, r') \<and>
      (starved e \<or> good r' \<and> unread arrived r' = bs \<and> robs sobs r' = robs sobs r)"
    by (fastforce simp: mark_eq)
qed

text \<open>A line that is already in the buffer is found there, at the place the stream has it.\<close>

lemma line_buffered:
  assumes r: "good r" and i: "find_crlf (drop (nat (r_pos r)) (r_buf r)) = Some i"
  shows "\<exists>r'. line r = (Inr (take i (unread arrived r)), r') \<and> good r' \<and> unread arrived r' = drop (i + 2) (unread arrived r) \<and>
    robs sobs r' = robs sobs r" and "find_crlf (unread arrived r) = Some i"
proof -
  show "find_crlf (unread arrived r) = Some i" using i by (simp add: unread_def find_crlf_append)
  have at: "find_from (r_buf r) (r_pos r) = r_pos r + int i"
    using r by (intro find_from_Some i) (auto simp: good_def)
  have len: "i + 2 \<le> length (drop (nat (r_pos r)) (r_buf r))"
    using find_crlf_Some [OF i] by blast
  then have room: "int i + 2 \<le> int (length (r_buf r)) - r_pos r" using r by (auto simp: good_def)
  note adv = advance [OF r _ room]
  have i2: "nat (int i + 2) = i + 2" by simp
  have line: "slice (r_pos r) (r_pos r + int i) (r_buf r) = take i (unread arrived r)"
    using advance(1) [OF r, of "int i"] room by simp
  have ne: "r_pos r + int i \<noteq> -1" using r by (simp add: good_def)
  from compact_unread [OF adv(2)] adv(3,4) line
  show "\<exists>r'. line r = (Inr (take i (unread arrived r)), r') \<and> good r' \<and> unread arrived r' = drop (i + 2) (unread arrived r) \<and>
      robs sobs r' = robs sobs r"
    by (subst line_eq) (simp add: at Let_def ne i2 add.assoc)
qed

lemma line_ok:
  assumes "good r" and "find_crlf (unread arrived r) = Some i"
  shows "\<exists>r'. line r = (Inr (take i (unread arrived r)), r') \<and> good r' \<and> unread arrived r' = drop (i + 2) (unread arrived r) \<and>
    robs sobs r' = robs sobs r"
  using assms
proof (induction "length (arrived (r_src r))" arbitrary: r rule: less_induct)
  case less
  show ?case
  proof (cases "find_crlf (drop (nat (r_pos r)) (r_buf r))")
    case (Some j)
    with line_buffered [OF less.prems(1) Some] less.prems(2) show ?thesis by auto
  next
    case None
    with less.prems have "arrived (r_src r) \<noteq> []" by (auto simp: unread_def)
    moreover have "0 < r_chunk r" using less.prems by (simp add: good_def)
    ultimately obtain c s where c: "recv (r_chunk r) (r_src r) = (Inr c, s)" "c \<noteq> []"
        "arrived (r_src r) = c @ arrived s" "sobs s = sobs (r_src r)"
      using recv_data by blast
    let ?r = "r\<lparr>r_src := s, r_buf := r_buf r @ c\<rparr>"
    from c unread_fill [OF less.prems(1) c(3,4)]
    have r: "good ?r" "unread arrived ?r = unread arrived r" "robs sobs ?r = robs sobs r" by auto
    have "length (arrived (r_src ?r)) < length (arrived (r_src r))" using c by simp
    moreover have "find_from (r_buf r) (r_pos r) = -1"
      using less.prems(1) by (intro find_from_None None) (auto simp: good_def)
    ultimately show ?thesis
      using less.hyps [of ?r] less.prems r c by (subst line_eq) auto
  qed
qed

lemma line_starved:
  assumes "good r" and "find_crlf (unread arrived r) = None"
  shows "\<exists>r'. line r = (Inl (starve (fst (robs sobs r)) ClosedInLine), r')"
  using assms
proof (induction "length (arrived (r_src r))" arbitrary: r rule: less_induct)
  case less
  have "find_crlf (drop (nat (r_pos r)) (r_buf r)) = None"
    using line_buffered(2) [OF less.prems(1)] less.prems(2)
    by (cases "find_crlf (drop (nat (r_pos r)) (r_buf r))") auto
  then have none: "find_from (r_buf r) (r_pos r) = -1"
    using less.prems(1) by (intro find_from_None) (auto simp: good_def)
  have pos: "0 < r_chunk r" using less.prems by (simp add: good_def)
  show ?case
  proof (cases "arrived (r_src r) = []")
    case True
    obtain x s where x: "recv (r_chunk r) (r_src r) = (x, s)" by (cases "recv (r_chunk r) (r_src r)")
    with recv_dry [OF pos True] none show ?thesis
      by (subst line_eq) (cases "fst (sobs (r_src r))", auto simp: robs_def)
  next
    case False
    with pos obtain c s where c: "recv (r_chunk r) (r_src r) = (Inr c, s)" "c \<noteq> []"
        "arrived (r_src r) = c @ arrived s" "sobs s = sobs (r_src r)"
      using recv_data by blast
    let ?r = "r\<lparr>r_src := s, r_buf := r_buf r @ c\<rparr>"
    from c unread_fill [OF less.prems(1) c(3,4)]
    have r: "good ?r" "unread arrived ?r = unread arrived r" "robs sobs ?r = robs sobs r" by auto
    have "length (arrived (r_src ?r)) < length (arrived (r_src r))" using c by simp
    with less.hyps [of ?r] less.prems r c none show ?thesis
      by (subst line_eq) auto
  qed
qed

lemma line_simulates: "simulates good (unread arrived) (robs sobs) line spec_line"
proof (rule simulatesI)
  fix r x bs
  assume r: "good r" and sp: "spec_line (fst (robs sobs r)) (unread arrived r) = (Inr x, bs)"
  then obtain i where i: "find_crlf (unread arrived r) = Some i" "x = take i (unread arrived r)"
      "bs = drop (i + 2) (unread arrived r)"
    by (auto simp: spec_line_def split: option.splits)
  with line_ok [OF r i(1)]
  show "\<exists>r'. line r = (Inr x, r') \<and> good r' \<and> unread arrived r' = bs \<and> robs sobs r' = robs sobs r" by simp
next
  fix r e bs
  assume r: "good r" and sp: "spec_line (fst (robs sobs r)) (unread arrived r) = (Inl (Py e), bs)"
  then have "find_crlf (unread arrived r) = None" "e = starve (fst (robs sobs r)) ClosedInLine"
    by (auto simp: spec_line_def split: option.splits)
  with line_starved [OF r] show "\<exists>r'. line r = (Inl e, r') \<and>
      (starved e \<or> good r' \<and> unread arrived r' = bs \<and> robs sobs r' = robs sobs r)"
    by auto
qed

end

section \<open>Decoding frames\<close>

locale frame_reader =
  fixes good' :: "'r \<Rightarrow> bool"
    and unread' :: "'r \<Rightarrow> bytes"
    and robs' :: "'r \<Rightarrow> ending \<times> 'o"
    and mark' :: "('r, exc, bytes) py"
    and line' :: "('r, exc, bytes) py"
    and exact' :: "int \<Rightarrow> ('r, exc, bytes) py"
    and parse :: "nat \<Rightarrow> ('r, exc, resp) py"
  assumes mark_sim: "simulates good' unread' robs' mark' (spec_exact 1)"
    and line_sim: "simulates good' unread' robs' line' spec_line"
    and exact_sim: "simulates good' unread' robs' (exact' n) (spec_exact n)"
    and parse_limit: "parse 0 = raise BuiltinRecursionError"
    and parse_frame: "parse (Suc d) = frame_body id mark' line' exact' (parse d)"
begin

theorem parse_refines: "simulates good' unread' robs' (parse d) (spec_frame d)"
proof (induction d)
  case 0
  show ?case by (simp add: parse_limit simulates_def)
next
  case (Suc d)
  then show ?case
    unfolding parse_frame spec_frame.simps
    by (intro simulates_frame_body mark_sim line_sim exact_sim)
qed

text \<open>What the callers use: replies as a server writes them, one or several in a row.\<close>

lemma parse_wire:
  assumes "good' r" and "unread' r = resp_wire v @ rest" and "reply_ok v" and "resp_depth v \<le> d"
  shows "\<exists>r'. parse d r = (Inr v, r') \<and> good' r' \<and> unread' r' = rest \<and> robs' r' = robs' r"
  using simulates_Inr [OF parse_refines assms(1)] spec_frame_wire [OF assms(3,4)] assms(2) by simp

lemma parse_error:
  assumes "good' r" and "unread' r = ''-'' @ b @ crlf @ rest" and "utf8_encode t = Inr b"
    and "find_crlf b = None"
  shows "\<exists>r'. parse (Suc d) r = (Inl (ResponseError t), r') \<and> good' r' \<and> unread' r' = rest \<and>
    robs' r' = robs' r"
proof -
  have "spec_frame (Suc d) (fst (robs' r)) (unread' r) = (Inl (Py (ResponseError t)), rest)"
    unfolding assms(2) by (rule spec_frame_error [OF assms(3,4)])
  from simulates_Inl [OF parse_refines assms(1) this] show ?thesis
    by (auto simp: starved_def)
qed

text \<open>Neither nesting deeper than the stream is long, nor a frame that the end of the stream cuts.\<close>

lemma parse_never_deep:
  assumes "good' r" and "length (unread' r) \<le> d"
    and "fst (spec_frame (Suc d) (fst (robs' r)) (unread' r)) \<noteq> Inl Rewind"
  shows "fst (parse (Suc d) r) \<noteq> Inl BuiltinRecursionError"
proof -
  let ?sp = "spec_frame (Suc d) (fst (robs' r)) (unread' r)"
  have "fst ?sp \<noteq> Inl (Py BuiltinRecursionError)"
    using no_limit_spec_frame [of d] assms(2) by (simp add: no_limit_def)
  moreover obtain x bs where sp: "?sp = (x, bs)" by (cases ?sp)
  ultimately consider e where "x = Inl (Py e)" "e \<noteq> BuiltinRecursionError" | v where "x = Inr v"
    using assms(3) by (cases x) (auto intro: spec_exc.exhaust)
  then show ?thesis
  proof cases
    case 1
    with simulates_Inl [OF parse_refines assms(1), of "Suc d"] sp show ?thesis by auto
  next
    case 2
    with simulates_Inr [OF parse_refines assms(1), of "Suc d"] sp show ?thesis by auto
  qed
qed

lemma parse_prefix:
  assumes "good' r" and "reply_ok v" and "resp_depth v \<le> d"
    and "resp_wire v = unread' r @ q" and "q \<noteq> []"
  shows "\<exists>x. fst (parse d r) = Inl x \<and> cut_by (fst (robs' r)) x"
proof -
  obtain x bs where "spec_frame d (fst (robs' r)) (unread' r) = (Inl (Py x), bs)" "cut_by (fst (robs' r)) x"
    using spec_frame_prefix [OF assms(2-5)] by blast
  with simulates_Inl [OF parse_refines assms(1)] show ?thesis by fastforce
qed

lemma parse_wires:
  assumes "good' r" and "unread' r = concat (map resp_wire vs) @ rest"
    and "list_all (\<lambda>v. reply_ok v \<and> resp_depth v \<le> d) vs"
  shows "\<exists>r'. repeatM (length vs) (parse d) r = (Inr vs, r') \<and> good' r' \<and> unread' r' = rest \<and>
    robs' r' = robs' r"
  using assms
proof (induction vs arbitrary: r)
  case Nil
  then show ?case by simp
next
  case (Cons v vs)
  from Cons.prems have "unread' r = resp_wire v @ concat (map resp_wire vs) @ rest" by simp
  from parse_wire [OF Cons.prems(1) this, of d] Cons.prems(3) obtain r1 where
    r1: "parse d r = (Inr v, r1)" "good' r1" "unread' r1 = concat (map resp_wire vs) @ rest"
      "robs' r1 = robs' r" by auto
  with Cons.IH [OF r1(2,3)] Cons.prems(3) obtain r2 where
    "repeatM (length vs) (parse d) r1 = (Inr vs, r2)" "good' r2" "unread' r2 = rest" "robs' r2 = robs' r"
    by auto
  with r1 show ?case by (auto simp: py_simps)
qed

end

text \<open>A buffered reader whose \<open>parse\<close> follows the shape of a frame decoder is a frame reader.\<close>

locale buffered_frames = buffered_reader recv arrived sobs ensure line exact mark compact
  for recv :: "nat \<Rightarrow> ('s, exc, bytes) py" and arrived and sobs :: "'s \<Rightarrow> ending \<times> 'o"
    and ensure line exact mark compact +
  fixes parse :: "nat \<Rightarrow> ('s reader, exc, resp) py"
  assumes limit: "parse 0 = raise BuiltinRecursionError"
    and frame: "parse (Suc d) = frame_body id mark line exact (parse d)"
begin

end

sublocale buffered_frames \<subseteq> frames: frame_reader good "unread arrived" "robs sobs" mark line exact parse
  by unfold_locales
    (simp_all add: mark_simulates line_simulates exact_simulates limit frame)

end
