(* ===== verification/Resp_Reader.thy ===== *)
theory Resp_Reader
  imports Reader_Laws
begin

text \<open>
  \<open>RespReader\<close> of \<open>resp.py\<close> over a socket. The socket is the sequence of what its calls will meet:
  data packets of any sizes, timeouts and failures for \<open>recv\<close>, outcomes for \<open>sendall\<close>; any
  fragmentation of the replies by the network is some such sequence.
\<close>

section \<open>Sockets\<close>

datatype recv_event = Data bytes | RecvTimeout | RecvError

datatype send_event = SendOk | SendTimeout | SendError

text \<open>\<open>sent\<close> is what \<open>sendall\<close> has handed to the peer, in order. An exhausted \<open>rx\<close> is a peer that has
  closed its side; sends succeed when \<open>tx\<close> is exhausted.\<close>

record sock =
  rx :: "recv_event list"
  tx :: "send_event list"
  sent :: bytes

definition sock_recv :: "nat \<Rightarrow> (sock, exc, bytes) py" where
  "sock_recv n s = (case rx s of
      [] \<Rightarrow> (Inr [], s)
    | Data bs # es \<Rightarrow>
        (Inr (take n bs), s\<lparr>rx := if length bs \<le> n then es else Data (drop n bs) # es\<rparr>)
    | RecvTimeout # es \<Rightarrow> (Inl BuiltinTimeoutError, s\<lparr>rx := es\<rparr>)
    | RecvError # es \<Rightarrow> (Inl BuiltinOSError, s\<lparr>rx := es\<rparr>))"

definition sock_sendall :: "bytes \<Rightarrow> (sock, exc, unit) py" where
  "sock_sendall b s = (case tx s of
      [] \<Rightarrow> (Inr (), s\<lparr>sent := sent s @ b\<rparr>)
    | SendOk # ts \<Rightarrow> (Inr (), s\<lparr>tx := ts, sent := sent s @ b\<rparr>)
    | SendTimeout # ts \<Rightarrow> (Inl BuiltinTimeoutError, s\<lparr>tx := ts\<rparr>)
    | SendError # ts \<Rightarrow> (Inl BuiltinOSError, s\<lparr>tx := ts\<rparr>))"

text \<open>The bytes ahead of the first event that ends the stream, and that ending.\<close>

fun arrived_events :: "recv_event list \<Rightarrow> bytes" where
  "arrived_events (Data bs # es) = (if bs = [] then [] else bs @ arrived_events es)"
| "arrived_events _ = []"

fun ending_events :: "recv_event list \<Rightarrow> ending" where
  "ending_events [] = Eof"
| "ending_events (Data bs # es) = (if bs = [] then Eof else ending_events es)"
| "ending_events (RecvTimeout # es) = TimedOut"
| "ending_events (RecvError # es) = Broken"

definition sock_arrived :: "sock \<Rightarrow> bytes" where
  "sock_arrived s = arrived_events (rx s)"

definition sock_obs :: "sock \<Rightarrow> ending \<times> send_event list \<times> bytes" where
  "sock_obs s = (ending_events (rx s), tx s, sent s)"

fun rx_size :: "recv_event list \<Rightarrow> nat" where
  "rx_size [] = 0"
| "rx_size (Data bs # es) = Suc (length bs) + rx_size es"
| "rx_size (_ # es) = Suc (rx_size es)"

lemma sock_recv_size:
  "sock_recv n s = (Inr c, s') \<Longrightarrow> c \<noteq> [] \<Longrightarrow> rx_size (rx s') < rx_size (rx s)"
  by (auto simp: sock_recv_def split: list.splits recv_event.splits if_splits)

interpretation socket: byte_source sock_recv sock_arrived sock_obs
proof
  fix n :: nat and s :: sock
  assume n: "0 < n" and "sock_arrived s \<noteq> []"
  then obtain bs es where rx: "rx s = Data bs # es" "bs \<noteq> []"
    by (cases "rx s" rule: arrived_events.cases) (auto simp: sock_arrived_def split: if_splits)
  with n show "\<exists>c s'. sock_recv n s = (Inr c, s') \<and> c \<noteq> [] \<and> sock_arrived s = c @ sock_arrived s' \<and>
      sock_obs s' = sock_obs s"
    by (auto simp: sock_recv_def sock_arrived_def sock_obs_def)
next
  fix n :: nat and s :: sock
  assume "0 < n" and "sock_arrived s = []"
  then show "fst (sock_recv n s) = (case fst (sock_obs s) of
      Eof \<Rightarrow> Inr [] | TimedOut \<Rightarrow> Inl BuiltinTimeoutError | Broken \<Rightarrow> Inl BuiltinOSError)"
    by (cases "rx s" rule: ending_events.cases)
      (auto simp: sock_recv_def sock_arrived_def sock_obs_def split: if_splits)
qed

section \<open>The decoder\<close>

definition RespReader :: "sock \<Rightarrow> nat \<Rightarrow> sock reader" where
  "RespReader s chunk_size = \<lparr>r_src = s, r_buf = [], r_pos = 0, r_chunk = chunk_size\<rparr>"

definition read_chunk_size :: nat where
  "read_chunk_size = 64 * 1024"

definition compact :: "'s reader \<Rightarrow> 's reader" where
  "compact r = (if r_pos r > 4096 then r\<lparr>r_buf := drop (nat (r_pos r)) (r_buf r), r_pos := 0\<rparr> else r)"

function ensure_data :: "int \<Rightarrow> (sock reader, exc, unit) py" where
  "ensure_data needed r =
     (if int (length (r_buf r)) - r_pos r < needed then
        (case sock_recv (r_chunk r) (r_src r) of
           (Inl e, s) \<Rightarrow> (Inl e, r\<lparr>r_src := s\<rparr>)
         | (Inr chunk, s) \<Rightarrow>
             if chunk = [] then (Inl (ProtocolError ClosedInFrame), r\<lparr>r_src := s\<rparr>)
             else ensure_data needed (r\<lparr>r_src := s, r_buf := r_buf r @ chunk\<rparr>))
      else (Inr (), r))"
  by pat_completeness auto
termination
  by (relation "measure (\<lambda>(_, r). rx_size (rx (r_src r)))") (auto dest: sock_recv_size [OF sym])

function read_line :: "(sock reader, exc, bytes) py" where
  "read_line r =
     (let idx = find_from (r_buf r) (r_pos r) in
      if idx \<noteq> -1 then
        (Inr (slice (r_pos r) idx (r_buf r)), compact (r\<lparr>r_pos := idx + 2\<rparr>))
      else
        (case sock_recv (r_chunk r) (r_src r) of
           (Inl e, s) \<Rightarrow> (Inl e, r\<lparr>r_src := s\<rparr>)
         | (Inr chunk, s) \<Rightarrow>
             if chunk = [] then (Inl (ProtocolError ClosedInLine), r\<lparr>r_src := s\<rparr>)
             else read_line (r\<lparr>r_src := s, r_buf := r_buf r @ chunk\<rparr>)))"
  by pat_completeness auto
termination
  by (relation "measure (\<lambda>r. rx_size (rx (r_src r)))") (auto dest: sock_recv_size [OF sym])

declare ensure_data.simps [simp del] read_line.simps [simp del]

definition read_exact :: "int \<Rightarrow> (sock reader, exc, bytes) py" where
  "read_exact n = bindE (ensure_data n) (\<lambda>_ r.
     (Inr (slice (r_pos r) (r_pos r + n) (r_buf r)), compact (r\<lparr>r_pos := r_pos r + n\<rparr>)))"

text \<open>The head of \<open>_parse_frame\<close>: one byte, no compaction.\<close>

definition take_marker :: "(sock reader, exc, bytes) py" where
  "take_marker = bindE (ensure_data 1) (\<lambda>_ r.
     (Inr (slice (r_pos r) (r_pos r + 1) (r_buf r)), r\<lparr>r_pos := r_pos r + 1\<rparr>))"

text \<open>The depth is what Python's recursion limit leaves for nested arrays.\<close>

primrec parse_frame :: "nat \<Rightarrow> (sock reader, exc, resp) py" where
  "parse_frame 0 = raise BuiltinRecursionError"
| "parse_frame (Suc depth) = bindE take_marker (\<lambda>marker.
     if marker = ''+'' then bindE read_line (\<lambda>l. liftE (map_sumE RStr (utf8_decode l)))
     else if marker = ''-'' then
       bindE read_line (\<lambda>l. bindE (liftE (utf8_decode l)) (\<lambda>msg. raise (ResponseError msg)))
     else if marker = '':'' then bindE read_line (\<lambda>l. liftE (map_sumE RInt (py_int l)))
     else if marker = ''$'' then
       bindE read_line (\<lambda>l. bindE (liftE (py_int l)) (\<lambda>len.
         if len = -1 then ret RNone
         else bindE (read_exact len) (\<lambda>data. bindE (read_exact 2) (\<lambda>_. ret (RBytes data)))))
     else if marker = ''*'' then
       bindE read_line (\<lambda>l. bindE (liftE (py_int l)) (\<lambda>count.
         if count = -1 then ret RNone
         else bindE (repeatM (nat count) (parse_frame depth)) (\<lambda>xs. ret (RList xs))))
     else if marker = ''_'' then bindE read_line (\<lambda>_. ret RNone)
     else raise (ProtocolError (UnknownMarker marker)))"

section \<open>Its contracts\<close>

lemma compact_laws:
  "good r \<Longrightarrow> good (compact r)"
  "good r \<Longrightarrow> drop (nat (r_pos (compact r))) (r_buf (compact r)) = drop (nat (r_pos r)) (r_buf r)"
  "r_src (compact r) = r_src r" "r_chunk (compact r) = r_chunk r"
  by (auto simp: compact_def good_def)

lemma parse_frame_body:
  "parse_frame (Suc d) = frame_body id take_marker read_line read_exact (parse_frame d)"
  by (simp only: parse_frame.simps frame_body_def map_exc_id id_apply)

interpretation sync: buffered_frames sock_recv sock_arrived sock_obs
  ensure_data read_line read_exact take_marker compact parse_frame
proof
  fix needed r
  show "ensure_data needed r =
     (if int (length (r_buf r)) - r_pos r < needed then
        (case sock_recv (r_chunk r) (r_src r) of
           (Inl e, s) \<Rightarrow> (Inl e, r\<lparr>r_src := s\<rparr>)
         | (Inr c, s) \<Rightarrow>
             if c = [] then (Inl (ProtocolError ClosedInFrame), r\<lparr>r_src := s\<rparr>)
             else ensure_data needed (r\<lparr>r_src := s, r_buf := r_buf r @ c\<rparr>))
      else (Inr (), r))"
    by (rule ensure_data.simps)
  show "read_line r =
     (let idx = find_from (r_buf r) (r_pos r) in
      if idx \<noteq> -1 then (Inr (slice (r_pos r) idx (r_buf r)), compact (r\<lparr>r_pos := idx + 2\<rparr>))
      else
        (case sock_recv (r_chunk r) (r_src r) of
           (Inl e, s) \<Rightarrow> (Inl e, r\<lparr>r_src := s\<rparr>)
         | (Inr c, s) \<Rightarrow>
             if c = [] then (Inl (ProtocolError ClosedInLine), r\<lparr>r_src := s\<rparr>)
             else read_line (r\<lparr>r_src := s, r_buf := r_buf r @ c\<rparr>)))"
    by (rule read_line.simps)
qed (simp_all add: read_exact_def take_marker_def compact_laws parse_frame_body del: parse_frame.simps(2))

section \<open>A length that rewinds the cursor\<close>

text \<open>\<open>int(...)\<close> of a bulk length is only compared with \<open>-1\<close>. Any smaller value passes
  \<open>_ensure_data\<close> at once and moves the cursor backwards: after \<open>*2\<close> and \<open>$-12\<close> it is again at the
  start of the array.\<close>

definition rewinding :: bytes where
  "rewinding = ''*2'' @ crlf @ ''$-12'' @ crlf"

definition rewound :: "sock \<Rightarrow> nat \<Rightarrow> sock reader" where
  "rewound s n = \<lparr>r_src = s, r_buf = rewinding, r_pos = 0, r_chunk = n\<rparr>"

lemmas rewinding_eval = rewound_def rewinding_def crlf_def find_from_def py_bound_def slice_def Let_def

lemma rewinding_ints [simp]: "py_int ''2'' = Inr 2" "py_int ''-12'' = Inr (- 12)"
  by code_simp+

lemma rewound_array:
  "bindE take_marker (\<lambda>_. read_line) (rewound s n) = (Inr ''2'', rewound s n\<lparr>r_pos := 4\<rparr>)"
  by (simp add: take_marker_def ensure_data.simps read_line.simps compact_def rewinding_eval bindE_run)

lemma rewound_element:
  "parse_frame (Suc d) (rewound s n\<lparr>r_pos := 4\<rparr>) = (Inr (RBytes []), rewound s n)"
  by (simp add: take_marker_def ensure_data.simps read_line.simps read_exact_def compact_def rewinding_eval
      bindE_run)

lemma rewound_frame:
  "parse_frame (Suc d) (rewound s n) =
     bindE (repeatM 2 (parse_frame d)) (\<lambda>xs. ret (RList xs)) (rewound s n\<lparr>r_pos := 4\<rparr>)"
  by (simp add: take_marker_def ensure_data.simps read_line.simps compact_def rewinding_eval bindE_run)

lemma rewound_diverges: "fst (parse_frame d (rewound s n)) = Inl BuiltinRecursionError"
proof (induction d)
  case 0
  show ?case by simp
next
  case (Suc d)
  show ?case
  proof (cases d)
    case 0
    then show ?thesis by (simp add: rewound_frame numeral_2_eq_2 bindE_run del: parse_frame.simps(2))
  next
    case (Suc d')
    obtain r where r: "parse_frame (Suc d') (rewound s n) = (Inl BuiltinRecursionError, r)"
      using Suc.IH unfolding Suc by (cases "parse_frame (Suc d') (rewound s n)") simp
    show ?thesis
      by (simp add: Suc rewound_frame [of "Suc d'"] numeral_2_eq_2 bindE_run rewound_element r
          del: parse_frame.simps(2))
  qed
qed

end
