(* ===== verification/Resp_Async.thy ===== *)
theory Resp_Async
  imports Resp_Reader
begin

text \<open>
  \<open>AsyncRespReader\<close> of \<open>resp.py\<close> over an \<open>asyncio.StreamReader\<close>. The stream is the batches of
  bytes the event loop will have fed by each \<open>read\<close>, and the way it ends; unlike a socket, a stream
  that has ended stays in that state. The slots are those of the synchronous reader.
\<close>

section \<open>Streams\<close>

record stream =
  st_pending :: "bytes list"
  st_end :: ending
  st_written :: bytes
  st_drains :: "send_event list"
  st_closing :: bool

definition stream_read :: "nat \<Rightarrow> (stream, exc, bytes) py" where
  "stream_read n s = (case dropWhile (\<lambda>p. p = []) (st_pending s) of
      [] \<Rightarrow>
        (case st_end s of
           Eof \<Rightarrow> Inr [] | TimedOut \<Rightarrow> Inl BuiltinTimeoutError | Broken \<Rightarrow> Inl BuiltinOSError, s)
    | p # ps \<Rightarrow> (Inr (take n p), s\<lparr>st_pending := drop n p # ps\<rparr>))"

definition stream_arrived :: "stream \<Rightarrow> bytes" where
  "stream_arrived s = concat (st_pending s)"

definition stream_obs :: "stream \<Rightarrow> ending \<times> bytes \<times> send_event list \<times> bool" where
  "stream_obs s = (st_end s, st_written s, st_drains s, st_closing s)"

text \<open>\<open>writer.write\<close> only buffers; \<open>await writer.drain()\<close> meets the next outcome of the transport, or
  returns when \<open>st_drains\<close> is exhausted. \<open>writer.close()\<close> starts closing it.\<close>

definition stream_write :: "bytes \<Rightarrow> (stream, exc, unit) py" where
  "stream_write b = modifyE (\<lambda>s. s\<lparr>st_written := st_written s @ b\<rparr>)"

definition stream_drain :: "(stream, exc, unit) py" where
  "stream_drain s = (case st_drains s of
      [] \<Rightarrow> (Inr (), s)
    | SendOk # ds \<Rightarrow> (Inr (), s\<lparr>st_drains := ds\<rparr>)
    | SendTimeout # ds \<Rightarrow> (Inl BuiltinTimeoutError, s\<lparr>st_drains := ds\<rparr>)
    | SendError # ds \<Rightarrow> (Inl BuiltinOSError, s\<lparr>st_drains := ds\<rparr>))"

definition stream_close :: "(stream, exc, unit) py" where
  "stream_close = modifyE (\<lambda>s. s\<lparr>st_closing := True\<rparr>)"

lemma concat_dropWhile_empty: "concat (dropWhile (\<lambda>p. p = []) ps) = concat ps"
  by (induction ps) auto

lemma stream_read_size:
  assumes "stream_read n s = (Inr c, s')" and "c \<noteq> []"
  shows "length (concat (st_pending s')) < length (concat (st_pending s))"
proof (cases "dropWhile (\<lambda>p. p = []) (st_pending s)")
  case Nil
  with assms show ?thesis by (auto simp: stream_read_def split: ending.splits)
next
  case (Cons p ps)
  with assms have "c = take n p" "st_pending s' = drop n p # ps" by (auto simp: stream_read_def)
  moreover have "concat (st_pending s) = p @ concat ps"
    using concat_dropWhile_empty [of "st_pending s"] Cons by simp
  moreover have "0 < n" "p \<noteq> []" using assms(2) calculation by (cases n; auto)+
  ultimately show ?thesis by simp
qed

interpretation stream: byte_source stream_read stream_arrived stream_obs
proof
  fix n :: nat and s :: stream
  assume n: "0 < n" and ne: "stream_arrived s \<noteq> []"
  from ne have "dropWhile (\<lambda>p. p = []) (st_pending s) \<noteq> []"
    by (metis stream_arrived_def concat.simps(1) concat_dropWhile_empty)
  then obtain p ps where p: "dropWhile (\<lambda>p. p = []) (st_pending s) = p # ps"
    unfolding neq_Nil_conv by blast
  moreover have "p \<noteq> []"
    using hd_dropWhile [of "\<lambda>p. p = []" "st_pending s"] p by simp
  moreover have "concat (st_pending s) = p @ concat ps"
    using concat_dropWhile_empty [of "st_pending s"] p by simp
  ultimately show "\<exists>c s'. stream_read n s = (Inr c, s') \<and> c \<noteq> [] \<and>
      stream_arrived s = c @ stream_arrived s' \<and> stream_obs s' = stream_obs s"
    using n by (intro exI [of _ "take n p"] exI [of _ "s\<lparr>st_pending := drop n p # ps\<rparr>"])
      (simp add: stream_read_def stream_arrived_def stream_obs_def)
next
  fix n :: nat and s :: stream
  assume "0 < n" and "stream_arrived s = []"
  then have "dropWhile (\<lambda>p. p = []) (st_pending s) = []"
    unfolding dropWhile_eq_Nil_conv by (simp add: stream_arrived_def)
  then show "fst (stream_read n s) = (case fst (stream_obs s) of
      Eof \<Rightarrow> Inr [] | TimedOut \<Rightarrow> Inl BuiltinTimeoutError | Broken \<Rightarrow> Inl BuiltinOSError)"
    unfolding stream_read_def stream_obs_def
    by (simp del: dropWhile_eq_Nil_conv split: ending.split)
qed

section \<open>The decoder\<close>

definition AsyncRespReader :: "stream \<Rightarrow> nat \<Rightarrow> stream reader" where
  "AsyncRespReader s chunk_size = \<lparr>r_src = s, r_buf = [], r_pos = 0, r_chunk = chunk_size\<rparr>"

definition a_compact :: "'s reader \<Rightarrow> 's reader" where
  "a_compact r = (if r_pos r > 4096 then r\<lparr>r_buf := drop (nat (r_pos r)) (r_buf r), r_pos := 0\<rparr> else r)"

function a_ensure_data :: "int \<Rightarrow> (stream reader, exc, unit) py" where
  "a_ensure_data needed r =
     (if int (length (r_buf r)) - r_pos r < needed then
        (case stream_read (r_chunk r) (r_src r) of
           (Inl e, s) \<Rightarrow> (Inl e, r\<lparr>r_src := s\<rparr>)
         | (Inr chunk, s) \<Rightarrow>
             if chunk = [] then (Inl (ProtocolError ClosedInFrame), r\<lparr>r_src := s\<rparr>)
             else a_ensure_data needed (r\<lparr>r_src := s, r_buf := r_buf r @ chunk\<rparr>))
      else (Inr (), r))"
  by pat_completeness auto
termination
  by (relation "measure (\<lambda>(_, r). length (concat (st_pending (r_src r))))")
    (auto dest!: stream_read_size [OF sym] simp del: length_concat)

function a_read_line :: "(stream reader, exc, bytes) py" where
  "a_read_line r =
     (let idx = find_from (r_buf r) (r_pos r) in
      if idx \<noteq> -1 then
        (Inr (slice (r_pos r) idx (r_buf r)), a_compact (r\<lparr>r_pos := idx + 2\<rparr>))
      else
        (case stream_read (r_chunk r) (r_src r) of
           (Inl e, s) \<Rightarrow> (Inl e, r\<lparr>r_src := s\<rparr>)
         | (Inr chunk, s) \<Rightarrow>
             if chunk = [] then (Inl (ProtocolError ClosedInLine), r\<lparr>r_src := s\<rparr>)
             else a_read_line (r\<lparr>r_src := s, r_buf := r_buf r @ chunk\<rparr>)))"
  by pat_completeness auto
termination
  by (relation "measure (\<lambda>r. length (concat (st_pending (r_src r))))")
    (auto dest!: stream_read_size [OF sym] simp del: length_concat)

declare a_ensure_data.simps [simp del] a_read_line.simps [simp del]

definition a_read_exact :: "int \<Rightarrow> (stream reader, exc, bytes) py" where
  "a_read_exact n = bindE (a_ensure_data n) (\<lambda>_ r.
     (Inr (slice (r_pos r) (r_pos r + n) (r_buf r)), a_compact (r\<lparr>r_pos := r_pos r + n\<rparr>)))"

definition a_take_marker :: "(stream reader, exc, bytes) py" where
  "a_take_marker = bindE (a_ensure_data 1) (\<lambda>_ r.
     (Inr (slice (r_pos r) (r_pos r + 1) (r_buf r)), r\<lparr>r_pos := r_pos r + 1\<rparr>))"

primrec a_parse_frame :: "nat \<Rightarrow> (stream reader, exc, resp) py" where
  "a_parse_frame 0 = raise BuiltinRecursionError"
| "a_parse_frame (Suc depth) = bindE a_take_marker (\<lambda>marker.
     if marker = ''+'' then bindE a_read_line (\<lambda>l. liftE (map_sumE RStr (utf8_decode l)))
     else if marker = ''-'' then
       bindE a_read_line (\<lambda>l. bindE (liftE (utf8_decode l)) (\<lambda>msg. raise (ResponseError msg)))
     else if marker = '':'' then bindE a_read_line (\<lambda>l. liftE (map_sumE RInt (py_int l)))
     else if marker = ''$'' then
       bindE a_read_line (\<lambda>l. bindE (liftE (py_int l)) (\<lambda>len.
         if len = -1 then ret RNone
         else bindE (a_read_exact len) (\<lambda>data. bindE (a_read_exact 2) (\<lambda>_. ret (RBytes data)))))
     else if marker = ''*'' then
       bindE a_read_line (\<lambda>l. bindE (liftE (py_int l)) (\<lambda>count.
         if count = -1 then ret RNone
         else bindE (repeatM (nat count) (a_parse_frame depth)) (\<lambda>xs. ret (RList xs))))
     else if marker = ''_'' then bindE a_read_line (\<lambda>_. ret RNone)
     else raise (ProtocolError (UnknownMarker marker)))"

section \<open>Its contracts\<close>

lemma a_compact_laws:
  "good r \<Longrightarrow> good (a_compact r)"
  "good r \<Longrightarrow> drop (nat (r_pos (a_compact r))) (r_buf (a_compact r)) = drop (nat (r_pos r)) (r_buf r)"
  "r_src (a_compact r) = r_src r" "r_chunk (a_compact r) = r_chunk r"
  by (auto simp: a_compact_def good_def)

lemma a_parse_frame_body:
  "a_parse_frame (Suc d) = frame_body id a_take_marker a_read_line a_read_exact (a_parse_frame d)"
  by (simp only: a_parse_frame.simps frame_body_def map_exc_id id_apply)

interpretation async: buffered_frames stream_read stream_arrived stream_obs
  a_ensure_data a_read_line a_read_exact a_take_marker a_compact a_parse_frame
proof
  fix needed r
  show "a_ensure_data needed r =
     (if int (length (r_buf r)) - r_pos r < needed then
        (case stream_read (r_chunk r) (r_src r) of
           (Inl e, s) \<Rightarrow> (Inl e, r\<lparr>r_src := s\<rparr>)
         | (Inr c, s) \<Rightarrow>
             if c = [] then (Inl (ProtocolError ClosedInFrame), r\<lparr>r_src := s\<rparr>)
             else a_ensure_data needed (r\<lparr>r_src := s, r_buf := r_buf r @ c\<rparr>))
      else (Inr (), r))"
    by (rule a_ensure_data.simps)
  show "a_read_line r =
     (let idx = find_from (r_buf r) (r_pos r) in
      if idx \<noteq> -1 then (Inr (slice (r_pos r) idx (r_buf r)), a_compact (r\<lparr>r_pos := idx + 2\<rparr>))
      else
        (case stream_read (r_chunk r) (r_src r) of
           (Inl e, s) \<Rightarrow> (Inl e, r\<lparr>r_src := s\<rparr>)
         | (Inr c, s) \<Rightarrow>
             if c = [] then (Inl (ProtocolError ClosedInLine), r\<lparr>r_src := s\<rparr>)
             else a_read_line (r\<lparr>r_src := s, r_buf := r_buf r @ c\<rparr>)))"
    by (rule a_read_line.simps)
qed (simp_all add: a_read_exact_def a_take_marker_def a_compact_laws a_parse_frame_body
    del: a_parse_frame.simps(2))

section \<open>The two decoders agree\<close>

text \<open>On the same unread bytes with the same ending, the two readers return the same value or raise
  the same exception, and leave the same bytes unread (unless the stream ended).\<close>

definition same_stream :: "sock reader \<Rightarrow> stream reader \<Rightarrow> bool" where
  "same_stream r a \<longleftrightarrow> good r \<and> good a \<and> unread sock_arrived r = unread stream_arrived a \<and>
     fst (robs sock_obs r) = fst (robs stream_obs a)"

lemma readers_agree:
  assumes "same_stream r a"
    and "fst (spec_frame d (fst (robs sock_obs r)) (unread sock_arrived r)) \<noteq> Inl Rewind"
  shows "fst (parse_frame d r) = fst (a_parse_frame d a) \<and>
    (case fst (parse_frame d r) of
       Inl e \<Rightarrow> starved e \<or> same_stream (snd (parse_frame d r)) (snd (a_parse_frame d a))
     | Inr _ \<Rightarrow> same_stream (snd (parse_frame d r)) (snd (a_parse_frame d a)))"
proof -
  obtain x bs where sp: "spec_frame d (fst (robs sock_obs r)) (unread sock_arrived r) = (x, bs)"
    by (cases "spec_frame d (fst (robs sock_obs r)) (unread sock_arrived r)")
  then have sp': "spec_frame d (fst (robs stream_obs a)) (unread stream_arrived a) = (x, bs)"
    using assms(1) by (simp add: same_stream_def)
  have g: "good r" "good a" using assms(1) by (simp_all add: same_stream_def)
  from assms(2) sp consider e where "x = Inl (Py e)" | v where "x = Inr v"
    by (cases x) (auto intro: spec_exc.exhaust)
  then show ?thesis
  proof cases
    case 1
    with simulates_Inl [OF sync.frames.parse_refines g(1)] sp
      simulates_Inl [OF async.frames.parse_refines g(2)] sp' assms(1)
    show ?thesis by (fastforce simp: same_stream_def)
  next
    case 2
    with simulates_Inr [OF sync.frames.parse_refines g(1)] sp
      simulates_Inr [OF async.frames.parse_refines g(2)] sp' assms(1)
    show ?thesis by (fastforce simp: same_stream_def)
  qed
qed

end
