(* ===== verification/Resp_Theorems.thy ===== *)
theory Resp_Theorems
  imports Resp_Async
begin

text \<open>
  The theorems about \<open>resp.py\<close>: both decoders implement the stream parser whatever the network does
  to the packets, they invert the wire form of replies and the encoder of commands, a cut reply is
  an error, the two agree with each other, and the one input on which they do not do what they
  mean to.
\<close>

section \<open>Fresh readers\<close>

definition packets_sock :: "bytes list \<Rightarrow> sock" where
  "packets_sock ps = \<lparr>rx = map Data ps, tx = [], sent = []\<rparr>"

definition packets_stream :: "bytes list \<Rightarrow> stream" where
  "packets_stream ps =
     \<lparr>st_pending = ps, st_end = Eof, st_written = [], st_drains = [], st_closing = False\<rparr>"

lemma arrived_packets: "[] \<notin> set ps \<Longrightarrow> arrived_events (map Data ps) = concat ps"
  by (induction ps) auto

lemma fresh_sync:
  "0 < n \<Longrightarrow> good (RespReader s n)" "unread sock_arrived (RespReader s n) = sock_arrived s"
  by (simp_all add: RespReader_def good_def unread_def)

lemma fresh_async:
  "0 < n \<Longrightarrow> good (AsyncRespReader a n)" "unread stream_arrived (AsyncRespReader a n) = stream_arrived a"
  by (simp_all add: AsyncRespReader_def good_def unread_def)

lemma packets_unread:
  "[] \<notin> set ps \<Longrightarrow> unread sock_arrived (RespReader (packets_sock ps) n) = concat ps"
  "unread stream_arrived (AsyncRespReader (packets_stream ps) n) = concat ps"
  by (simp_all add: fresh_sync fresh_async sock_arrived_def stream_arrived_def packets_sock_def
      packets_stream_def arrived_packets)

section \<open>Refinement\<close>



section \<open>Round trips\<close>

text \<open>C1: Replies that a server writes one after the other are decoded to the values it wrote, in order,
  for every way the network cuts the bytes into packets and every chunk size.\<close>

theorem sync_round_trip:
  assumes "concat ps = concat (map resp_wire vs)" and "[] \<notin> set ps" and "0 < n"
    and "list_all (\<lambda>v. reply_ok v \<and> resp_depth v \<le> d) vs"
  shows "fst (repeatM (length vs) (parse_frame d) (RespReader (packets_sock ps) n)) = Inr vs"
proof -
  have "unread sock_arrived (RespReader (packets_sock ps) n) = concat (map resp_wire vs) @ []"
    using assms(1,2) by (simp add: packets_unread)
  from sync.frames.parse_wires [OF fresh_sync(1) [OF assms(3)] this assms(4)] show ?thesis by auto
qed

lemma sync_round_trip_witness:
  "fst (repeatM 2 (parse_frame 3) (RespReader (packets_sock
     [''*2'' @ [CHR 0x0D], [CHR 0x0A] @ '':7'' @ crlf @ ''$3'' @ crlf @ [CHR 0xFF], [CHR 0x0D, CHR 0x0A] @ crlf @ ''+O'', ''K'' @ crlf]) 2))
   = Inr [RList [RInt 7, RBytes [CHR 0xFF, CHR 0x0D, CHR 0x0A]], RStr (u ''OK'')]"
proof -
  let ?ps = "[''*2'' @ [CHR 0x0D], [CHR 0x0A] @ '':7'' @ crlf @ ''$3'' @ crlf @ [CHR 0xFF],
     [CHR 0x0D, CHR 0x0A] @ crlf @ ''+O'', ''K'' @ crlf]"
  let ?vs = "[RList [RInt 7, RBytes [CHR 0xFF, CHR 0x0D, CHR 0x0A]], RStr (u ''OK'')]"
  have "concat ?ps = concat (map resp_wire ?vs)" by code_simp
  moreover have "[] \<notin> set ?ps" by simp
  moreover have "list_all (\<lambda>v. reply_ok v \<and> resp_depth v \<le> 3) ?vs" by code_simp
  ultimately have "fst (repeatM (length ?vs) (parse_frame 3) (RespReader (packets_sock ?ps) 2)) = Inr ?vs"
    by (intro sync_round_trip) simp_all
  moreover have "length ?vs = 2" by simp
  ultimately show ?thesis by (simp only:)
qed

text \<open>C14: What \<open>encode_command\<close> puts on the wire, the library's own decoder reads back as the array of the
  arguments' bytes.\<close>

theorem encoder_decoder_round_trip:
  assumes "encode_command args = Inr w" and "0 < n"
  shows "\<exists>raws. encode_args args = Inr raws \<and> length raws = length args \<and>
    fst (parse_frame 2 (RespReader (packets_sock [w]) n)) = Inr (RList (map RBytes raws))"
proof -
  obtain raws where raws: "encode_args args = Inr raws" "w = resp_wire (RList (map RBytes raws))"
    using assms(1) by (auto simp: encode_command_wire)
  have "w \<noteq> []" using raws(2) by simp
  then have "unread sock_arrived (RespReader (packets_sock [w]) n) = resp_wire (RList (map RBytes raws)) @ []"
    using raws(2) by (simp add: packets_unread)
  moreover have "resp_depth (RList (map RBytes raws)) \<le> 2"
    by (simp add: numeral_2_eq_2 foldr_max_depth)
  ultimately have "fst (parse_frame 2 (RespReader (packets_sock [w]) n)) = Inr (RList (map RBytes raws))"
    using sync.frames.parse_wire [OF fresh_sync(1) [OF assms(2)], of _ _ _ 2]
    by (fastforce simp: list_all_iff)
  with raws length_encode_args [OF raws(1)] show ?thesis by blast
qed

lemma encoder_decoder_round_trip_witness:
  "fst (parse_frame 2 (RespReader (packets_sock
     [''*2'' @ crlf @ ''$3'' @ crlf @ ''GET'' @ crlf @ ''$1'' @ crlf @ [CHR 0x00] @ crlf]) 1))
   = Inr (RList [RBytes ''GET'', RBytes [CHR 0x00]])"
proof -
  have w: "encode_command [Str (u ''GET''), Bytes [CHR 0x00]] =
      Inr (''*2'' @ crlf @ ''$3'' @ crlf @ ''GET'' @ crlf @ ''$1'' @ crlf @ [CHR 0x00] @ crlf)"
    by code_simp
  moreover have "encode_args [Str (u ''GET''), Bytes [CHR 0x00]] = Inr [''GET'', [CHR 0x00]]"
    by code_simp
  ultimately show ?thesis
    using encoder_decoder_round_trip [OF w, of 1] by auto
qed

section \<open>Ends of the stream and errors\<close>

text \<open>C13: A reply whose transmission is cut short is never decoded to a value nor to a server error: the
  decoder raises the exception of that ending. A closed connection gives \<open>ProtocolError\<close> (closed inside a
  frame or inside a line), a timeout of \<open>recv\<close> its \<open>TimeoutError\<close> and a failure of \<open>recv\<close> its \<open>OSError\<close>.\<close>

theorem cut_reply_is_an_error:
  assumes "good r" and "reply_ok v" and "resp_depth v \<le> d"
    and "resp_wire v = unread sock_arrived r @ missing" and "missing \<noteq> []"
  shows "\<exists>e. fst (parse_frame d r) = Inl e \<and> (case ending_events (rx (r_src r)) of
      Eof \<Rightarrow> e = ProtocolError ClosedInFrame \<or> e = ProtocolError ClosedInLine
    | TimedOut \<Rightarrow> e = BuiltinTimeoutError
    | Broken \<Rightarrow> e = BuiltinOSError)"
  using sync.frames.parse_prefix [OF assms]
  by (cases "ending_events (rx (r_src r))") (auto simp: robs_def sock_obs_def cut_by_simps)

lemma cut_reply_is_an_error_witness:
  "fst (parse_frame 1 (RespReader \<lparr>rx = [Data ''$5'', Data (crlf @ ''hel''), RecvTimeout], tx = [], sent = []\<rparr> 4))
     = Inl BuiltinTimeoutError"
proof -
  let ?r = "RespReader \<lparr>rx = [Data ''$5'', Data (crlf @ ''hel''), RecvTimeout], tx = [], sent = []\<rparr> 4"
  have "resp_wire (RBytes ''hello'') = sock_arrived \<lparr>rx = [Data ''$5'', Data (crlf @ ''hel''), RecvTimeout],
      tx = [], sent = []\<rparr> @ ''lo'' @ crlf"
    by code_simp
  then have "resp_wire (RBytes ''hello'') = unread sock_arrived ?r @ ''lo'' @ crlf"
    by (simp only: fresh_sync zero_less_numeral)
  then have "\<exists>e. fst (parse_frame 1 ?r) = Inl e \<and> (case ending_events (rx (r_src ?r)) of
      Eof \<Rightarrow> e = ProtocolError ClosedInFrame \<or> e = ProtocolError ClosedInLine
    | TimedOut \<Rightarrow> e = BuiltinTimeoutError | Broken \<Rightarrow> e = BuiltinOSError)"
    by (intro cut_reply_is_an_error [where v = "RBytes ''hello''" and missing = "''lo'' @ crlf"])
      (simp_all add: fresh_sync(1))
  moreover have "ending_events (rx (r_src ?r)) = TimedOut" by (simp add: RespReader_def)
  ultimately show ?thesis by (simp del: parse_frame.simps)
qed

text \<open>An error reply raises \<open>ResponseError\<close> with the server's text, and is consumed whole: the next
  frame decoded is the one behind it.\<close>

theorem error_reply_consumed:
  assumes "good r" and "unread sock_arrived r = ''-'' @ b @ crlf @ rest"
    and "utf8_encode t = Inr b" and "find_crlf b = None"
  shows "\<exists>r'. parse_frame (Suc d) r = (Inl (ResponseError t), r') \<and> good r' \<and>
    unread sock_arrived r' = rest"
  using sync.frames.parse_error [OF assms, of d] by blast

lemma error_reply_consumed_witness:
  "\<exists>r'. parse_frame (Suc 0) (RespReader (packets_sock [''-ERR no'' @ crlf @ ''+OK'' @ crlf]) 5)
     = (Inl (ResponseError (u ''ERR no'')), r') \<and> good r' \<and> unread sock_arrived r' = ''+OK'' @ crlf"
proof -
  have "utf8_encode (u ''ERR no'') = Inr ''ERR no''" by code_simp
  then show ?thesis
    by (intro error_reply_consumed [where b = "''ERR no''"])
      (simp_all add: fresh_sync(1) packets_unread crlf_def)
qed

text \<open>C32: Recursion depth one more than the number of bytes left in the stream is enough: with it the
  decoder never reaches the recursion limit (lengths below \<open>-1\<close> excepted).\<close>

theorem depth_bounded_by_stream:
  assumes "good r" and "length (unread sock_arrived r) \<le> d"
    and "fst (spec_frame (Suc d) (fst (robs sock_obs r)) (unread sock_arrived r)) \<noteq> Inl Rewind"
  shows "fst (parse_frame (Suc d) r) \<noteq> Inl BuiltinRecursionError"
  by (rule sync.frames.parse_never_deep [OF assms])

lemma depth_bounded_by_stream_witness:
  "fst (parse_frame (Suc 6) (RespReader (packets_sock [''*1'', crlf, ''*1'']) 9)) \<noteq> Inl BuiltinRecursionError"
proof (rule depth_bounded_by_stream)
  let ?r = "RespReader (packets_sock [''*1'', crlf, ''*1'']) 9"
  have bs: "unread sock_arrived ?r = ''*1'' @ crlf @ ''*1''" by (simp add: packets_unread crlf_def)
  show "good ?r" by (simp add: fresh_sync)
  show "length (unread sock_arrived ?r) \<le> 6" by (simp add: bs)
  have "fst (spec_frame (Suc 6) Eof (''*1'' @ crlf @ ''*1'')) = Inl (Py (ProtocolError ClosedInLine))"
    by code_simp
  moreover have "fst (robs sock_obs ?r) = Eof"
    by (simp add: robs_def sock_obs_def RespReader_def packets_sock_def crlf_def)
  ultimately show "fst (spec_frame (Suc 6) (fst (robs sock_obs ?r)) (unread sock_arrived ?r)) \<noteq> Inl Rewind"
    by (simp only: bs) simp
qed

section \<open>The two decoders\<close>

text \<open>C11: On the same unread bytes with the same ending, the synchronous and the asynchronous decoder
  have the same outcome, and unless the stream ended they leave the same bytes unread (frames with
  a bulk length below \<open>-1\<close> excepted).\<close>

theorem decoders_agree:
  assumes "same_stream r a"
    and "fst (spec_frame d (fst (robs sock_obs r)) (unread sock_arrived r)) \<noteq> Inl Rewind"
  shows "fst (parse_frame d r) = fst (a_parse_frame d a) \<and>
    (case fst (parse_frame d r) of
       Inl e \<Rightarrow> starved e \<or> same_stream (snd (parse_frame d r)) (snd (a_parse_frame d a))
     | Inr _ \<Rightarrow> same_stream (snd (parse_frame d r)) (snd (a_parse_frame d a)))"
  by (rule readers_agree [OF assms])

lemma decoders_agree_witness:
  "fst (parse_frame 2 (RespReader (packets_sock ['':1'', ''2'' @ crlf]) 3)) =
   fst (a_parse_frame 2 (AsyncRespReader (packets_stream ['':12'' @ crlf]) 100))"
proof -
  let ?r = "RespReader (packets_sock ['':1'', ''2'' @ crlf]) 3"
  let ?a = "AsyncRespReader (packets_stream ['':12'' @ crlf]) 100"
  have bs: "unread sock_arrived ?r = '':12'' @ crlf" by (simp add: packets_unread crlf_def)
  have e: "fst (robs sock_obs ?r) = Eof"
    by (simp add: robs_def sock_obs_def RespReader_def packets_sock_def crlf_def)
  have "same_stream ?r ?a"
    using bs e by (simp add: same_stream_def fresh_sync(1) fresh_async(1) packets_unread)
      (simp add: robs_def stream_obs_def AsyncRespReader_def packets_stream_def)
  have "fst (spec_frame 2 Eof ('':12'' @ crlf)) = Inr (RInt 12)" by code_simp
  then have "fst (spec_frame 2 (fst (robs sock_obs ?r)) (unread sock_arrived ?r)) \<noteq> Inl Rewind"
    by (simp only: bs e) simp
  with \<open>same_stream ?r ?a\<close> show ?thesis
    using decoders_agree by blast
qed

section \<open>Bulk lengths below -1\<close>

text \<open>The decoder does not reject a bulk length below \<open>-1\<close> and moves its cursor backwards instead: on
  the array of two elements \<open>*2\<close>, \<open>$-12\<close> it re-reads its own beginning and recurses without end,
  whatever the recursion limit is.\<close>

theorem negative_length_recurses:
  "fst (parse_frame d (rewound s n)) = Inl BuiltinRecursionError"
  by (rule rewound_diverges)

end
