(* ===== verification/Resp_Types.thy ===== *)
theory Resp_Types
  imports Resp_Theorems
begin

text \<open>
  Type soundness of the decoders of \<open>resp.py\<close>: what they return, on any bytes and from any state of their buffer,
  is a value the protocol can write.
\<close>

section \<open>Lines\<close>

lemma find_crlf_take: "find_crlf bs = Some i \<Longrightarrow> find_crlf (take i bs) = None"
proof (induction bs arbitrary: i rule: find_crlf.induct)
  case (3 c d cs)
  show ?case
  proof (cases "c = CHR 0x0D \<and> d = CHR 0x0A")
    case False
    with 3(2) obtain j where j: "find_crlf (d # cs) = Some j" "i = Suc j" by (auto split: if_splits)
    from 3(1) [OF False j(1)] False j(2) show ?thesis by (cases j) auto
  qed (use 3 in simp)
qed simp_all

lemma found_line:
  assumes "find_from buf pos \<noteq> -1"
  shows "find_crlf (slice pos (find_from buf pos) buf) = None"
proof -
  let ?lo = "py_bound (length buf) pos"
  obtain i where i: "find_crlf (drop ?lo buf) = Some i" "find_from buf pos = int (?lo + i)"
    using assms by (auto simp: find_from_def Let_def split: option.splits)
  have "?lo + i \<le> length buf" using find_crlf_Some [OF i(1)] by (simp only: length_drop) linarith
  then have "py_bound (length buf) (int (?lo + i)) = ?lo + i" by (subst py_bound_nonneg) simp_all
  then have "slice pos (find_from buf pos) buf = take i (drop ?lo buf)"
    by (simp only: slice_def Let_def i(2) add_diff_cancel_left')
  then show ?thesis using find_crlf_take [OF i(1)] by simp
qed

lemma line_typed: "read_line r = (Inr l, r') \<Longrightarrow> find_crlf l = None"
proof (induction r rule: read_line.induct)
  case (1 r)
  show ?case
  proof (cases "find_from (r_buf r) (r_pos r) = -1")
    case False
    then show ?thesis using 1(2) by (subst (asm) read_line.simps) (auto simp: Let_def found_line)
  next
    case True
    obtain c s where c: "sock_recv (r_chunk r) (r_src r) = (Inr c, s)" "c \<noteq> []"
        "read_line (r\<lparr>r_src := s, r_buf := r_buf r @ c\<rparr>) = (Inr l, r')"
      using 1(2) True by (subst (asm) read_line.simps) (auto split: prod.splits sum.splits if_splits)
    then show ?thesis by (intro 1(1) [OF refl _ c(1) [symmetric] refl]) (simp_all add: True)
  qed
qed

lemma a_line_typed: "a_read_line r = (Inr l, r') \<Longrightarrow> find_crlf l = None"
proof (induction r rule: a_read_line.induct)
  case (1 r)
  show ?case
  proof (cases "find_from (r_buf r) (r_pos r) = -1")
    case False
    then show ?thesis using 1(2) by (subst (asm) a_read_line.simps) (auto simp: Let_def found_line)
  next
    case True
    obtain c s where c: "stream_read (r_chunk r) (r_src r) = (Inr c, s)" "c \<noteq> []"
        "a_read_line (r\<lparr>r_src := s, r_buf := r_buf r @ c\<rparr>) = (Inr l, r')"
      using 1(2) True by (subst (asm) a_read_line.simps) (auto split: prod.splits sum.splits if_splits)
    then show ?thesis by (intro 1(1) [OF refl _ c(1) [symmetric] refl]) (simp_all add: True)
  qed
qed

section \<open>Frames\<close>

text \<open>What holds of every result of a computation, and how results pass through the combinators.\<close>

definition yields :: "('a \<Rightarrow> bool) \<Rightarrow> ('r, 'e, 'a) py \<Rightarrow> bool" where
  "yields P m \<longleftrightarrow> (\<forall>r v r'. m r = (Inr v, r') \<longrightarrow> P v)"

lemma yields_bind: "yields Q m \<Longrightarrow> (\<And>x. Q x \<Longrightarrow> yields P (f x)) \<Longrightarrow> yields P (bindE m f)"
  by (fastforce simp: yields_def bindE_run split: prod.splits sum.splits)

lemma yields_ret: "P x \<Longrightarrow> yields P (ret x)"
  and yields_raise: "yields P (raise e)"
  and yields_lift: "(\<And>x. y = Inr x \<Longrightarrow> P x) \<Longrightarrow> yields P (liftE y)"
  and yields_any: "yields (\<lambda>_. True) m"
  by (cases y; simp add: yields_def py_simps)+

lemma yields_if: "(b \<Longrightarrow> yields P m) \<Longrightarrow> (\<not> b \<Longrightarrow> yields P n) \<Longrightarrow> yields P (if b then m else n)"
  by simp

lemma yields_repeat: "yields P m \<Longrightarrow> yields (list_all P) (repeatM n m)"
proof (induction n)
  case (Suc n)
  have "yields (list_all P) (bindE m (\<lambda>x. bindE (repeatM n m) (\<lambda>xs. ret (x # xs))))"
    by (rule yields_bind [OF Suc.prems yields_bind [OF Suc.IH [OF Suc.prems] yields_ret]]) simp
  then show ?case by simp
qed (simp add: yields_ret)

text \<open>A value of the protocol, nested at most \<open>d\<close> deep, wherever the decoder may have stopped.\<close>

abbreviation typed :: "nat \<Rightarrow> resp \<Rightarrow> bool" where
  "typed d v \<equiv> reply_ok v \<and> resp_depth v \<le> d"

lemma frame_typed:
  assumes "yields (\<lambda>l. find_crlf l = None) line" and "yields (typed d) nested"
  shows "yields (typed (Suc d)) (frame_body id mark line exact nested)"
  unfolding frame_body_def
  by (intro yields_bind [OF yields_any] yields_if yields_bind [OF assms(1)] yields_lift yields_raise yields_ret
      yields_bind [OF yields_repeat [OF assms(2)]])
    (auto simp: map_sumE_def utf8_decode_iff foldr_max_depth list_all_iff split: sum.splits)

lemma parse_typed: "yields (typed d) (parse_frame d)"
proof (induction d)
  case (Suc d)
  show ?case unfolding parse_frame_body by (rule frame_typed [OF _ Suc.IH]) (auto simp: yields_def dest: line_typed)
qed (simp add: yields_def)

lemma a_parse_typed: "yields (typed d) (a_parse_frame d)"
proof (induction d)
  case (Suc d)
  show ?case unfolding a_parse_frame_body by (rule frame_typed [OF _ Suc.IH]) (auto simp: yields_def dest: a_line_typed)
qed (simp add: yields_def)

section \<open>Theorems about types\<close>

text \<open>C12: Whatever bytes arrive, however they are cut, and whatever state the buffer is in (also after a length that
  moved the cursor back), a decoder returns only values the protocol can write: every text in them is valid UTF-8
  without a line end, at every depth, and arrays are nested no deeper than the recursion allows. So whatever it
  returns can be written to the wire and is decoded to the same value again.\<close>

theorem decoded_replies_typed:
  assumes "parse_frame d r = (Inr v, r') \<or> a_parse_frame d a = (Inr v, a')"
  shows "reply_ok v \<and> resp_depth v \<le> d \<and>
    (\<forall>e rest. spec_frame d e (resp_wire v @ rest) = (Inr v, rest))"
proof -
  have "reply_ok v \<and> resp_depth v \<le> d"
    using assms parse_typed [of d] a_parse_typed [of d] unfolding yields_def by blast
  then show ?thesis by (simp add: spec_frame_wire)
qed

lemma decoded_replies_typed_witness:
  "fst (parse_frame 2 (RespReader (packets_sock [''*1'' @ crlf @ ''+'', ''OK'' @ crlf]) 7)) = Inr (RList [RStr (u ''OK'')]) \<and>
     reply_ok (RList [RStr (u ''OK'')]) \<and> resp_depth (RList [RStr (u ''OK'')]) \<le> 2"
proof -
  let ?r = "RespReader (packets_sock [''*1'' @ crlf @ ''+'', ''OK'' @ crlf]) 7"
  have v: "fst (parse_frame 2 ?r) = Inr (RList [RStr (u ''OK'')])" by code_simp
  then have "parse_frame 2 ?r = (Inr (RList [RStr (u ''OK'')]), snd (parse_frame 2 ?r))" by (metis prod.collapse)
  from decoded_replies_typed [OF disjI1 [OF this]] v show ?thesis by blast
qed

end
