(* ===== verification/Tags.thy ===== *)
theory Tags
  imports Resp
begin

text \<open>
  \<open>tags.py\<close>: tag strings as bits of a 64-bit mask. SHA-256 and the Unicode lower-casing of
  \<open>str.lower\<close> are parameters, \<open>sha256\<close> and \<open>lower\<close>; what the mask promises does not depend on them,
  except that a digest has at least one byte where a tag is said to have a bit.
\<close>

unbundle bit_operations_syntax

section \<open>Masks\<close>

definition tag_to_bit :: "(bytes \<Rightarrow> bytes) \<Rightarrow> (ustr \<Rightarrow> ustr) \<Rightarrow> ustr \<Rightarrow> exc + nat" where
  "tag_to_bit sha256 lower tag =
     (let clean_tag = lower (strip tag) in
      map_sumE (\<lambda>raw. le_nat (take 8 (sha256 raw)) mod 64) (utf8_encode clean_tag))"

fun add_tags :: "(bytes \<Rightarrow> bytes) \<Rightarrow> (ustr \<Rightarrow> ustr) \<Rightarrow> ustr list \<Rightarrow> int \<Rightarrow> exc + int" where
  "add_tags sha256 lower [] m = Inr m"
| "add_tags sha256 lower (t # ts) m =
     (if t \<noteq> [] \<and> strip t \<noteq> [] then
        (case tag_to_bit sha256 lower t of
           Inl e \<Rightarrow> Inl e
         | Inr k \<Rightarrow> add_tags sha256 lower ts (m OR push_bit k 1))
      else add_tags sha256 lower ts m)"

definition tags_to_bitmask ::
    "(bytes \<Rightarrow> bytes) \<Rightarrow> (ustr \<Rightarrow> ustr) \<Rightarrow> ustr list option \<Rightarrow> int \<Rightarrow> exc + int" where
  "tags_to_bitmask sha256 lower tags base_mask =
     (let m0 = base_mask AND 0xFFFFFFFFFFFFFFFF in
      case tags of
        None \<Rightarrow> Inr (m0 AND 0xFFFFFFFFFFFFFFFF)
      | Some ts \<Rightarrow> map_sumE (\<lambda>m1. m1 AND 0xFFFFFFFFFFFFFFFF) (add_tags sha256 lower ts m0))"

section \<open>Lemmas\<close>

lemma mask64: "(0xFFFFFFFFFFFFFFFF :: int) = mask 64"
  by (simp add: mask_eq_exp_minus_1)

lemma bit_mask64: "bit (0xFFFFFFFFFFFFFFFF :: int) k \<longleftrightarrow> k < 64"
  by (simp only: mask64 bit_mask_iff) simp

lemma tag_to_bit_less: "tag_to_bit sha256 lower t = Inr k \<Longrightarrow> k < 64"
  by (auto simp: tag_to_bit_def Let_def)

text \<open>The tags that set a bit: those that are not blank.\<close>

definition tag_bits :: "(bytes \<Rightarrow> bytes) \<Rightarrow> (ustr \<Rightarrow> ustr) \<Rightarrow> ustr list \<Rightarrow> nat set" where
  "tag_bits sha256 lower ts = {k. \<exists>t \<in> set ts. strip t \<noteq> [] \<and> tag_to_bit sha256 lower t = Inr k}"

lemma bit_add_tags:
  "add_tags sha256 lower ts m = Inr m' \<Longrightarrow> bit m' k \<longleftrightarrow> bit m k \<or> k \<in> tag_bits sha256 lower ts"
proof (induction ts arbitrary: m)
  case Nil
  then show ?case by (simp add: tag_bits_def)
next
  case (Cons t ts)
  show ?case
  proof (cases "t \<noteq> [] \<and> strip t \<noteq> []")
    case False
    with Cons show ?thesis by (auto simp: tag_bits_def)
  next
    case True
    with Cons.prems obtain j where j: "tag_to_bit sha256 lower t = Inr j"
        "add_tags sha256 lower ts (m OR push_bit j 1) = Inr m'"
      by (auto split: sum.splits)
    have "bit (m OR push_bit j 1) k \<longleftrightarrow> bit m k \<or> k = j"
      by (auto simp: bit_or_iff bit_exp_iff)
    with Cons.IH [OF j(2)] True j(1) show ?thesis by (auto simp: tag_bits_def)
  qed
qed

lemma bit_tags_to_bitmask:
  assumes "tags_to_bitmask sha256 lower (Some ts) base = Inr m"
  shows "bit m k \<longleftrightarrow> k < 64 \<and> (bit base k \<or> k \<in> tag_bits sha256 lower ts)"
proof -
  obtain m1 where m1: "add_tags sha256 lower ts (base AND 0xFFFFFFFFFFFFFFFF) = Inr m1"
      "m = m1 AND 0xFFFFFFFFFFFFFFFF"
    using assms by (auto simp: tags_to_bitmask_def Let_def)
  from bit_add_tags [OF m1(1), of k] show ?thesis
    by (auto simp: m1(2) bit_and_iff bit_mask64)
qed

lemma tag_bits_less: "k \<in> tag_bits sha256 lower ts \<Longrightarrow> k < 64"
  by (auto simp: tag_bits_def dest: tag_to_bit_less)

section \<open>Theorems about masks\<close>

text \<open>The mask is an unsigned 64-bit number whose bits are exactly those of the low 64 bits of
  \<open>base_mask\<close> and of the tags that are not blank: order, repetition and blank tags do not matter.\<close>

theorem bitmask_bits:
  assumes "tags_to_bitmask sha256 lower (Some ts) base = Inr m"
  shows "0 \<le> m \<and> m < 2 ^ 64 \<and>
    (\<forall>k. bit m k = (k < 64 \<and> (bit base k \<or> k \<in> tag_bits sha256 lower ts)))"
proof -
  obtain m1 where "m = m1 AND 0xFFFFFFFFFFFFFFFF"
    using assms by (auto simp: tags_to_bitmask_def Let_def)
  then have "m = take_bit 64 m1" by (simp only: mask64 take_bit_eq_mask)
  then have "0 \<le> m" "m < 2 ^ 64" by (simp_all only: take_bit_nonnegative take_bit_int_less_exp)
  with bit_tags_to_bitmask [OF assms] show ?thesis by blast
qed

lemma sample_tags:
  "strip (u ''a'') = u ''a''" "strip (u ''  '') = []"
  "tag_to_bit (\<lambda>b. [CHR 0x43]) id (u ''a'') = Inr 3"
proof -
  show a: "strip (u ''a'') = u ''a''" by (simp add: strip_def u_def is_space_def)
  show "strip (u ''  '') = []" by (simp add: strip_def u_def is_space_def)
  have "utf8_encode (u ''a'') = Inr ''a''" by (simp add: utf8_encode_u ascii_def)
  with a show "tag_to_bit (\<lambda>b. [CHR 0x43]) id (u ''a'') = Inr 3" by (simp add: tag_to_bit_def)
qed

lemma sample_mask:
  "tags_to_bitmask (\<lambda>b. [CHR 0x43]) id (Some [u ''a'', u ''  '']) 1 = Inr 9"
  "tags_to_bitmask (\<lambda>b. [CHR 0x43]) id (Some [u ''a'', u ''  '']) 0 = Inr 8"
  "tags_to_bitmask (\<lambda>b. [CHR 0x43]) id (Some [u ''a'']) 0 = Inr 8"
proof -
  have [simp]: "u ''a'' \<noteq> []" by (simp add: u_def)
  show "tags_to_bitmask (\<lambda>b. [CHR 0x43]) id (Some [u ''a'', u ''  '']) 1 = Inr 9"
    "tags_to_bitmask (\<lambda>b. [CHR 0x43]) id (Some [u ''a'', u ''  '']) 0 = Inr 8"
    "tags_to_bitmask (\<lambda>b. [CHR 0x43]) id (Some [u ''a'']) 0 = Inr 8"
    by (simp_all add: tags_to_bitmask_def sample_tags)
qed

lemma bitmask_bits_witness:
  "(0::int) \<le> 9 \<and> (9::int) < 2 ^ 64 \<and>
   (\<forall>k. bit (9::int) k = (k < 64 \<and> (bit (1::int) k \<or> k \<in> tag_bits (\<lambda>b. [CHR 0x43]) id [u ''a'', u ''  ''])))"
  by (rule bitmask_bits [OF sample_mask(1)])

text \<open>C37: Pre-filtering never loses a match: if every filter tag is among the tags of a record, every bit
  of the filter mask is set in the record's mask, so that their conjunction is the filter mask.\<close>

theorem filter_is_sound:
  assumes "tags_to_bitmask sha256 lower (Some record_tags) 0 = Inr m"
    and "tags_to_bitmask sha256 lower (Some filter_tags) 0 = Inr f"
    and "set filter_tags \<subseteq> set record_tags"
  shows "m AND f = f"
proof (rule bit_eqI)
  fix k
  have "tag_bits sha256 lower filter_tags \<subseteq> tag_bits sha256 lower record_tags"
    using assms(3) by (auto simp: tag_bits_def)
  then show "bit (m AND f) k = bit f k"
    by (auto simp: bit_and_iff bit_tags_to_bitmask [OF assms(1)] bit_tags_to_bitmask [OF assms(2)])
qed

lemma filter_is_sound_witness: "(8::int) AND 8 = 8"
  by (rule filter_is_sound [OF sample_mask(2,3)]) simp

end
