(* ===== verification/Connection.thy ===== *)
theory Connection
  imports Resp_Async
begin

text \<open>
  \<open>connection.py\<close>: one TCP connection, with its TLS setup, its requests and its replies, and what
  its users (the pool, the client, the pipeline) rely on, as the locale \<open>channel\<close>. The transport of
  the asynchronous client satisfies the same contract.
\<close>

section \<open>What the operating system and the ssl module answer\<close>

datatype verify_mode = CERT_NONE | CERT_OPTIONAL | CERT_REQUIRED

record ssl_context =
  check_hostname :: bool
  verify_mode :: verify_mode

text \<open>One attempt to connect: whether the TCP connection comes up, whether the CA bundle and the
  client certificate load, and the socket the handshake gives for a context and a
  \<open>server_hostname\<close>. An answer that is missing is an \<open>OSError\<close> (\<open>ssl.SSLError\<close> is one).\<close>

record dial =
  d_tcp :: "sock option"
  d_ca_loads :: bool
  d_chain_loads :: bool
  d_handshake :: "ssl_context \<Rightarrow> ustr option \<Rightarrow> sock \<Rightarrow> sock option"

definition or_OSError :: "'a option \<Rightarrow> ('s, exc, 'a) py" where
  "or_OSError x = (case x of None \<Rightarrow> raise BuiltinOSError | Some y \<Rightarrow> ret y)"

definition create_default_context :: "bool \<Rightarrow> ('s, exc, ssl_context) py" where
  "create_default_context loads =
     (if loads then ret \<lparr>check_hostname = True, verify_mode = CERT_REQUIRED\<rparr> else raise BuiltinOSError)"

text \<open>Assigning \<open>CERT_NONE\<close> while \<open>check_hostname\<close> is on is a \<open>ValueError\<close> of the ssl module.\<close>

definition set_verify_none :: "ssl_context \<Rightarrow> ('s, exc, ssl_context) py" where
  "set_verify_none ctx =
     (if check_hostname ctx then raise BuiltinValueError else ret (ctx\<lparr>verify_mode := CERT_NONE\<rparr>))"

section \<open>The connection\<close>

text \<open>\<open>_sock\<close> and \<open>_reader\<close> are set and cleared together and the reader refers to the socket, so
  \<open>c_reader\<close> stands for both. An optional file name that is empty is as good as none.\<close>

record connection =
  c_host :: ustr
  c_port :: int
  c_decode_responses :: bool
  c_ssl :: bool
  c_ssl_keyfile :: "ustr option"
  c_ssl_certfile :: "ustr option"
  c_ssl_cert_reqs :: verify_mode
  c_ssl_check_hostname :: bool
  c_reader :: "sock reader option"

type_synonym 'a conn_op = "(connection, exc, 'a) py"

definition truthy :: "'a list option \<Rightarrow> bool" where
  "truthy x = (case x of None \<Rightarrow> False | Some s \<Rightarrow> s \<noteq> [])"

definition is_connected :: "connection \<Rightarrow> bool" where
  "is_connected c \<longleftrightarrow> c_reader c \<noteq> None"

definition tls_context :: "dial \<Rightarrow> connection \<Rightarrow> ssl_context conn_op" where
  "tls_context d c =
     bindE (create_default_context (d_ca_loads d)) (\<lambda>ctx0.
     let ctx1 = if \<not> c_ssl_check_hostname c then ctx0\<lparr>check_hostname := False\<rparr> else ctx0 in
     bindE (if c_ssl_cert_reqs c = CERT_NONE then set_verify_none ctx1 else ret ctx1) (\<lambda>ctx2.
     bindE (if truthy (c_ssl_certfile c) \<and> truthy (c_ssl_keyfile c) \<and> \<not> d_chain_loads d
            then raise BuiltinOSError else ret ()) (\<lambda>_.
     ret ctx2)))"

definition connect :: "dial \<Rightarrow> unit conn_op" where
  "connect d = bindE (getsE id) (\<lambda>c.
     if is_connected c then ret ()
     else try_except
       (bindE (or_OSError (d_tcp d)) (\<lambda>s.
        bindE (if c_ssl c then
                 bindE (tls_context d c) (\<lambda>ctx.
                   or_OSError (d_handshake d ctx
                     (if c_ssl_check_hostname c then Some (c_host c) else None) s))
               else ret s) (\<lambda>s'.
        modifyE (\<lambda>c. c\<lparr>c_reader := Some (RespReader s' read_chunk_size)\<rparr>))))
       (\<lambda>e. if is_OSError e then raise ConnectionError else raise e))"

definition disconnect :: "unit conn_op" where
  "disconnect = modifyE (\<lambda>c. c\<lparr>c_reader := None\<rparr>)"

text \<open>The socket of the reader, and the reader, as parts of the connection; \<open>ConnectionError\<close> when there
  is none.\<close>

definition on_reader :: "(sock reader, exc, 'a) py \<Rightarrow> 'a conn_op" where
  "on_reader m c = (case c_reader c of
      None \<Rightarrow> (Inl ConnectionError, c)
    | Some r \<Rightarrow> (case m r of (x, r') \<Rightarrow> (x, c\<lparr>c_reader := Some r'\<rparr>)))"

definition on_sock :: "(sock, exc, 'a) py \<Rightarrow> 'a conn_op" where
  "on_sock m = on_reader (\<lambda>r. case m (r_src r) of (x, s) \<Rightarrow> (x, r\<lparr>r_src := s\<rparr>))"

text \<open>The two \<open>except\<close> clauses of the senders and of \<open>read_response\<close>.\<close>

definition translating :: "'a conn_op \<Rightarrow> 'a conn_op" where
  "translating m = try_except m (\<lambda>e.
     if e = BuiltinTimeoutError then bindE disconnect (\<lambda>_. raise TimeoutError)
     else if is_OSError e then bindE disconnect (\<lambda>_. raise ConnectionError)
     else raise e)"

definition send_command :: "arg list \<Rightarrow> unit conn_op" where
  "send_command args = bindE (getsE is_connected) (\<lambda>open.
     if \<not> open then raise ConnectionError
     else bindE (liftE (encode_command args)) (\<lambda>data. translating (on_sock (sock_sendall data))))"

definition send_packed :: "bytes \<Rightarrow> unit conn_op" where
  "send_packed data = bindE (getsE is_connected) (\<lambda>open.
     if \<not> open then raise ConnectionError else translating (on_sock (sock_sendall data)))"

text \<open>\<open>response.decode("utf-8")\<close> when the connection decodes responses; only a reply that is itself a
  bulk string is decoded, not the elements of an array.\<close>

definition decode_reply :: "bool \<Rightarrow> resp \<Rightarrow> exc + resp" where
  "decode_reply decoding v = (case v of
      RBytes b \<Rightarrow> if decoding then map_sumE RStr (utf8_decode b) else Inr v
    | _ \<Rightarrow> Inr v)"

definition read_response :: "nat \<Rightarrow> resp conn_op" where
  "read_response depth = bindE (getsE is_connected) (\<lambda>open.
     if \<not> open then raise ConnectionError
     else bindE (translating (on_reader (parse_frame depth))) (\<lambda>response.
            bindE (getsE c_decode_responses) (\<lambda>decoding. liftE (decode_reply decoding response))))"

definition check_health :: "nat \<Rightarrow> bool conn_op" where
  "check_health depth = try_except
     (bindE (send_command [Str (u ''PING'')]) (\<lambda>_.
      bindE (read_response depth) (\<lambda>response. ret (response = RStr (u ''PONG'')))))
     (\<lambda>_. ret False)"

section \<open>The contract of a channel\<close>

text \<open>\<open>view c\<close> is what the peer has sent and the program has not consumed, what the program has sent,
  and whether bulk replies are decoded. A \<open>ready\<close> channel is open and its sends succeed. The
  contract says that a request only adds to what was sent and that a reply is consumed exactly,
  whether it is a value or an error.\<close>

locale channel =
  fixes send_raw :: "bytes \<Rightarrow> ('c, exc, unit) py"
    and recv_reply :: "nat \<Rightarrow> ('c, exc, resp) py"
    and ready :: "'c \<Rightarrow> bool"
    and view :: "'c \<Rightarrow> bytes \<times> bytes \<times> bool"
  assumes send_ready: "ready c \<Longrightarrow> view c = (i, out, decoding) \<Longrightarrow>
      \<exists>c'. send_raw b c = (Inr (), c') \<and> ready c' \<and> view c' = (i, out @ b, decoding)"
    and recv_value: "ready c \<Longrightarrow> view c = (resp_wire v @ i, out, decoding) \<Longrightarrow>
      reply_ok v \<Longrightarrow> resp_depth v \<le> d \<Longrightarrow>
      \<exists>c'. recv_reply d c = (decode_reply decoding v, c') \<and> ready c' \<and> view c' = (i, out, decoding)"
    and recv_error: "ready c \<Longrightarrow> view c = (''-'' @ b @ crlf @ i, out, decoding) \<Longrightarrow>
      utf8_encode t = Inr b \<Longrightarrow> find_crlf b = None \<Longrightarrow>
      \<exists>c'. recv_reply (Suc d) c = (Inl (ResponseError t), c') \<and> ready c' \<and> view c' = (i, out, decoding)"
begin

lemma recv_values:
  assumes "ready c" and "view c = (concat (map resp_wire vs) @ i, out, decoding)"
    and "list_all (\<lambda>v. reply_ok v \<and> resp_depth v \<le> d) vs"
    and "list_all2 (\<lambda>v w. decode_reply decoding v = Inr w) vs ws"
  shows "\<exists>c'. repeatM (length vs) (recv_reply d) c = (Inr ws, c') \<and> ready c' \<and> view c' = (i, out, decoding)"
  using assms(4,1-3)
proof (induction arbitrary: c rule: list_all2_induct)
  case Nil
  then show ?case by simp
next
  case (Cons v vs w ws)
  then obtain c1 where c1: "recv_reply d c = (Inr w, c1)" "ready c1"
      "view c1 = (concat (map resp_wire vs) @ i, out, decoding)"
    using recv_value [of c v "concat (map resp_wire vs) @ i" out decoding d] by auto
  then obtain c2 where "repeatM (length vs) (recv_reply d) c1 = (Inr ws, c2)" "ready c2"
      "view c2 = (i, out, decoding)"
    using Cons.IH [of c1] Cons.prems(3) by auto
  with c1 show ?case by auto
qed

text \<open>One request and its reply.\<close>

lemma round_trip:
  assumes "ready c" and "view c = (resp_wire v @ i, out, decoding)"
    and "reply_ok v" and "resp_depth v \<le> d"
  shows "\<exists>c'. bindE (send_raw b) (\<lambda>_. recv_reply d) c = (decode_reply decoding v, c') \<and> ready c' \<and>
    view c' = (i, out @ b, decoding)"
proof -
  obtain c1 where c1: "send_raw b c = (Inr (), c1)" "ready c1"
      "view c1 = (resp_wire v @ i, out @ b, decoding)"
    using send_ready [OF assms(1,2)] by blast
  from recv_value [OF c1(2,3) assms(3,4)] c1(1) show ?thesis by auto
qed

text \<open>A batch: one send, then as many replies as there were requests.\<close>

lemma exchange:
  assumes "ready c" and "view c = (concat (map resp_wire vs) @ i, out, decoding)"
    and "list_all (\<lambda>v. reply_ok v \<and> resp_depth v \<le> d) vs"
    and "list_all2 (\<lambda>v w. decode_reply decoding v = Inr w) vs ws"
  shows "\<exists>c'. bindE (send_raw b) (\<lambda>_. repeatM (length vs) (recv_reply d)) c = (Inr ws, c') \<and> ready c' \<and>
    view c' = (i, out @ b, decoding)"
proof -
  obtain c1 where c1: "send_raw b c = (Inr (), c1)" "ready c1"
      "view c1 = (concat (map resp_wire vs) @ i, out @ b, decoding)"
    using send_ready [OF assms(1,2)] by blast
  from recv_values [OF c1(2,3) assms(3,4)] c1(1) show ?thesis by auto
qed

text \<open>An error among the replies ends the batch there: the replies behind it stay in the inbox of a
  channel that is still open.\<close>

lemma exchange_error:
  assumes "ready c" and "view c = (concat (map resp_wire vs) @ ''-'' @ t' @ crlf @ i, out, decoding)"
    and "list_all (\<lambda>v. reply_ok v \<and> resp_depth v \<le> Suc d) vs"
    and "list_all2 (\<lambda>v w. decode_reply decoding v = Inr w) vs ws"
    and "utf8_encode t = Inr t'" and "find_crlf t' = None"
  shows "\<exists>c'. bindE (send_raw b) (\<lambda>_. repeatM (length vs + Suc n) (recv_reply (Suc d))) c =
    (Inl (ResponseError t), c') \<and> ready c' \<and> view c' = (i, out @ b, decoding)"
proof -
  have reads: "\<exists>c'. repeatM (length vs + Suc n) (recv_reply (Suc d)) c = (Inl (ResponseError t), c') \<and>
      ready c' \<and> view c' = (i, out', decoding)"
    if "ready c" "view c = (concat (map resp_wire vs) @ ''-'' @ t' @ crlf @ i, out', decoding)" for c out'
    using assms(4,3) that
  proof (induction arbitrary: c rule: list_all2_induct)
    case Nil
    with recv_error [OF Nil.prems(2) _ assms(5,6), of i out' decoding d] show ?case by auto
  next
    case (Cons v vs w ws)
    then obtain c1 where c1: "recv_reply (Suc d) c = (Inr w, c1)" "ready c1"
        "view c1 = (concat (map resp_wire vs) @ ''-'' @ t' @ crlf @ i, out', decoding)"
      using recv_value [of c v "concat (map resp_wire vs) @ ''-'' @ t' @ crlf @ i" out' decoding "Suc d"]
      by auto
    with Cons.IH [of c1] Cons.prems(1) show ?case by auto
  qed
  obtain c1 where c1: "send_raw b c = (Inr (), c1)" "ready c1"
      "view c1 = (concat (map resp_wire vs) @ ''-'' @ t' @ crlf @ i, out @ b, decoding)"
    using send_ready [OF assms(1,2)] by blast
  from reads [OF c1(2,3)] c1(1) show ?thesis by auto
qed

end

section \<open>The connection as a channel\<close>

definition conn_ready :: "connection \<Rightarrow> bool" where
  "conn_ready c = (case c_reader c of None \<Rightarrow> False | Some r \<Rightarrow> good r \<and> tx (r_src r) = [])"

definition conn_view :: "connection \<Rightarrow> bytes \<times> bytes \<times> bool" where
  "conn_view c = (case c_reader c of
      None \<Rightarrow> ([], [], c_decode_responses c)
    | Some r \<Rightarrow> (unread sock_arrived r, sent (r_src r), c_decode_responses c))"

lemma translating_Inr: "m c = (Inr x, c') \<Longrightarrow> translating m c = (Inr x, c')"
  by (simp add: translating_def)

lemma translating_other:
  "m c = (Inl e, c') \<Longrightarrow> \<not> is_OSError e \<Longrightarrow> translating m c = (Inl e, c')"
  by (auto simp: translating_def)

lemma translating_OSError:
  "m c = (Inl e, c') \<Longrightarrow> is_OSError e \<Longrightarrow>
   translating m c = (Inl (if e = BuiltinTimeoutError then TimeoutError else ConnectionError), c'\<lparr>c_reader := None\<rparr>)"
  by (auto simp: translating_def disconnect_def bindE_run)

lemma robs_eq: "robs sock_obs r' = robs sock_obs r \<Longrightarrow> tx (r_src r') = tx (r_src r) \<and> sent (r_src r') = sent (r_src r)"
  by (simp add: robs_def sock_obs_def)

interpretation conn: channel send_packed read_response conn_ready conn_view
proof
  fix c i out decoding b
  assume "conn_ready c" "conn_view c = (i, out, decoding)"
  then obtain r where "c_reader c = Some r" "good r" "tx (r_src r) = []"
      "unread sock_arrived r = i" "sent (r_src r) = out" "c_decode_responses c = decoding"
    by (auto simp: conn_ready_def conn_view_def split: option.splits)
  then show "\<exists>c'. send_packed b c = (Inr (), c') \<and> conn_ready c' \<and> conn_view c' = (i, out @ b, decoding)"
    by (auto simp: conn_ready_def conn_view_def send_packed_def is_connected_def translating_def on_sock_def
        on_reader_def sock_sendall_def bindE_run try_except_run good_def unread_def sock_arrived_def)
next
  fix c v i out decoding d
  assume c: "conn_ready c" "conn_view c = (resp_wire v @ i, out, decoding)"
    and v: "reply_ok v" "resp_depth v \<le> d"
  then obtain r where r: "c_reader c = Some r" "good r" "tx (r_src r) = []"
      "unread sock_arrived r = resp_wire v @ i" "sent (r_src r) = out" "c_decode_responses c = decoding"
    by (auto simp: conn_ready_def conn_view_def split: option.splits)
  then obtain r' where "parse_frame d r = (Inr v, r')" "good r'" "unread sock_arrived r' = i"
      "robs sock_obs r' = robs sock_obs r"
    using sync.frames.parse_wire v by blast
  with r robs_eq [of r' r] show "\<exists>c'. read_response d c = (decode_reply decoding v, c') \<and> conn_ready c' \<and>
      conn_view c' = (i, out, decoding)"
    by (auto simp: read_response_def is_connected_def translating_def on_reader_def bindE_run try_except_run
        conn_ready_def conn_view_def)
next
  fix c b i out decoding t d
  assume c: "conn_ready c" "conn_view c = (''-'' @ b @ crlf @ i, out, decoding)"
    and t: "utf8_encode t = Inr b" "find_crlf b = None"
  then obtain r where r: "c_reader c = Some r" "good r" "tx (r_src r) = []"
      "unread sock_arrived r = ''-'' @ b @ crlf @ i" "sent (r_src r) = out" "c_decode_responses c = decoding"
    by (auto simp: conn_ready_def conn_view_def split: option.splits)
  then obtain r' where "parse_frame (Suc d) r = (Inl (ResponseError t), r')" "good r'"
      "unread sock_arrived r' = i" "robs sock_obs r' = robs sock_obs r"
    using sync.frames.parse_error t by blast
  with r robs_eq [of r' r] show "\<exists>c'. read_response (Suc d) c = (Inl (ResponseError t), c') \<and>
      conn_ready c' \<and> conn_view c' = (i, out, decoding)"
    by (auto simp del: parse_frame.simps simp: read_response_def is_connected_def translating_def on_reader_def
        bindE_run try_except_run conn_ready_def conn_view_def)
qed


section \<open>Failures of the socket\<close>

text \<open>What decoding one frame may raise: a failure of the socket as \<open>recv\<close> reports it, or one of
  the errors the decoder itself finds; never an exception that \<open>Connection\<close> uses for its own
  reports.\<close>

fun decoder_exc :: "exc \<Rightarrow> bool" where
  "decoder_exc (ResponseError _) = True"
| "decoder_exc (ProtocolError _) = True"
| "decoder_exc BuiltinOSError = True"
| "decoder_exc BuiltinTimeoutError = True"
| "decoder_exc BuiltinValueError = True"
| "decoder_exc BuiltinUnicodeDecodeError = True"
| "decoder_exc BuiltinRecursionError = True"
| "decoder_exc _ = False"

lemma conversions_decoder_exc [simp]:
  "utf8_decode l = Inl e \<Longrightarrow> decoder_exc e" "py_int l = Inl e \<Longrightarrow> decoder_exc e"
  by (auto simp: utf8_decode_def py_int_def Let_def split: option.splits prod.splits if_splits)

lemma sock_recv_decoder_exc: "sock_recv n s = (Inl e, s') \<Longrightarrow> decoder_exc e"
  by (auto simp: sock_recv_def split: list.splits recv_event.splits)

lemma ensure_data_exc: "ensure_data n r = (Inl e, r') \<Longrightarrow> decoder_exc e"
proof (induction n r rule: ensure_data.induct)
  case (1 n r)
  from 1(2) show ?case
    by (subst (asm) ensure_data.simps)
      (auto dest: sock_recv_decoder_exc 1(1) split: if_splits prod.splits sum.splits)
qed

lemma read_line_exc: "read_line r = (Inl e, r') \<Longrightarrow> decoder_exc e"
proof (induction r rule: read_line.induct)
  case (1 r)
  from 1(2) show ?case
    by (subst (asm) read_line.simps)
      (auto simp: Let_def dest: sock_recv_decoder_exc 1(1) [OF refl, simplified] split: if_splits prod.splits sum.splits)
qed

lemma reads_raise [py_intros]: "raises decoder_exc (ensure_data n)" "raises decoder_exc read_line"
  by (auto intro: raisesI ensure_data_exc read_line_exc)

lemma raises_pure [py_intros]: "raises P (\<lambda>s. (Inr (f s), g s))"
  by (simp add: raises_def)

lemma parse_frame_raises [py_intros]: "raises decoder_exc (parse_frame d)"
proof (induction d)
  case 0
  show ?case unfolding parse_frame.simps by (rule raises_raise) simp
next
  case (Suc d)
  show ?case
    unfolding parse_frame.simps read_exact_def take_marker_def
    by (intro py_intros Suc) (auto simp: map_sumE_eq_Inl)
qed

lemma translating_closed:
  assumes "translating m c = (Inl e, c')" and "raises (\<lambda>e. e \<noteq> TimeoutError \<and> e \<noteq> ConnectionError) m"
  shows "\<not> is_OSError e \<and> (e = TimeoutError \<or> e = ConnectionError \<longrightarrow> \<not> is_connected c')"
  using assms
  by (auto simp: translating_def try_except_run bindE_run disconnect_def is_connected_def
      split: prod.splits sum.splits if_splits dest: raisesD)

lemma raises_on_reader [py_intros]:
  "raises P m \<Longrightarrow> P ConnectionError \<Longrightarrow> raises P (on_reader m)"
  by (rule raisesI) (auto simp: on_reader_def dest: raisesD split: option.splits prod.splits)

text \<open>What the user of a connection sees of the decoder's exceptions.\<close>

definition decoding_error :: "exc \<Rightarrow> bool" where
  "decoding_error e \<longleftrightarrow> (\<exists>m. e = ResponseError m) \<or> (\<exists>f. e = ProtocolError f) \<or>
     e = BuiltinUnicodeDecodeError \<or> e = BuiltinValueError \<or> e = BuiltinRecursionError"

lemma decoder_exc_cases: "decoder_exc e \<Longrightarrow> decoding_error e \<or> e = BuiltinTimeoutError \<or> e = BuiltinOSError"
  by (cases e) (simp_all add: decoding_error_def)

lemma decoding_error_other [simp]:
  "\<not> decoding_error ConnectionError" "\<not> decoding_error TimeoutError"
  "\<not> decoding_error BuiltinTimeoutError" "\<not> decoding_error BuiltinOSError" "decoding_error BuiltinUnicodeDecodeError"
  "decoding_error e \<Longrightarrow> \<not> is_OSError e"
  by (auto simp: decoding_error_def)

lemma sendall_exc:
  assumes "translating (on_sock (sock_sendall b)) c = (Inl e, c')" and "is_connected c"
  shows "(e = TimeoutError \<or> e = ConnectionError) \<and> \<not> is_connected c'"
  using assms
  by (auto simp: translating_def on_sock_def on_reader_def sock_sendall_def try_except_run bindE_run
      disconnect_def is_connected_def split: option.splits list.splits send_event.splits)

lemma decode_reply_exc: "decode_reply f v = Inl e \<Longrightarrow> e = BuiltinUnicodeDecodeError"
  by (auto simp: decode_reply_def utf8_decode_def split: resp.splits option.splits if_splits)

section \<open>Theorems about connections\<close>

text \<open>The three ways to fail: there is no connection, decoding the frame raises, or the decoded bulk string is not UTF-8.\<close>

lemma read_response_Inl:
  assumes "read_response d c = (Inl e, c')"
  shows "(c_reader c = None \<and> e = ConnectionError \<and> c' = c) \<or>
    (\<exists>r r' x. c_reader c = Some r \<and> parse_frame d r = (Inl x, r') \<and>
      (x = BuiltinTimeoutError \<and> e = TimeoutError \<and> \<not> is_connected c' \<or>
       x = BuiltinOSError \<and> e = ConnectionError \<and> \<not> is_connected c' \<or>
       decoding_error x \<and> e = x \<and> c' = c\<lparr>c_reader := Some r'\<rparr>)) \<or>
    (\<exists>r r' v. c_reader c = Some r \<and> parse_frame d r = (Inr v, r') \<and> c_decode_responses c \<and>
      e = BuiltinUnicodeDecodeError \<and> c' = c\<lparr>c_reader := Some r'\<rparr>)"
proof (cases "c_reader c")
  case None
  with assms show ?thesis by (auto simp: read_response_def bindE_run is_connected_def)
next
  case (Some r)
  obtain y r' where y: "parse_frame d r = (y, r')" by (cases "parse_frame d r")
  then have read: "on_reader (parse_frame d) c = (y, c\<lparr>c_reader := Some r'\<rparr>)" using Some by (simp add: on_reader_def)
  show ?thesis
  proof (cases y)
    case (Inl x)
    then consider "x = BuiltinTimeoutError" | "x = BuiltinOSError" | "decoding_error x" "\<not> is_OSError x"
      using raisesD [OF parse_frame_raises] y decoder_exc_cases by fastforce
    then show ?thesis
      using assms Some y Inl translating_OSError [where m = "on_reader (parse_frame d)"]
        translating_other [where m = "on_reader (parse_frame d)"] read
      by cases (auto simp: read_response_def bindE_run is_connected_def)
  next
    case (Inr v)
    then show ?thesis
      using assms Some y translating_Inr [where m = "on_reader (parse_frame d)"] read decode_reply_exc [of _ v e]
      by (auto simp: read_response_def bindE_run is_connected_def decode_reply_def split: resp.splits if_splits)
  qed
qed

text \<open>C34: Every failure of reading a reply is a report of the library or a decoding error, never a raw \<open>OSError\<close>:
  either \<open>TimeoutError\<close> or \<open>ConnectionError\<close>, and then the connection is closed afterwards; or \<open>ResponseError\<close>,
  \<open>ProtocolError\<close>, \<open>UnicodeDecodeError\<close>, \<open>ValueError\<close> (a length or integer that is none) or \<open>RecursionError\<close>
  (arrays nested beyond the interpreter's limit), and then it stays open. It is \<open>TimeoutError\<close> exactly when a
  \<open>recv\<close> timed out, and \<open>ConnectionError\<close> exactly when there was no connection or a \<open>recv\<close> failed otherwise.\<close>

theorem read_failures_translated:
  assumes "read_response d c = (Inl e, c')"
  shows "((e = TimeoutError \<or> e = ConnectionError) \<and> \<not> is_connected c' \<or> decoding_error e \<and> is_connected c') \<and>
    \<not> is_OSError e \<and>
    (e = TimeoutError \<longleftrightarrow> (\<exists>r. c_reader c = Some r \<and> fst (parse_frame d r) = Inl BuiltinTimeoutError)) \<and>
    (e = ConnectionError \<longleftrightarrow> c_reader c = None \<or> (\<exists>r. c_reader c = Some r \<and> fst (parse_frame d r) = Inl BuiltinOSError))"
  using read_response_Inl [OF assms] by (elim disjE exE conjE) (auto simp: is_connected_def)

definition local_connection :: "sock option \<Rightarrow> connection" where
  "local_connection s = \<lparr>c_host = u ''127.0.0.1'', c_port = 6379, c_decode_responses = False, c_ssl = False,
     c_ssl_keyfile = None, c_ssl_certfile = None, c_ssl_cert_reqs = CERT_REQUIRED,
     c_ssl_check_hostname = True,
     c_reader = (case s of None \<Rightarrow> None | Some s \<Rightarrow> Some (RespReader s 16))\<rparr>"

lemma read_failures_translated_witness:
  "fst (read_response 5 (local_connection (Some \<lparr>rx = [Data ''+O'', RecvTimeout], tx = [], sent = []\<rparr>)))
     = Inl TimeoutError \<and>
   \<not> is_connected (snd (read_response 5
       (local_connection (Some \<lparr>rx = [Data ''+O'', RecvTimeout], tx = [], sent = []\<rparr>))))"
proof -
  let ?c = "local_connection (Some \<lparr>rx = [Data ''+O'', RecvTimeout], tx = [], sent = []\<rparr>)"
  have e: "fst (read_response 5 ?c) = Inl TimeoutError" by code_simp
  then have "read_response 5 ?c = (Inl TimeoutError, snd (read_response 5 ?c))"
    by (metis prod.collapse)
  from read_failures_translated [OF this] e show ?thesis by simp
qed

text \<open>Sending a command fails only because the arguments cannot be encoded, before anything is
  sent, or because the peer is lost or too slow; then the connection is closed.\<close>

theorem send_failures_translated:
  assumes "send_command args c = (Inl e, c')"
  shows "(encode_command args = Inl e \<and> is_connected c \<and> c' = c) \<or>
    ((e = TimeoutError \<or> e = ConnectionError) \<and> \<not> is_connected c')"
  using assms sendall_exc [of _ c e c']
  by (auto simp: send_command_def bindE_run split: if_splits sum.splits)

lemma send_failures_translated_witness:
  "fst (send_command [Str (u ''PING'')] (local_connection (Some \<lparr>rx = [], tx = [SendError], sent = []\<rparr>)))
     = Inl ConnectionError \<and>
   \<not> is_connected (snd (send_command [Str (u ''PING'')]
       (local_connection (Some \<lparr>rx = [], tx = [SendError], sent = []\<rparr>))))"
proof -
  let ?c = "local_connection (Some \<lparr>rx = [], tx = [SendError], sent = []\<rparr>)"
  have e: "fst (send_command [Str (u ''PING'')] ?c) = Inl ConnectionError" by code_simp
  then have "send_command [Str (u ''PING'')] ?c = (Inl ConnectionError, snd (send_command [Str (u ''PING'')] ?c))"
    by (metis prod.collapse)
  moreover have "\<exists>w. encode_command [Str (u ''PING'')] = Inr w"
    by (intro exI [of _ "''*1'' @ crlf @ ''$4'' @ crlf @ ''PING'' @ crlf"]) code_simp
  ultimately show ?thesis
    using send_failures_translated [of "[Str (u ''PING'')]" ?c ConnectionError] e by auto
qed

lemma command_reply_run:
  assumes "conn_ready c" and "conn_view c = (resp_wire v @ i, out, decoding)"
    and "reply_ok v" and "resp_depth v \<le> d" and "encode_command args = Inr w"
  shows "\<exists>c'. bindE (send_command args) (\<lambda>_. read_response d) c = (decode_reply decoding v, c') \<and>
    conn_ready c' \<and> conn_view c' = (i, out @ w, decoding)"
proof -
  have "is_connected c"
    using assms(1) by (auto simp: conn_ready_def is_connected_def split: option.splits)
  then have "send_command args c = send_packed w c"
    using assms(5) by (simp add: send_command_def send_packed_def bindE_run)
  with conn.round_trip [OF assms(1-4), of w] show ?thesis by (simp add: bindE_run)
qed

text \<open>A command and its reply on an open connection: the bytes sent are exactly the encoded command,
  the value returned is the server's (bulk replies decoded when asked for), and the replies behind
  it are untouched.\<close>

theorem command_reply:
  assumes "conn_ready c" and "conn_view c = (resp_wire v @ i, out, decoding)"
    and "reply_ok v" and "resp_depth v \<le> d" and "encode_command args = Inr w"
  shows "\<exists>c'. bindE (send_command args) (\<lambda>_. read_response d) c = (decode_reply decoding v, c') \<and>
    conn_ready c' \<and> conn_view c' = (i, out @ w, decoding)"
  using command_reply_run [OF assms] .

lemma command_reply_witness:
  "\<exists>c'. bindE (send_command [Str (u ''GET''), Str (u ''k'')]) (\<lambda>_. read_response 2)
     (local_connection (Some \<lparr>rx = [Data ''$2'', Data (crlf @ ''hi'' @ crlf @ ''+OK'')], tx = [], sent = []\<rparr>))
     = (Inr (RBytes ''hi''), c') \<and> conn_ready c' \<and>
   conn_view c' = (''+OK'', [] @ ''*2'' @ crlf @ ''$3'' @ crlf @ ''GET'' @ crlf @ ''$1'' @ crlf @ ''k'' @ crlf, False)"
proof -
  let ?c = "local_connection (Some \<lparr>rx = [Data ''$2'', Data (crlf @ ''hi'' @ crlf @ ''+OK'')], tx = [], sent = []\<rparr>)"
  have "conn_ready ?c" by code_simp
  moreover have "conn_view ?c = (resp_wire (RBytes ''hi'') @ ''+OK'', [], False)" by code_simp
  moreover have "encode_command [Str (u ''GET''), Str (u ''k'')] =
      Inr (''*2'' @ crlf @ ''$3'' @ crlf @ ''GET'' @ crlf @ ''$1'' @ crlf @ ''k'' @ crlf)" by code_simp
  moreover have "decode_reply False (RBytes ''hi'') = Inr (RBytes ''hi'')" by code_simp
  ultimately show ?thesis
    using command_reply [of ?c "RBytes ''hi''" "''+OK''" "[]" False 2] by simp
qed

lemma health_check_value:
  assumes "conn_ready c" and "conn_view c = (resp_wire v @ i, out, decoding)"
    and "reply_ok v" and "resp_depth v \<le> d"
  shows "fst (check_health d c) = Inr (decode_reply decoding v = Inr (RStr (u ''PONG'')))"
proof -
  obtain w where w: "encode_command [Str (u ''PING'')] = Inr w"
    by (simp add: encode_command_def encode_arg_u ascii_def)
  obtain c' where "bindE (send_command [Str (u ''PING'')]) (\<lambda>_. read_response d) c =
      (decode_reply decoding v, c')"
    using command_reply_run [OF assms w] by blast
  then show ?thesis
    by (cases "decode_reply decoding v")
      (auto simp: check_health_def try_except_run bindE_run split: prod.splits sum.splits)
qed

lemma utf8_decode_PONG: "utf8_decode b = Inr (u ''PONG'') \<longleftrightarrow> b = ''PONG''"
proof -
  have "utf8_encode (u ''PONG'') = Inr ''PONG''" by (simp add: utf8_encode_u ascii_def)
  then show ?thesis using utf8_decode_iff by (metis sum.inject(2))
qed

lemma decodes_to_PONG:
  "decode_reply decoding v = Inr (RStr (u ''PONG'')) \<longleftrightarrow> v = RStr (u ''PONG'') \<or> decoding \<and> v = RBytes ''PONG''"
proof (cases v)
  case (RBytes b)
  then show ?thesis using utf8_decode_PONG [of b] by (cases "utf8_decode b") (simp_all add: decode_reply_def)
qed (simp_all add: decode_reply_def)

lemma health_check_error:
  assumes "conn_ready c" and "conn_view c = (''-'' @ b @ crlf @ rest, out, decoding)"
    and "utf8_encode t = Inr b" and "find_crlf b = None" and "0 < d"
  shows "fst (check_health d c) = Inr False"
proof -
  obtain w where w: "encode_command [Str (u ''PING'')] = Inr w"
    by (simp add: encode_command_def encode_arg_u ascii_def)
  have "is_connected c" using assms(1) by (auto simp: conn_ready_def is_connected_def split: option.splits)
  then have send: "send_command [Str (u ''PING'')] c = send_packed w c"
    using w by (simp add: send_command_def send_packed_def bindE_run)
  obtain c1 where c1: "send_packed w c = (Inr (), c1)" "conn_ready c1"
      "conn_view c1 = (''-'' @ b @ crlf @ rest, out @ w, decoding)"
    using conn.send_ready [OF assms(1,2)] by blast
  obtain d' where d: "d = Suc d'" using assms(5) by (cases d) simp_all
  obtain c2 where "read_response d c1 = (Inl (ResponseError t), c2)"
    using conn.recv_error [OF c1(2,3) assms(3,4), of d'] d by blast
  with send c1(1) show ?thesis by (simp add: check_health_def try_except_run bindE_run)
qed

text \<open>C35: The health check never raises, whatever state the connection is in. It answers \<open>True\<close> exactly when \<open>PING\<close>
  could be sent and the next reply reads as the string \<open>PONG\<close>. So on an open connection the answer depends on the
  next complete reply alone: \<open>True\<close> for the simple string \<open>PONG\<close>, and for a bulk \<open>PONG\<close> when replies are decoded (an
  unread one of an earlier command included), \<open>False\<close> for any other value (nested within the recursion
  limit) and for an error reply; and it is \<open>False\<close> without a connection.\<close>

theorem health_check_reads_PONG:
  "(\<exists>healthy c'. check_health d c = (Inr healthy, c') \<and>
      (healthy \<longleftrightarrow> (\<exists>c1. send_command [Str (u ''PING'')] c = (Inr (), c1) \<and>
        fst (read_response d c1) = Inr (RStr (u ''PONG''))))) \<and>
   (\<forall>v rest out decoding. conn_ready c \<and> conn_view c = (resp_wire v @ rest, out, decoding) \<and> reply_ok v \<and> resp_depth v \<le> d \<longrightarrow>
      fst (check_health d c) = Inr (v = RStr (u ''PONG'') \<or> decoding \<and> v = RBytes ''PONG'')) \<and>
   (\<forall>t b rest out decoding. conn_ready c \<and> conn_view c = (''-'' @ b @ crlf @ rest, out, decoding) \<and>
      utf8_encode t = Inr b \<and> find_crlf b = None \<and> 0 < d \<longrightarrow> fst (check_health d c) = Inr False) \<and>
   (\<not> is_connected c \<longrightarrow> check_health d c = (Inr False, c))"
proof (intro conjI allI impI)
  show "\<exists>healthy c'. check_health d c = (Inr healthy, c') \<and>
      (healthy \<longleftrightarrow> (\<exists>c1. send_command [Str (u ''PING'')] c = (Inr (), c1) \<and>
        fst (read_response d c1) = Inr (RStr (u ''PONG''))))"
    by (auto simp: check_health_def try_except_run bindE_run split: prod.splits sum.splits)
  show "check_health d c = (Inr False, c)" if "\<not> is_connected c"
    using that by (simp add: check_health_def send_command_def try_except_run bindE_run)
  show "fst (check_health d c) = Inr (v = RStr (u ''PONG'') \<or> decoding \<and> v = RBytes ''PONG'')"
    if "conn_ready c \<and> conn_view c = (resp_wire v @ rest, out, decoding) \<and> reply_ok v \<and> resp_depth v \<le> d"
    for v rest out decoding
    using health_check_value [of c v rest out decoding d] that unfolding decodes_to_PONG by simp
  show "fst (check_health d c) = Inr False"
    if "conn_ready c \<and> conn_view c = (''-'' @ b @ crlf @ rest, out, decoding) \<and>
      utf8_encode t = Inr b \<and> find_crlf b = None \<and> 0 < d" for t b rest out decoding
    using that by (elim conjE) (rule health_check_error)
qed

lemma health_check_reads_PONG_witness:
  "fst (check_health 1 (local_connection (Some \<lparr>rx = [Data ('':4'' @ crlf @ ''+PONG'' @ crlf)], tx = [], sent = []\<rparr>)))
     = Inr False"
proof -
  let ?c = "local_connection (Some \<lparr>rx = [Data ('':4'' @ crlf @ ''+PONG'' @ crlf)], tx = [], sent = []\<rparr>)"
  have "conn_ready ?c" by code_simp
  moreover have "conn_view ?c = (resp_wire (RInt 4) @ ''+PONG'' @ crlf, [], False)" by code_simp
  ultimately show ?thesis
    using conjunct1 [OF conjunct2 [OF health_check_reads_PONG [of 1 ?c]], rule_format, of "RInt 4" "''+PONG'' @ crlf" "[]" False]
    by simp
qed

lemma tls_context_Inr:
  "tls_context d c c0 = (Inr ctx, c1) \<Longrightarrow> c1 = c0 \<and> check_hostname ctx = c_ssl_check_hostname c \<and>
     (c_ssl_cert_reqs c \<noteq> CERT_NONE \<or> c_ssl_check_hostname c \<longrightarrow> verify_mode ctx = CERT_REQUIRED)"
  by (auto simp: tls_context_def bindE_run create_default_context_def set_verify_none_def Let_def
      split: if_splits)

text \<open>C36: A TLS connection that comes up was negotiated with the server's certificate required, unless
  \<open>ssl_cert_reqs\<close> is \<open>CERT_NONE\<close>, and with the host name checked against the configured host, unless
  \<open>ssl_check_hostname\<close> is off.\<close>

theorem tls_verified:
  assumes "connect d c = (Inr (), c')" and "\<not> is_connected c" and "c_ssl c"
  shows "\<exists>ctx name s s'. d_tcp d = Some s \<and> d_handshake d ctx name s = Some s' \<and>
    c' = c\<lparr>c_reader := Some (RespReader s' read_chunk_size)\<rparr> \<and>
    (c_ssl_cert_reqs c \<noteq> CERT_NONE \<longrightarrow> verify_mode ctx = CERT_REQUIRED) \<and>
    (c_ssl_check_hostname c \<longrightarrow>
       check_hostname ctx \<and> verify_mode ctx = CERT_REQUIRED \<and> name = Some (c_host c))"
proof -
  let ?name = "if c_ssl_check_hostname c then Some (c_host c) else None"
  from assms obtain s ctx c1 s' where s: "d_tcp d = Some s" "tls_context d c c = (Inr ctx, c1)"
      "d_handshake d ctx ?name s = Some s'" "c' = c1\<lparr>c_reader := Some (RespReader s' read_chunk_size)\<rparr>"
    by (auto simp: connect_def bindE_run try_except_run or_OSError_def
        split: option.splits prod.splits sum.splits if_splits)
  with tls_context_Inr [OF s(2)] show ?thesis
    by (intro exI [of _ ctx] exI [of _ ?name] exI [of _ s] exI [of _ s']) auto
qed

definition answers_verified :: "sock \<Rightarrow> dial" where
  "answers_verified s = \<lparr>d_tcp = Some s, d_ca_loads = True, d_chain_loads = True,
     d_handshake = (\<lambda>ctx name s'. if verify_mode ctx = CERT_REQUIRED \<and> check_hostname ctx then Some s' else None)\<rparr>"

lemma tls_verified_witness:
  "\<exists>ctx name s s'. d_tcp (answers_verified \<lparr>rx = [], tx = [], sent = []\<rparr>) = Some s \<and>
     d_handshake (answers_verified \<lparr>rx = [], tx = [], sent = []\<rparr>) ctx name s = Some s' \<and>
     verify_mode ctx = CERT_REQUIRED \<and> name = Some (u ''127.0.0.1'')"
proof -
  let ?s = "\<lparr>rx = [], tx = [], sent = []\<rparr> :: sock"
  let ?c = "local_connection None\<lparr>c_ssl := True\<rparr>"
  have "connect (answers_verified ?s) ?c = (Inr (), ?c\<lparr>c_reader := Some (RespReader ?s read_chunk_size)\<rparr>)"
    by (simp add: connect_def bindE_run try_except_run or_OSError_def tls_context_def is_connected_def
        create_default_context_def Let_def local_connection_def answers_verified_def truthy_def)
  moreover have "\<not> is_connected ?c" "c_ssl ?c" "c_ssl_check_hostname ?c" "c_host ?c = u ''127.0.0.1''"
    by (simp_all add: local_connection_def is_connected_def)
  ultimately show ?thesis using tls_verified [of "answers_verified ?s" ?c] by metis
qed

text \<open>Asking for no certificate verification (\<open>ssl_cert_reqs=CERT_NONE\<close>) while the host-name check keeps
  its default does not connect and does not raise the library's \<open>ConnectionError\<close>: the ssl module's
  \<open>ValueError\<close> escapes.\<close>

theorem cert_none_escapes:
  assumes "c_ssl c" and "c_ssl_cert_reqs c = CERT_NONE" and "c_ssl_check_hostname c"
    and "\<not> is_connected c" and "d_tcp d = Some s" and "d_ca_loads d"
  shows "connect d c = (Inl BuiltinValueError, c)"
  using assms
  by (simp add: connect_def bindE_run try_except_run or_OSError_def tls_context_def
      create_default_context_def set_verify_none_def Let_def)

lemma cert_none_escapes_witness:
  "connect (answers_verified \<lparr>rx = [], tx = [], sent = []\<rparr>)
     (local_connection None\<lparr>c_ssl := True, c_ssl_cert_reqs := CERT_NONE\<rparr>)
   = (Inl BuiltinValueError, local_connection None\<lparr>c_ssl := True, c_ssl_cert_reqs := CERT_NONE\<rparr>)"
  by (rule cert_none_escapes [where s = "\<lparr>rx = [], tx = [], sent = []\<rparr>"])
    (simp_all add: local_connection_def is_connected_def answers_verified_def)

end
