(* ===== verification/Async_Transport.thy ===== *)
theory Async_Transport
  imports Connection
begin

text \<open>
  The asynchronous client has no connection object: it keeps the \<open>StreamReader\<close>, the
  \<open>StreamWriter\<close> and the \<open>AsyncRespReader\<close> of one transport, here the one value of type
  \<open>stream reader\<close>. Writing and draining on it and decoding from it satisfy the contract of a channel;
  nothing is decoded to text and nothing is closed on a failure.
\<close>

definition on_stream :: "(stream, exc, 'a) py \<Rightarrow> (stream reader, exc, 'a) py" where
  "on_stream m r = (case m (r_src r) of (x, s) \<Rightarrow> (x, r\<lparr>r_src := s\<rparr>))"

text \<open>\<open>writer.write(data); await writer.drain()\<close>.\<close>

definition write_drain :: "bytes \<Rightarrow> (stream reader, exc, unit) py" where
  "write_drain data = bindE (on_stream (stream_write data)) (\<lambda>_. on_stream stream_drain)"

definition stream_ready :: "stream reader \<Rightarrow> bool" where
  "stream_ready r \<longleftrightarrow> good r \<and> st_drains (r_src r) = []"

definition stream_view :: "stream reader \<Rightarrow> bytes \<times> bytes \<times> bool" where
  "stream_view r = (unread stream_arrived r, st_written (r_src r), False)"

lemma robs_stream_eq: "robs stream_obs r' = robs stream_obs r \<Longrightarrow>
    st_drains (r_src r') = st_drains (r_src r) \<and> st_written (r_src r') = st_written (r_src r)"
  by (simp add: robs_def stream_obs_def)

lemma decode_reply_False [simp]: "decode_reply False v = Inr v"
  by (simp add: decode_reply_def split: resp.split)

interpretation transport: channel write_drain a_parse_frame stream_ready stream_view
proof
  fix c i out decoding b
  assume "stream_ready c" "stream_view c = (i, out, decoding)"
  then show "\<exists>c'. write_drain b c = (Inr (), c') \<and> stream_ready c' \<and> stream_view c' = (i, out @ b, decoding)"
    by (auto simp: stream_ready_def stream_view_def write_drain_def on_stream_def stream_write_def
        stream_drain_def bindE_run good_def unread_def stream_arrived_def)
next
  fix c v i out decoding d
  assume c: "stream_ready c" "stream_view c = (resp_wire v @ i, out, decoding)"
    and v: "reply_ok v" "resp_depth v \<le> d"
  then obtain r' where "a_parse_frame d c = (Inr v, r')" "good r'" "unread stream_arrived r' = i"
      "robs stream_obs r' = robs stream_obs c"
    using async.frames.parse_wire [of c v i d] by (auto simp: stream_ready_def stream_view_def)
  with c robs_stream_eq [of r' c] show "\<exists>c'. a_parse_frame d c = (decode_reply decoding v, c') \<and>
      stream_ready c' \<and> stream_view c' = (i, out, decoding)"
    by (auto simp: stream_ready_def stream_view_def)
next
  fix c b i out decoding t d
  assume c: "stream_ready c" "stream_view c = (''-'' @ b @ crlf @ i, out, decoding)"
    and t: "utf8_encode t = Inr b" "find_crlf b = None"
  then obtain r' where "a_parse_frame (Suc d) c = (Inl (ResponseError t), r')" "good r'"
      "unread stream_arrived r' = i" "robs stream_obs r' = robs stream_obs c"
    using async.frames.parse_error [of c b i t d] by (auto simp: stream_ready_def stream_view_def)
  with c robs_stream_eq [of r' c] show "\<exists>c'. a_parse_frame (Suc d) c = (Inl (ResponseError t), c') \<and>
      stream_ready c' \<and> stream_view c' = (i, out, decoding)"
    by (auto simp: stream_ready_def stream_view_def simp del: a_parse_frame.simps)
qed

section \<open>Reading leaves the writer alone\<close>

definition writer_of :: "stream reader \<Rightarrow> bytes \<times> send_event list \<times> bool" where
  "writer_of r = (st_written (r_src r), st_drains (r_src r), st_closing (r_src r))"

lemma stream_read_writer: "stream_read n s = (x, s') \<Longrightarrow>
    st_written s' = st_written s \<and> st_drains s' = st_drains s \<and> st_closing s' = st_closing s"
  by (auto simp: stream_read_def split: list.splits ending.splits)

lemma a_ensure_data_writer: "a_ensure_data n r = (x, r') \<Longrightarrow> writer_of r' = writer_of r"
proof (induction n r rule: a_ensure_data.induct)
  case (1 n r)
  obtain y s where s: "stream_read (r_chunk r) (r_src r) = (y, s)"
    by (cases "stream_read (r_chunk r) (r_src r)")
  from 1(2) show ?case
    by (subst (asm) a_ensure_data.simps, cases y)
      (auto simp: s writer_of_def stream_read_writer [OF s] dest!: 1(1) split: if_splits)
qed

lemma a_read_line_writer: "a_read_line r = (x, r') \<Longrightarrow> writer_of r' = writer_of r"
proof (induction r rule: a_read_line.induct)
  case (1 r)
  obtain y s where s: "stream_read (r_chunk r) (r_src r) = (y, s)"
    by (cases "stream_read (r_chunk r) (r_src r)")
  from 1(2) show ?case
    by (subst (asm) a_read_line.simps, cases y)
      (auto simp: s Let_def writer_of_def a_compact_def stream_read_writer [OF s]
        dest!: 1(1) [OF refl, simplified] split: if_splits)
qed

lemma a_parse_frame_writer: "keeps writer_of (a_parse_frame d)"
proof (induction d)
  case 0
  show ?case unfolding a_parse_frame.simps by (rule keeps_basic)
next
  case (Suc d)
  have step: "keeps writer_of (\<lambda>r. (Inr (f r), a_compact (r\<lparr>r_pos := g r\<rparr>)))"
    "keeps writer_of (\<lambda>r. (Inr (f r), r\<lparr>r_pos := g r\<rparr>))" for f :: "stream reader \<Rightarrow> bytes" and g
    by (auto simp: keeps_def writer_of_def a_compact_def)
  have "keeps writer_of (a_ensure_data n)" "keeps writer_of a_read_line" for n
    by (auto intro: keepsI a_ensure_data_writer a_read_line_writer)
  then show ?case
    unfolding a_parse_frame.simps a_read_exact_def a_take_marker_def by (intro py_intros Suc step)
qed

lemma write_drain_closing: "keeps (\<lambda>r. st_closing (r_src r)) (write_drain b)"
  by (rule keepsI)
    (auto simp: write_drain_def on_stream_def stream_write_def stream_drain_def bindE_run
      split: list.splits send_event.splits prod.splits)

lemma a_parse_frame_closing: "keeps (\<lambda>r. st_closing (r_src r)) (a_parse_frame d)"
  using a_parse_frame_writer [of d] by (auto simp: keeps_def writer_of_def)

end
