(* ===== verification/Pipeline.thy ===== *)
theory Pipeline
  imports Async_Transport
begin

text \<open>
  \<open>pipeline.py\<close>: \<open>Pipeline\<close> and \<open>AsyncPipeline\<close> collect commands and send them in one batch. Both
  are the connection they were made for and the commands queued; their methods return the pipeline
  itself, so a method is a function on it. The names of the asynchronous class carry the prefix \<open>apl_\<close>.
\<close>

section \<open>State\<close>

record 'c pipeline =
  pl_conn :: 'c
  pl_commands :: "arg list list"

text \<open>A command word or a number as an argument (\<open>str(n)\<close>).\<close>

definition word :: "string \<Rightarrow> arg" where
  "word w = Str (u w)"

definition num :: "int \<Rightarrow> arg" where
  "num i = Str (u (py_str_int i))"

text \<open>The loop over \<open>mapping.items()\<close>.\<close>

definition items_args :: "(arg \<times> arg) list \<Rightarrow> arg list" where
  "items_args mapping = concat (map (\<lambda>(k, v). [k, v]) mapping)"

section \<open>Queueing\<close>

definition pl_queue :: "arg list \<Rightarrow> 'c pipeline \<Rightarrow> 'c pipeline" where
  "pl_queue args p = p\<lparr>pl_commands := pl_commands p @ [args]\<rparr>"

definition pl_ping :: "'c pipeline \<Rightarrow> 'c pipeline" where
  "pl_ping = pl_queue [word ''PING'']"

definition pl_get :: "arg \<Rightarrow> 'c pipeline \<Rightarrow> 'c pipeline" where
  "pl_get key = pl_queue [word ''GET'', key]"

definition pl_set :: "arg \<Rightarrow> arg \<Rightarrow> int option \<Rightarrow> int option \<Rightarrow> 'c pipeline \<Rightarrow> 'c pipeline" where
  "pl_set key value ex px p = (let args = [word ''SET'', key, value] @
     (case ex of Some n \<Rightarrow> [word ''EX'', num n]
      | None \<Rightarrow> (case px of Some n \<Rightarrow> [word ''PX'', num n] | None \<Rightarrow> []))
   in p\<lparr>pl_commands := pl_commands p @ [args]\<rparr>)"

definition pl_mget :: "arg list \<Rightarrow> 'c pipeline \<Rightarrow> 'c pipeline" where
  "pl_mget keys = pl_queue (word ''MGET'' # keys)"

definition pl_delete :: "arg list \<Rightarrow> 'c pipeline \<Rightarrow> 'c pipeline" where
  "pl_delete keys = pl_queue (word ''DEL'' # keys)"

definition pl_exists :: "arg list \<Rightarrow> 'c pipeline \<Rightarrow> 'c pipeline" where
  "pl_exists keys = pl_queue (word ''EXISTS'' # keys)"

definition pl_mset :: "(arg \<times> arg) list \<Rightarrow> 'c pipeline \<Rightarrow> 'c pipeline" where
  "pl_mset mapping = pl_queue (word ''MSET'' # items_args mapping)"

definition pl_incr :: "arg \<Rightarrow> int \<Rightarrow> 'c pipeline \<Rightarrow> 'c pipeline" where
  "pl_incr key amount = (if amount = 1 then pl_queue [word ''INCR'', key] else pl_queue [word ''INCRBY'', key, num amount])"

definition pl_incrby :: "arg \<Rightarrow> int \<Rightarrow> 'c pipeline \<Rightarrow> 'c pipeline" where
  "pl_incrby key amount = pl_incr key amount"

definition pl_decr :: "arg \<Rightarrow> int \<Rightarrow> 'c pipeline \<Rightarrow> 'c pipeline" where
  "pl_decr key amount = (if amount = 1 then pl_queue [word ''DECR'', key] else pl_queue [word ''DECRBY'', key, num amount])"

definition pl_decrby :: "arg \<Rightarrow> int \<Rightarrow> 'c pipeline \<Rightarrow> 'c pipeline" where
  "pl_decrby key amount = pl_decr key amount"

definition pl_append :: "arg \<Rightarrow> arg \<Rightarrow> 'c pipeline \<Rightarrow> 'c pipeline" where
  "pl_append key value = pl_queue [word ''APPEND'', key, value]"

definition pl_strlen :: "arg \<Rightarrow> 'c pipeline \<Rightarrow> 'c pipeline" where
  "pl_strlen key = pl_queue [word ''STRLEN'', key]"

definition pl_expire :: "arg \<Rightarrow> int \<Rightarrow> 'c pipeline \<Rightarrow> 'c pipeline" where
  "pl_expire key seconds = pl_queue [word ''EXPIRE'', key, num seconds]"

definition pl_pexpire :: "arg \<Rightarrow> int \<Rightarrow> 'c pipeline \<Rightarrow> 'c pipeline" where
  "pl_pexpire key milliseconds = pl_queue [word ''PEXPIRE'', key, num milliseconds]"

definition pl_expireat :: "arg \<Rightarrow> int \<Rightarrow> 'c pipeline \<Rightarrow> 'c pipeline" where
  "pl_expireat key timestamp = pl_queue [word ''EXPIREAT'', key, num timestamp]"

definition pl_pexpireat :: "arg \<Rightarrow> int \<Rightarrow> 'c pipeline \<Rightarrow> 'c pipeline" where
  "pl_pexpireat key timestamp_ms = pl_queue [word ''PEXPIREAT'', key, num timestamp_ms]"

definition pl_ttl :: "arg \<Rightarrow> 'c pipeline \<Rightarrow> 'c pipeline" where
  "pl_ttl key = pl_queue [word ''TTL'', key]"

definition pl_pttl :: "arg \<Rightarrow> 'c pipeline \<Rightarrow> 'c pipeline" where
  "pl_pttl key = pl_queue [word ''PTTL'', key]"

definition pl_persist :: "arg \<Rightarrow> 'c pipeline \<Rightarrow> 'c pipeline" where
  "pl_persist key = pl_queue [word ''PERSIST'', key]"

definition pl_dbsize :: "'c pipeline \<Rightarrow> 'c pipeline" where
  "pl_dbsize = pl_queue [word ''DBSIZE'']"

definition pl_type :: "arg \<Rightarrow> 'c pipeline \<Rightarrow> 'c pipeline" where
  "pl_type key = pl_queue [word ''TYPE'', key]"

definition pl_flushdb :: "'c pipeline \<Rightarrow> 'c pipeline" where
  "pl_flushdb = pl_queue [word ''FLUSHDB'']"

definition pl_flushall :: "'c pipeline \<Rightarrow> 'c pipeline" where
  "pl_flushall = pl_queue [word ''FLUSHALL'']"

section \<open>Queueing, asynchronous class\<close>

definition apl_queue :: "arg list \<Rightarrow> 'c pipeline \<Rightarrow> 'c pipeline" where
  "apl_queue args p = p\<lparr>pl_commands := pl_commands p @ [args]\<rparr>"

definition apl_ping :: "'c pipeline \<Rightarrow> 'c pipeline" where
  "apl_ping = apl_queue [word ''PING'']"

definition apl_get :: "arg \<Rightarrow> 'c pipeline \<Rightarrow> 'c pipeline" where
  "apl_get key = apl_queue [word ''GET'', key]"

definition apl_set :: "arg \<Rightarrow> arg \<Rightarrow> int option \<Rightarrow> int option \<Rightarrow> 'c pipeline \<Rightarrow> 'c pipeline" where
  "apl_set key value ex px p = (let args = [word ''SET'', key, value] @
     (case ex of Some n \<Rightarrow> [word ''EX'', num n]
      | None \<Rightarrow> (case px of Some n \<Rightarrow> [word ''PX'', num n] | None \<Rightarrow> []))
   in p\<lparr>pl_commands := pl_commands p @ [args]\<rparr>)"

definition apl_mget :: "arg list \<Rightarrow> 'c pipeline \<Rightarrow> 'c pipeline" where
  "apl_mget keys = apl_queue (word ''MGET'' # keys)"

definition apl_delete :: "arg list \<Rightarrow> 'c pipeline \<Rightarrow> 'c pipeline" where
  "apl_delete keys = apl_queue (word ''DEL'' # keys)"

definition apl_exists :: "arg list \<Rightarrow> 'c pipeline \<Rightarrow> 'c pipeline" where
  "apl_exists keys = apl_queue (word ''EXISTS'' # keys)"

definition apl_mset :: "(arg \<times> arg) list \<Rightarrow> 'c pipeline \<Rightarrow> 'c pipeline" where
  "apl_mset mapping = apl_queue (word ''MSET'' # items_args mapping)"

definition apl_incr :: "arg \<Rightarrow> int \<Rightarrow> 'c pipeline \<Rightarrow> 'c pipeline" where
  "apl_incr key amount = (if amount = 1 then apl_queue [word ''INCR'', key] else apl_queue [word ''INCRBY'', key, num amount])"

definition apl_incrby :: "arg \<Rightarrow> int \<Rightarrow> 'c pipeline \<Rightarrow> 'c pipeline" where
  "apl_incrby key amount = apl_incr key amount"

definition apl_decr :: "arg \<Rightarrow> int \<Rightarrow> 'c pipeline \<Rightarrow> 'c pipeline" where
  "apl_decr key amount = (if amount = 1 then apl_queue [word ''DECR'', key] else apl_queue [word ''DECRBY'', key, num amount])"

definition apl_decrby :: "arg \<Rightarrow> int \<Rightarrow> 'c pipeline \<Rightarrow> 'c pipeline" where
  "apl_decrby key amount = apl_decr key amount"

definition apl_append :: "arg \<Rightarrow> arg \<Rightarrow> 'c pipeline \<Rightarrow> 'c pipeline" where
  "apl_append key value = apl_queue [word ''APPEND'', key, value]"

definition apl_strlen :: "arg \<Rightarrow> 'c pipeline \<Rightarrow> 'c pipeline" where
  "apl_strlen key = apl_queue [word ''STRLEN'', key]"

definition apl_expire :: "arg \<Rightarrow> int \<Rightarrow> 'c pipeline \<Rightarrow> 'c pipeline" where
  "apl_expire key seconds = apl_queue [word ''EXPIRE'', key, num seconds]"

definition apl_pexpire :: "arg \<Rightarrow> int \<Rightarrow> 'c pipeline \<Rightarrow> 'c pipeline" where
  "apl_pexpire key milliseconds = apl_queue [word ''PEXPIRE'', key, num milliseconds]"

definition apl_expireat :: "arg \<Rightarrow> int \<Rightarrow> 'c pipeline \<Rightarrow> 'c pipeline" where
  "apl_expireat key timestamp = apl_queue [word ''EXPIREAT'', key, num timestamp]"

definition apl_pexpireat :: "arg \<Rightarrow> int \<Rightarrow> 'c pipeline \<Rightarrow> 'c pipeline" where
  "apl_pexpireat key timestamp_ms = apl_queue [word ''PEXPIREAT'', key, num timestamp_ms]"

definition apl_ttl :: "arg \<Rightarrow> 'c pipeline \<Rightarrow> 'c pipeline" where
  "apl_ttl key = apl_queue [word ''TTL'', key]"

definition apl_pttl :: "arg \<Rightarrow> 'c pipeline \<Rightarrow> 'c pipeline" where
  "apl_pttl key = apl_queue [word ''PTTL'', key]"

definition apl_persist :: "arg \<Rightarrow> 'c pipeline \<Rightarrow> 'c pipeline" where
  "apl_persist key = apl_queue [word ''PERSIST'', key]"

definition apl_dbsize :: "'c pipeline \<Rightarrow> 'c pipeline" where
  "apl_dbsize = apl_queue [word ''DBSIZE'']"

definition apl_type :: "arg \<Rightarrow> 'c pipeline \<Rightarrow> 'c pipeline" where
  "apl_type key = apl_queue [word ''TYPE'', key]"

definition apl_flushdb :: "'c pipeline \<Rightarrow> 'c pipeline" where
  "apl_flushdb = apl_queue [word ''FLUSHDB'']"

definition apl_flushall :: "'c pipeline \<Rightarrow> 'c pipeline" where
  "apl_flushall = apl_queue [word ''FLUSHALL'']"

section \<open>Execution\<close>

text \<open>The commands are cleared before they are sent. The replies are read one by one; an exception
  leaves the loop.\<close>

definition pl_op :: "('c, exc, 'a) py \<Rightarrow> ('c pipeline, exc, 'a) py" where
  "pl_op m p = (case m (pl_conn p) of (r, c) \<Rightarrow> (r, p\<lparr>pl_conn := c\<rparr>))"

definition pl_execute :: "nat \<Rightarrow> (connection pipeline, exc, resp list) py" where
  "pl_execute depth = bindE (getsE pl_commands) (\<lambda>commands.
     if commands = [] then ret []
     else bindE (liftE (encode_commands commands)) (\<lambda>packed.
          bindE (modifyE (\<lambda>p. p\<lparr>pl_commands := []\<rparr>)) (\<lambda>_.
          bindE (pl_op (send_packed packed)) (\<lambda>_.
          pl_op (repeatM (length commands) (read_response depth))))))"

definition apl_execute :: "nat \<Rightarrow> (stream reader pipeline, exc, resp list) py" where
  "apl_execute depth = bindE (getsE pl_commands) (\<lambda>commands.
     if commands = [] then ret []
     else bindE (liftE (encode_commands commands)) (\<lambda>packed.
          bindE (modifyE (\<lambda>p. p\<lparr>pl_commands := []\<rparr>)) (\<lambda>_.
          bindE (pl_op (write_drain packed)) (\<lambda>_.
          pl_op (repeatM (length commands) (a_parse_frame depth))))))"

text \<open>\<open>__len__\<close>, and \<open>__exit__\<close> and \<open>__aexit__\<close>.\<close>

definition pl_len :: "'c pipeline \<Rightarrow> nat" where
  "pl_len p = length (pl_commands p)"

definition apl_len :: "'c pipeline \<Rightarrow> nat" where
  "apl_len p = length (pl_commands p)"


definition pl_exit :: "'c pipeline \<Rightarrow> 'c pipeline" where
  "pl_exit p = p\<lparr>pl_commands := []\<rparr>"

definition apl_exit :: "'c pipeline \<Rightarrow> 'c pipeline" where
  "apl_exit p = p\<lparr>pl_commands := []\<rparr>"

section \<open>Theorems about pipelines\<close>

lemma pl_execute_run:
  assumes "pl_commands p \<noteq> []" and "encode_commands (pl_commands p) = Inr packed"
    and "bindE (send_packed packed) (\<lambda>_. repeatM (length (pl_commands p)) (read_response d)) (pl_conn p) = (r, c)"
  shows "pl_execute d p = (r, \<lparr>pl_conn = c, pl_commands = []\<rparr>)"
  using assms by (cases p) (auto simp: pl_execute_def bindE_run pl_op_def split: prod.splits sum.splits)

lemma apl_execute_run:
  assumes "pl_commands p \<noteq> []" and "encode_commands (pl_commands p) = Inr packed"
    and "bindE (write_drain packed) (\<lambda>_. repeatM (length (pl_commands p)) (a_parse_frame d)) (pl_conn p) = (r, c)"
  shows "apl_execute d p = (r, \<lparr>pl_conn = c, pl_commands = []\<rparr>)"
  using assms by (cases p) (auto simp: apl_execute_def bindE_run pl_op_def split: prod.splits sum.splits)

text \<open>C3: \<open>execute\<close> on an open connection sends the queued commands as one buffer, each encoded in the order
  it was queued, and returns one reply per command in that order; the pipeline is empty afterwards
  and the connection has consumed exactly those replies.\<close>

theorem pipeline_execute:
  assumes "pl_commands p \<noteq> []" and "encode_commands (pl_commands p) = Inr packed"
    and "conn_ready (pl_conn p)" and "conn_view (pl_conn p) = (concat (map resp_wire vs) @ i, out, decoding)"
    and "length vs = length (pl_commands p)" and "list_all (\<lambda>v. reply_ok v \<and> resp_depth v \<le> d) vs"
    and "list_all2 (\<lambda>v w. decode_reply decoding v = Inr w) vs ws"
  shows "\<exists>c. pl_execute d p = (Inr ws, \<lparr>pl_conn = c, pl_commands = []\<rparr>) \<and> conn_ready c \<and>
    conn_view c = (i, out @ packed, decoding)"
proof -
  obtain c where c: "bindE (send_packed packed) (\<lambda>_. repeatM (length vs) (read_response d)) (pl_conn p) = (Inr ws, c)"
      "conn_ready c" "conn_view c = (i, out @ packed, decoding)"
    using conn.exchange [OF assms(3,4,6,7)] by blast
  with pl_execute_run [OF assms(1,2), of d "Inr ws" c] assms(5) show ?thesis by auto
qed

lemma pipeline_execute_witness:
  "\<exists>c. pl_execute 1 (pl_get (word ''a'') (pl_set (word ''a'') (Bytes ''1'') None None
       \<lparr>pl_conn = local_connection (Some \<lparr>rx = [Data (''+OK'' @ crlf @ ''$1''), Data (crlf @ ''1'' @ crlf)], tx = [], sent = []\<rparr>),
        pl_commands = []\<rparr>))
     = (Inr [RStr (u ''OK''), RBytes ''1''], \<lparr>pl_conn = c, pl_commands = []\<rparr>) \<and> conn_ready c"
proof -
  let ?p = "pl_get (word ''a'') (pl_set (word ''a'') (Bytes ''1'') None None
    \<lparr>pl_conn = local_connection (Some \<lparr>rx = [Data (''+OK'' @ crlf @ ''$1''), Data (crlf @ ''1'' @ crlf)], tx = [], sent = []\<rparr>),
     pl_commands = []\<rparr>)"
  let ?vs = "[RStr (u ''OK''), RBytes ''1'']"
  let ?w = "''*3'' @ crlf @ ''$3'' @ crlf @ ''SET'' @ crlf @ ''$1'' @ crlf @ ''a'' @ crlf @ ''$1'' @ crlf @ ''1'' @ crlf @
    ''*2'' @ crlf @ ''$3'' @ crlf @ ''GET'' @ crlf @ ''$1'' @ crlf @ ''a'' @ crlf"
  have 1: "pl_commands ?p \<noteq> []" by (simp add: pl_get_def pl_queue_def)
  have 2: "encode_commands (pl_commands ?p) = Inr ?w" by code_simp
  have 3: "conn_ready (pl_conn ?p)" by code_simp
  have 4: "conn_view (pl_conn ?p) = (concat (map resp_wire ?vs) @ [], [], False)" by code_simp
  have 5: "length ?vs = length (pl_commands ?p)" by code_simp
  have 6: "list_all (\<lambda>v. reply_ok v \<and> resp_depth v \<le> 1) ?vs" by code_simp
  have 7: "list_all2 (\<lambda>v w. decode_reply False v = Inr w) ?vs ?vs" by simp
  from pipeline_execute [OF 1 2 3 4 5 6 7] show ?thesis by blast
qed

text \<open>The same holds for \<open>AsyncPipeline.execute\<close> on its transport (whose replies are never decoded).\<close>

theorem async_pipeline_execute:
  assumes "pl_commands p \<noteq> []" and "encode_commands (pl_commands p) = Inr packed"
    and "stream_ready (pl_conn p)" and "stream_view (pl_conn p) = (concat (map resp_wire vs) @ i, out, False)"
    and "length vs = length (pl_commands p)" and "list_all (\<lambda>v. reply_ok v \<and> resp_depth v \<le> d) vs"
  shows "\<exists>c. apl_execute d p = (Inr vs, \<lparr>pl_conn = c, pl_commands = []\<rparr>) \<and> stream_ready c \<and>
    stream_view c = (i, out @ packed, False)"
proof -
  have "list_all2 (\<lambda>v w. decode_reply False v = Inr w) vs vs" by (simp add: list.rel_refl)
  then obtain c where c: "bindE (write_drain packed) (\<lambda>_. repeatM (length vs) (a_parse_frame d)) (pl_conn p) = (Inr vs, c)"
      "stream_ready c" "stream_view c = (i, out @ packed, False)"
    using transport.exchange [OF assms(3,4,6)] by blast
  with apl_execute_run [OF assms(1,2), of d "Inr vs" c] assms(5) show ?thesis by auto
qed

lemma async_pipeline_execute_witness:
  "\<exists>c. apl_execute 1 (apl_dbsize (apl_ping
       \<lparr>pl_conn = AsyncRespReader \<lparr>st_pending = [''+PO'', ''NG'' @ crlf @ '':0'' @ crlf], st_end = Eof,
          st_written = [], st_drains = [], st_closing = False\<rparr> 8, pl_commands = []\<rparr>))
     = (Inr [RStr (u ''PONG''), RInt 0], \<lparr>pl_conn = c, pl_commands = []\<rparr>) \<and> stream_ready c"
proof -
  let ?p = "apl_dbsize (apl_ping
     \<lparr>pl_conn = AsyncRespReader \<lparr>st_pending = [''+PO'', ''NG'' @ crlf @ '':0'' @ crlf], st_end = Eof,
        st_written = [], st_drains = [], st_closing = False\<rparr> 8, pl_commands = []\<rparr>)"
  let ?vs = "[RStr (u ''PONG''), RInt 0]"
  let ?w = "''*1'' @ crlf @ ''$4'' @ crlf @ ''PING'' @ crlf @ ''*1'' @ crlf @ ''$6'' @ crlf @ ''DBSIZE'' @ crlf"
  have 1: "pl_commands ?p \<noteq> []" by (simp add: apl_dbsize_def apl_queue_def)
  have 2: "encode_commands (pl_commands ?p) = Inr ?w" by code_simp
  have 3: "stream_ready (pl_conn ?p)" by code_simp
  have 4: "stream_view (pl_conn ?p) = (concat (map resp_wire ?vs) @ [], [], False)" by code_simp
  have 5: "length ?vs = length (pl_commands ?p)" by code_simp
  have 6: "list_all (\<lambda>v. reply_ok v \<and> resp_depth v \<le> 1) ?vs" by code_simp
  from async_pipeline_execute [OF 1 2 3 4 5 6] show ?thesis by blast
qed

text \<open>C39: When a command of the batch is answered with an error, \<open>execute\<close> raises it after the replies
  before it, leaves the replies behind it unread and the connection open: whatever is asked next on
  that connection is answered with one of them.\<close>

theorem pipeline_error_desynchronises:
  assumes "encode_commands (pl_commands p) = Inr packed" and "conn_ready (pl_conn p)"
    and "conn_view (pl_conn p) = (concat (map resp_wire vs) @ ''-'' @ b @ crlf @ resp_wire v @ i, out, decoding)"
    and "list_all (\<lambda>v. reply_ok v \<and> resp_depth v \<le> Suc d) vs"
    and "list_all2 (\<lambda>v w. decode_reply decoding v = Inr w) vs ws"
    and "utf8_encode t = Inr b" and "find_crlf b = None"
    and "length vs < length (pl_commands p)"
    and "reply_ok v" and "resp_depth v \<le> Suc d" and "encode_command args = Inr w"
  shows "\<exists>c c'. pl_execute (Suc d) p = (Inl (ResponseError t), \<lparr>pl_conn = c, pl_commands = []\<rparr>) \<and>
    is_connected c \<and>
    bindE (send_command args) (\<lambda>_. read_response (Suc d)) c = (decode_reply decoding v, c')"
proof -
  obtain n where n: "length (pl_commands p) = length vs + Suc n"
    using assms(8) by (metis less_iff_Suc_add add_Suc_right)
  obtain c where c: "bindE (send_packed packed) (\<lambda>_. repeatM (length vs + Suc n) (read_response (Suc d))) (pl_conn p) =
      (Inl (ResponseError t), c)" "conn_ready c" "conn_view c = (resp_wire v @ i, out @ packed, decoding)"
    using conn.exchange_error [OF assms(2,3,4,5,6,7)] by blast
  have "pl_commands p \<noteq> []" using assms(8) by auto
  from pl_execute_run [OF this assms(1)] c(1) n
  have run: "pl_execute (Suc d) p = (Inl (ResponseError t), \<lparr>pl_conn = c, pl_commands = []\<rparr>)" by simp
  have "is_connected c"
    using c(2) by (auto simp: conn_ready_def is_connected_def split: option.splits)
  moreover obtain c' where "bindE (send_command args) (\<lambda>_. read_response (Suc d)) c = (decode_reply decoding v, c')"
    using conn.round_trip [OF c(2,3) assms(9,10), of w] calculation assms(11)
    by (auto simp: bindE_run send_command_def send_packed_def)
  ultimately show ?thesis using run by blast
qed

lemma pipeline_error_desynchronises_witness:
  "\<exists>c c'. pl_execute (Suc 0) (pl_get (word ''b'') (pl_incr (word ''a'') 1
       \<lparr>pl_conn = local_connection (Some \<lparr>rx = [Data (''-ERR x'' @ crlf @ ''$1'' @ crlf @ ''B'' @ crlf)], tx = [], sent = []\<rparr>),
        pl_commands = []\<rparr>))
     = (Inl (ResponseError (u ''ERR x'')), \<lparr>pl_conn = c, pl_commands = []\<rparr>) \<and> is_connected c \<and>
   bindE (send_command [word ''STRLEN'', word ''c'']) (\<lambda>_. read_response (Suc 0)) c = (Inr (RBytes ''B''), c')"
proof -
  let ?p = "pl_get (word ''b'') (pl_incr (word ''a'') 1
    \<lparr>pl_conn = local_connection (Some \<lparr>rx = [Data (''-ERR x'' @ crlf @ ''$1'' @ crlf @ ''B'' @ crlf)], tx = [], sent = []\<rparr>),
     pl_commands = []\<rparr>)"
  let ?w = "''*2'' @ crlf @ ''$4'' @ crlf @ ''INCR'' @ crlf @ ''$1'' @ crlf @ ''a'' @ crlf @
    ''*2'' @ crlf @ ''$3'' @ crlf @ ''GET'' @ crlf @ ''$1'' @ crlf @ ''b'' @ crlf"
  have 1: "encode_commands (pl_commands ?p) = Inr ?w" by code_simp
  have 2: "conn_ready (pl_conn ?p)" by code_simp
  have 3: "conn_view (pl_conn ?p) = (concat (map resp_wire []) @ ''-'' @ ''ERR x'' @ crlf @
      resp_wire (RBytes ''B'') @ [], [], False)" by code_simp
  have 4: "utf8_encode (u ''ERR x'') = Inr ''ERR x''" "find_crlf ''ERR x'' = None" by code_simp+
  have 5: "length ([] :: resp list) < length (pl_commands ?p)" by code_simp
  have 6: "encode_command [word ''STRLEN'', word ''c''] =
      Inr (''*2'' @ crlf @ ''$6'' @ crlf @ ''STRLEN'' @ crlf @ ''$1'' @ crlf @ ''c'' @ crlf)" by code_simp
  from pipeline_error_desynchronises [OF 1 2 3 _ _ 4 5 _ _ 6, of 0 "[]"] show ?thesis by simp
qed

text \<open>Every method of \<open>AsyncPipeline\<close> queues the same command as the method of the same name of
  \<open>Pipeline\<close>.\<close>

theorem pipelines_agree:
  "(apl_ping :: 'c pipeline \<Rightarrow> 'c pipeline) = pl_ping  \<and>
   (apl_get key :: 'c pipeline \<Rightarrow> 'c pipeline) = pl_get key \<and>
   (apl_set key value ex px :: 'c pipeline \<Rightarrow> 'c pipeline) = pl_set key value ex px \<and>
   (apl_mget keys :: 'c pipeline \<Rightarrow> 'c pipeline) = pl_mget keys \<and>
   (apl_delete keys :: 'c pipeline \<Rightarrow> 'c pipeline) = pl_delete keys \<and>
   (apl_exists keys :: 'c pipeline \<Rightarrow> 'c pipeline) = pl_exists keys \<and>
   (apl_mset mapping :: 'c pipeline \<Rightarrow> 'c pipeline) = pl_mset mapping \<and>
   (apl_incr key amount :: 'c pipeline \<Rightarrow> 'c pipeline) = pl_incr key amount \<and>
   (apl_incrby key amount :: 'c pipeline \<Rightarrow> 'c pipeline) = pl_incrby key amount \<and>
   (apl_decr key amount :: 'c pipeline \<Rightarrow> 'c pipeline) = pl_decr key amount \<and>
   (apl_decrby key amount :: 'c pipeline \<Rightarrow> 'c pipeline) = pl_decrby key amount \<and>
   (apl_append key value :: 'c pipeline \<Rightarrow> 'c pipeline) = pl_append key value \<and>
   (apl_strlen key :: 'c pipeline \<Rightarrow> 'c pipeline) = pl_strlen key \<and>
   (apl_expire key seconds :: 'c pipeline \<Rightarrow> 'c pipeline) = pl_expire key seconds \<and>
   (apl_pexpire key milliseconds :: 'c pipeline \<Rightarrow> 'c pipeline) = pl_pexpire key milliseconds \<and>
   (apl_expireat key timestamp :: 'c pipeline \<Rightarrow> 'c pipeline) = pl_expireat key timestamp \<and>
   (apl_pexpireat key timestamp_ms :: 'c pipeline \<Rightarrow> 'c pipeline) = pl_pexpireat key timestamp_ms \<and>
   (apl_ttl key :: 'c pipeline \<Rightarrow> 'c pipeline) = pl_ttl key \<and>
   (apl_pttl key :: 'c pipeline \<Rightarrow> 'c pipeline) = pl_pttl key \<and>
   (apl_persist key :: 'c pipeline \<Rightarrow> 'c pipeline) = pl_persist key \<and>
   (apl_dbsize :: 'c pipeline \<Rightarrow> 'c pipeline) = pl_dbsize  \<and>
   (apl_type key :: 'c pipeline \<Rightarrow> 'c pipeline) = pl_type key \<and>
   (apl_flushdb :: 'c pipeline \<Rightarrow> 'c pipeline) = pl_flushdb  \<and>
   (apl_flushall :: 'c pipeline \<Rightarrow> 'c pipeline) = pl_flushall "
  by (simp add: fun_eq_iff apl_ping_def pl_ping_def apl_get_def pl_get_def apl_set_def pl_set_def
    apl_mget_def pl_mget_def apl_delete_def pl_delete_def apl_exists_def pl_exists_def apl_mset_def
    pl_mset_def apl_incr_def pl_incr_def apl_incrby_def pl_incrby_def apl_decr_def pl_decr_def
    apl_decrby_def pl_decrby_def apl_append_def pl_append_def apl_strlen_def pl_strlen_def
    apl_expire_def pl_expire_def apl_pexpire_def pl_pexpire_def apl_expireat_def pl_expireat_def
    apl_pexpireat_def pl_pexpireat_def apl_ttl_def pl_ttl_def apl_pttl_def pl_pttl_def apl_persist_def
    pl_persist_def apl_dbsize_def pl_dbsize_def apl_type_def pl_type_def apl_flushdb_def pl_flushdb_def
    apl_flushall_def pl_flushall_def apl_queue_def pl_queue_def)

end
