(* ===== verification/Values.thy ===== *)
theory Values
  imports Tags Pipeline
begin

text \<open>
  What the two clients do with arguments and replies, without talking to the server: packing vectors,
  \<open>str\<close> and \<open>repr\<close> of replies, and the shaping of search results (\<open>VectorMatch\<close> and the parsing
  loops of \<open>vsearch\<close>, \<open>vsearch_batch\<close>, \<open>vstats\<close> and \<open>vindex_info\<close>, which the two clients share line by line).
  Floating-point numbers are a type variable \<open>'f\<close>: the code packs, prints and parses them and
  nothing else.
\<close>

section \<open>What is left to Python's library\<close>

text \<open>SHA-256, \<open>str.lower\<close>, \<open>repr\<close> of a \<open>str\<close>, \<open>struct.pack("<f", x)\<close>, \<open>str(x)\<close>, \<open>float(s)\<close>, \<open>float(i)\<close>
  and \<open>0.0\<close>.\<close>

record 'f env =
  e_sha256 :: "bytes \<Rightarrow> bytes"
  e_lower :: "ustr \<Rightarrow> ustr"
  e_repr :: "ustr \<Rightarrow> ustr"
  e_pack :: "'f \<Rightarrow> exc + bytes"
  e_str :: "'f \<Rightarrow> ustr"
  e_float_text :: "ustr \<Rightarrow> exc + 'f"
  e_float_int :: "int \<Rightarrow> exc + 'f"
  e_zero :: 'f

section \<open>Vectors\<close>

text \<open>A sequence of floats, raw bytes, or an argument of any other type.\<close>

datatype 'f vector = Floats "'f list" | Raw bytes | NotAVector

fun pack_floats :: "'f env \<Rightarrow> 'f list \<Rightarrow> exc + bytes" where
  "pack_floats env [] = Inr []"
| "pack_floats env (x # xs) =
     (case e_pack env x of Inl e \<Rightarrow> Inl e | Inr b \<Rightarrow> map_sumE (\<lambda>bs. b @ bs) (pack_floats env xs))"

definition vector_bytes :: "'f env \<Rightarrow> 'f vector \<Rightarrow> exc + bytes" where
  "vector_bytes env v = (case v of
      Floats xs \<Rightarrow> pack_floats env xs
    | Raw b \<Rightarrow> Inr b
    | NotAVector \<Rightarrow> Inl BuiltinTypeError)"

text \<open>\<open>dim\<close> in \<open>vadd\<close>.\<close>

definition vector_dim :: "'f vector \<Rightarrow> nat" where
  "vector_dim v = (case v of Floats xs \<Rightarrow> length xs | Raw b \<Rightarrow> length b div 4 | NotAVector \<Rightarrow> 0)"

section \<open>Text of replies\<close>

definition hex_digit :: "nat \<Rightarrow> char" where
  "hex_digit n = ''0123456789abcdef'' ! n"

text \<open>\<open>repr\<close> of a byte string.\<close>

definition repr_byte :: "char \<Rightarrow> char \<Rightarrow> string" where
  "repr_byte q c = (let n = of_char c :: nat in
     if c = q \<or> c = CHR 0x5C then [CHR 0x5C, c]
     else if n = 9 then [CHR 0x5C, CHR ''t'']
     else if n = 10 then [CHR 0x5C, CHR ''n'']
     else if n = 13 then [CHR 0x5C, CHR ''r'']
     else if n < 32 \<or> 127 \<le> n then [CHR 0x5C, CHR ''x'', hex_digit (n div 16), hex_digit (n mod 16)]
     else [c])"

definition repr_bytes :: "bytes \<Rightarrow> string" where
  "repr_bytes b =
     (let q = if CHR 0x27 \<in> set b \<and> CHR 0x22 \<notin> set b then CHR 0x22 else CHR 0x27
      in [CHR ''b'', q] @ concat (map (repr_byte q) b) @ [q])"

fun repr_resp :: "(ustr \<Rightarrow> ustr) \<Rightarrow> resp \<Rightarrow> ustr" where
  "repr_resp rp (RStr s) = rp s"
| "repr_resp rp (RBytes b) = u (repr_bytes b)"
| "repr_resp rp (RInt i) = u (py_str_int i)"
| "repr_resp rp RNone = u ''None''"
| "repr_resp rp (RList xs) = u ''['' @ concat (case map (repr_resp rp) xs of
      [] \<Rightarrow> [] | r # rs \<Rightarrow> r # map (\<lambda>r. u '', '' @ r) rs) @ u '']''"

definition str_resp :: "'f env \<Rightarrow> resp \<Rightarrow> ustr" where
  "str_resp env v = (case v of RStr s \<Rightarrow> s | _ \<Rightarrow> repr_resp (e_repr env) v)"

text \<open>\<open>int(result) if isinstance(result, int) else d\<close>.\<close>

definition int_or :: "int \<Rightarrow> resp \<Rightarrow> int" where
  "int_or d v = (case v of RInt i \<Rightarrow> i | _ \<Rightarrow> d)"

definition list_or_empty :: "resp \<Rightarrow> resp list" where
  "list_or_empty v = (case v of RList xs \<Rightarrow> xs | _ \<Rightarrow> [])"

text \<open>\<open>result == "OK"\<close>, and \<open>result in ("OK", b"OK", True)\<close> (\<open>1 == True\<close>).\<close>

definition is_ok_text :: "resp \<Rightarrow> bool" where
  "is_ok_text v \<longleftrightarrow> v = RStr (u ''OK'')"

definition is_ok_or_true :: "resp \<Rightarrow> bool" where
  "is_ok_or_true v \<longleftrightarrow> v = RStr (u ''OK'') \<or> v = RBytes ''OK'' \<or> v = RInt 1"

definition text_or :: "'f env \<Rightarrow> ustr \<Rightarrow> resp \<Rightarrow> ustr" where
  "text_or env d v = (case v of
      RBytes b \<Rightarrow> utf8_decode_replace b
    | RNone \<Rightarrow> d
    | _ \<Rightarrow> str_resp env v)"

section \<open>Search results\<close>

text \<open>A value as the \<open>VectorMatch\<close> constructor may be given it.\<close>

datatype 'f pyval = PStr ustr | PBytes bytes | PNone | PInt int | PFloat 'f | PTuple "'f pyval list"

record 'f vmatch =
  m_id :: "'f pyval"
  m_score :: "'f pyval"
  m_payload :: "'f pyval"
  m_parent_key :: "'f pyval"

text \<open>\<open>float(x)\<close>.\<close>

definition py_float :: "'f env \<Rightarrow> 'f pyval \<Rightarrow> exc + 'f" where
  "py_float env x = (case x of
      PFloat f \<Rightarrow> Inr f
    | PInt i \<Rightarrow> e_float_int env i
    | PStr s \<Rightarrow> e_float_text env s
    | PBytes b \<Rightarrow> (case utf8_decode b of Inl _ \<Rightarrow> Inl BuiltinValueError | Inr s \<Rightarrow> e_float_text env s)
    | _ \<Rightarrow> Inl BuiltinTypeError)"

text \<open>\<open>VectorMatch.__new__\<close>: a tuple in the place of the id is taken apart.\<close>

fun VectorMatch :: "'f env \<Rightarrow> 'f pyval \<Rightarrow> 'f pyval \<Rightarrow> 'f pyval \<Rightarrow> 'f pyval \<Rightarrow> exc + 'f vmatch" where
  "VectorMatch env (PTuple []) score payload parent =
     Inr \<lparr>m_id = PStr [], m_score = PFloat (e_zero env), m_payload = PNone, m_parent_key = PNone\<rparr>"
| "VectorMatch env (PTuple (i # tup)) score payload parent =
     (case (case tup of [] \<Rightarrow> Inr (e_zero env) | s # _ \<Rightarrow> py_float env s) of
        Inl e \<Rightarrow> Inl e
      | Inr sc \<Rightarrow>
          VectorMatch env i (PFloat sc) (if length tup > 1 then tup ! 1 else PNone)
            (if length tup > 2 then tup ! 2 else PNone))"
| "VectorMatch env i score payload parent =
     Inr \<lparr>m_id = i, m_score = score, m_payload = payload, m_parent_key = parent\<rparr>"

text \<open>The 3-tuple itself, and \<open>__getitem__\<close> with an integer.\<close>

definition match_tuple :: "'f vmatch \<Rightarrow> 'f pyval list" where
  "match_tuple m = [m_id m, m_score m, m_payload m]"

definition match_getitem :: "int \<Rightarrow> 'f vmatch \<Rightarrow> exc + 'f pyval" where
  "match_getitem index m =
     (if index = 3 then Inr (m_parent_key m)
      else if 0 \<le> index \<and> index < 3 then Inr (match_tuple m ! nat index)
      else if -3 \<le> index \<and> index < 0 then Inr (match_tuple m ! nat (index + 3))
      else Inl BuiltinIndexError)"

text \<open>\<open>repr\<close> and \<open>str\<close> of a component, and \<open>__repr__\<close>.\<close>

fun repr_pyval :: "'f env \<Rightarrow> 'f pyval \<Rightarrow> ustr" where
  "repr_pyval env (PStr s) = e_repr env s"
| "repr_pyval env (PBytes b) = u (repr_bytes b)"
| "repr_pyval env PNone = u ''None''"
| "repr_pyval env (PInt i) = u (py_str_int i)"
| "repr_pyval env (PFloat f) = e_str env f"
| "repr_pyval env (PTuple xs) = u ''('' @ (case map (repr_pyval env) xs of
      [] \<Rightarrow> [] | [r] \<Rightarrow> r @ u '','' | r # rs \<Rightarrow> r @ concat (map (\<lambda>r. u '', '' @ r) rs)) @ u '')''"

definition str_pyval :: "'f env \<Rightarrow> 'f pyval \<Rightarrow> ustr" where
  "str_pyval env v = (case v of PStr s \<Rightarrow> s | _ \<Rightarrow> repr_pyval env v)"

definition match_repr :: "'f env \<Rightarrow> 'f vmatch \<Rightarrow> ustr" where
  "match_repr env m = u ''VectorMatch(id='' @ repr_pyval env (m_id m) @ u '', score='' @ repr_pyval env (m_score m) @
     u '', payload='' @ repr_pyval env (m_payload m) @ u '', parent_key='' @ repr_pyval env (m_parent_key m) @ u '')''"

text \<open>\<open>x if isinstance(x, (str, bytes)) else str(x)\<close>, and the same for a value that may be missing.\<close>

definition text_value :: "'f env \<Rightarrow> resp \<Rightarrow> 'f pyval" where
  "text_value env v = (case v of RStr s \<Rightarrow> PStr s | RBytes b \<Rightarrow> PBytes b | _ \<Rightarrow> PStr (str_resp env v))"

definition optional_value :: "'f env \<Rightarrow> resp list \<Rightarrow> nat \<Rightarrow> 'f pyval" where
  "optional_value env item k =
     (if length item > k then (if item ! k = RNone then PNone else text_value env (item ! k)) else PNone)"

text \<open>The score of \<open>vsearch\<close>, and that of \<open>vsearch_batch\<close>, which goes through \<open>str\<close>.\<close>

definition or_zero :: "'f env \<Rightarrow> exc + 'f \<Rightarrow> 'f" where
  "or_zero env r = (case r of Inl _ \<Rightarrow> e_zero env | Inr f \<Rightarrow> f)"

definition score_of :: "'f env \<Rightarrow> resp \<Rightarrow> 'f" where
  "score_of env v = (case v of
      RBytes b \<Rightarrow> (case utf8_decode b of Inl _ \<Rightarrow> e_zero env | Inr s \<Rightarrow> or_zero env (e_float_text env s))
    | RInt i \<Rightarrow> or_zero env (e_float_int env i)
    | RStr s \<Rightarrow> or_zero env (e_float_text env s)
    | _ \<Rightarrow> e_zero env)"

definition batch_score_of :: "'f env \<Rightarrow> resp \<Rightarrow> 'f" where
  "batch_score_of env v = (case v of
      RBytes b \<Rightarrow> (case utf8_decode b of Inl _ \<Rightarrow> e_zero env | Inr s \<Rightarrow> or_zero env (e_float_text env s))
    | _ \<Rightarrow> or_zero env (e_float_text env (str_resp env v)))"

text \<open>The loop over the results: an entry that is not a list of at least two elements is skipped.\<close>

fun parse_matches :: "'f env \<Rightarrow> resp list \<Rightarrow> exc + 'f vmatch list" where
  "parse_matches env [] = Inr []"
| "parse_matches env (RList (a # b # rest) # items) =
     (case VectorMatch env (text_value env a) (PFloat (score_of env b))
             (optional_value env (a # b # rest) 2) (optional_value env (a # b # rest) 3) of
        Inl e \<Rightarrow> Inl e
      | Inr m \<Rightarrow> map_sumE (\<lambda>ms. m # ms) (parse_matches env items))"
| "parse_matches env (item # items) = parse_matches env items"

type_synonym 'f hit = "'f pyval \<times> 'f \<times> 'f pyval"

fun parse_hits :: "'f env \<Rightarrow> resp list \<Rightarrow> 'f hit list" where
  "parse_hits env [] = []"
| "parse_hits env (RList (a # b # rest) # items) =
     (text_value env a, batch_score_of env b, optional_value env (a # b # rest) 2) # parse_hits env items"
| "parse_hits env (item # items) = parse_hits env items"

definition parse_batch :: "'f env \<Rightarrow> resp list \<Rightarrow> 'f hit list list" where
  "parse_batch env raw_batch = map (\<lambda>raw. case raw of RList items \<Rightarrow> parse_hits env items | _ \<Rightarrow> []) raw_batch"

section \<open>Flat maps\<close>

text \<open>\<open>d[k] = v\<close> on a dictionary in insertion order.\<close>

fun dict_put :: "'k \<Rightarrow> 'v \<Rightarrow> ('k \<times> 'v) list \<Rightarrow> ('k \<times> 'v) list" where
  "dict_put k v [] = [(k, v)]"
| "dict_put k v ((k', v') # d) = (if k' = k then (k, v) # d else (k', v') # dict_put k v d)"

definition key_text :: "'f env \<Rightarrow> resp \<Rightarrow> exc + ustr" where
  "key_text env v = (case v of RBytes b \<Rightarrow> utf8_decode b | _ \<Rightarrow> Inr (str_resp env v))"

text \<open>The loop \<open>for i in range(0, len(raw) - 1, 2)\<close>; \<open>shape\<close> is what is done to the values.\<close>

fun pairs_dict ::
    "'f env \<Rightarrow> (resp \<Rightarrow> resp) \<Rightarrow> resp list \<Rightarrow> (ustr \<times> resp) list \<Rightarrow> exc + (ustr \<times> resp) list" where
  "pairs_dict env shape (k # v # raw) d =
     (case key_text env k of Inl e \<Rightarrow> Inl e | Inr t \<Rightarrow> pairs_dict env shape raw (dict_put t (shape v) d))"
| "pairs_dict env shape _ d = Inr d"

text \<open>\<open>vindex_info\<close> decodes the values that are valid UTF-8.\<close>

definition decode_if_text :: "resp \<Rightarrow> resp" where
  "decode_if_text v = (case v of
      RBytes b \<Rightarrow> (case utf8_decode b of Inl _ \<Rightarrow> v | Inr s \<Rightarrow> RStr s)
    | _ \<Rightarrow> v)"

section \<open>Lemmas\<close>

lemma length_pack_floats:
  assumes "\<And>x b. e_pack env x = Inr b \<Longrightarrow> length b = 4" and "pack_floats env xs = Inr bs"
  shows "length bs = 4 * length xs"
  using assms(2)
proof (induction xs arbitrary: bs)
  case Nil
  then show ?case by simp
next
  case (Cons x xs)
  then show ?case by (auto split: sum.splits dest: assms(1))
qed

lemma parse_matches_length: "parse_matches env raw = Inr ms \<Longrightarrow> length ms \<le> length raw"
  by (induction env raw arbitrary: ms rule: parse_matches.induct) (fastforce split: sum.splits)+

lemma dict_put_keys:
  "map fst (dict_put k v d) = (if k \<in> set (map fst d) then map fst d else map fst d @ [k])"
proof (induction d)
  case Nil
  then show ?case by simp
next
  case (Cons a d)
  then show ?case by (cases a) (simp del: list.set_map add: list.set)
qed

lemma map_of_dict_put: "map_of (dict_put k v d) = (map_of d)(k \<mapsto> v)"
  by (induction d) auto

text \<open>An environment for the witnesses.\<close>

definition plain_env :: "nat env" where
  "plain_env = \<lparr>e_sha256 = (\<lambda>b. b), e_lower = (\<lambda>s. s), e_repr = (\<lambda>s. s), e_pack = (\<lambda>_. Inr []), e_str = (\<lambda>_. []),
     e_float_text = (\<lambda>_. Inr 0), e_float_int = (\<lambda>i. Inr (nat i)), e_zero = 0\<rparr>"

end
