(* ===== verification/Pool.thy ===== *)
theory Pool
  imports Connection
begin

text \<open>
  \<open>ConnectionPool\<close> of \<open>pool.py\<close>. The connection objects live in a store, \<open>p_conns\<close>, and are shared by
  reference, as their index in it: the queue of idle connections, the client and the pipelines hold
  indices. Every section that the code protects by the queue's own lock or by \<open>_lock\<close> is one
  definition here (\<open>pop_idle\<close>, \<open>put_idle\<close>, \<open>forget_one\<close>, \<open>reserve\<close>); \<open>get_connection\<close> and
  \<open>release_connection\<close> are composed of them, and \<open>Pool_Threads\<close> interleaves them. The state and
  these sections are shared with the asynchronous pool (\<open>Async_Pool\<close>), whose text is the same over
  another kind of connection.
\<close>

section \<open>State\<close>

text \<open>\<open>p_dials\<close> is what the coming attempts to connect will meet, in order; with none left the network
  is down.\<close>

record ('c, 'd) pool_of =
  p_host :: ustr
  p_port :: int
  p_max :: int
  p_decode_responses :: bool
  p_password :: "ustr option"
  p_ssl :: bool
  p_ssl_keyfile :: "ustr option"
  p_ssl_certfile :: "ustr option"
  p_ssl_check_hostname :: bool
  p_queue :: "nat list"
  p_active :: int
  p_conns :: "'c list"
  p_dials :: "'d list"

type_synonym ('c, 'd, 'a) pool_do = "(('c, 'd) pool_of, exc, 'a) py"
type_synonym pool = "(connection, dial) pool_of"
type_synonym 'a pool_op = "(connection, dial, 'a) pool_do"

definition conn_at :: "('c, 'd) pool_of \<Rightarrow> nat \<Rightarrow> 'c" where
  "conn_at p i = p_conns p ! i"

definition set_conn :: "nat \<Rightarrow> 'c \<Rightarrow> ('c, 'd) pool_of \<Rightarrow> ('c, 'd) pool_of" where
  "set_conn i c p = p\<lparr>p_conns := (p_conns p)[i := c]\<rparr>"

text \<open>A method of connection \<open>i\<close>.\<close>

definition on_conn :: "nat \<Rightarrow> ('c, exc, 'a) py \<Rightarrow> ('c, 'd, 'a) pool_do" where
  "on_conn i m p = (case m (conn_at p i) of (r, c) \<Rightarrow> (r, set_conn i c p))"

definition no_dial :: dial where
  "no_dial = \<lparr>d_tcp = None, d_ca_loads = False, d_chain_loads = False, d_handshake = (\<lambda>_ _ _. None)\<rparr>"

definition next_dial :: "dial pool_op" where
  "next_dial p = (case p_dials p of [] \<Rightarrow> (Inr no_dial, p) | d # ds \<Rightarrow> (Inr d, p\<lparr>p_dials := ds\<rparr>))"

section \<open>The protected sections\<close>

text \<open>\<open>queue.Queue(maxsize)\<close> is unbounded when \<open>maxsize\<close> is not positive.\<close>

definition queue_full :: "('c, 'd) pool_of \<Rightarrow> bool" where
  "queue_full p \<longleftrightarrow> 0 < p_max p \<and> p_max p \<le> int (length (p_queue p))"

definition pop_idle :: "('c, 'd, nat option) pool_do" where
  "pop_idle p = (case p_queue p of
      [] \<Rightarrow> (Inr None, p)
    | i # q \<Rightarrow> (Inr (Some i), p\<lparr>p_queue := q\<rparr>))"

definition put_idle :: "nat \<Rightarrow> ('c, 'd, bool) pool_do" where
  "put_idle i p =
     (if queue_full p then (Inr False, p) else (Inr True, p\<lparr>p_queue := p_queue p @ [i]\<rparr>))"

definition forget_one :: "('c, 'd, unit) pool_do" where
  "forget_one = modifyE (\<lambda>p. p\<lparr>p_active := p_active p - 1\<rparr>)"

definition reserve :: "('c, 'd, unit) pool_do" where
  "reserve p =
     (if p_active p \<ge> p_max p then (Inl (PoolExhaustedError (p_max p)), p)
      else (Inr (), p\<lparr>p_active := p_active p + 1\<rparr>))"

section \<open>Checkout and return\<close>

text \<open>\<open>Connection(host=..., ...)\<close>; the pool has no \<open>ssl_cert_reqs\<close> and leaves its default.\<close>

definition new_connection :: "nat pool_op" where
  "new_connection p = (Inr (length (p_conns p)), p\<lparr>p_conns := p_conns p @
     [\<lparr>c_host = p_host p, c_port = p_port p, c_decode_responses = p_decode_responses p,
       c_ssl = p_ssl p, c_ssl_keyfile = p_ssl_keyfile p, c_ssl_certfile = p_ssl_certfile p,
       c_ssl_cert_reqs = CERT_REQUIRED, c_ssl_check_hostname = p_ssl_check_hostname p,
       c_reader = None\<rparr>]\<rparr>)"

definition is_OK :: "resp \<Rightarrow> bool" where
  "is_OK v \<longleftrightarrow> v = RBytes ''OK'' \<or> v = RStr (u ''OK'')"

text \<open>An idle connection that is alive; a stale one is closed and forgotten.\<close>

definition take_idle :: "nat \<Rightarrow> nat option pool_op" where
  "take_idle depth = bindE pop_idle (\<lambda>found. case found of
      None \<Rightarrow> ret None
    | Some i \<Rightarrow>
        bindE (getsE (\<lambda>p. is_connected (conn_at p i))) (\<lambda>open.
        bindE (if open then on_conn i (check_health depth) else ret False) (\<lambda>healthy.
        if healthy then ret (Some i)
        else bindE (on_conn i disconnect) (\<lambda>_. bindE forget_one (\<lambda>_. ret None)))))"

definition ask_auth :: "nat \<Rightarrow> nat \<Rightarrow> ustr \<Rightarrow> resp pool_op" where
  "ask_auth depth i password =
     bindE (on_conn i (send_command [Str (u ''AUTH''), Str password])) (\<lambda>_. on_conn i (read_response depth))"

definition authenticate :: "nat \<Rightarrow> nat \<Rightarrow> ustr \<Rightarrow> unit pool_op" where
  "authenticate depth i password =
     bindE (ask_auth depth i password) (\<lambda>res.
     if \<not> is_OK res then
       bindE (on_conn i disconnect) (\<lambda>_. bindE forget_one (\<lambda>_. raise ConnectionError))
     else ret ())"

definition open_new :: "nat \<Rightarrow> nat pool_op" where
  "open_new depth =
     bindE reserve (\<lambda>_.
     bindE new_connection (\<lambda>i.
     bindE next_dial (\<lambda>d.
     bindE (on_conn i (connect d)) (\<lambda>_.
     bindE (getsE p_password) (\<lambda>password.
     bindE (case password of None \<Rightarrow> ret () | Some pw \<Rightarrow> authenticate depth i pw) (\<lambda>_.
     ret i))))))"

definition get_connection :: "nat \<Rightarrow> nat pool_op" where
  "get_connection depth = bindE (take_idle depth) (\<lambda>found. case found of
      Some i \<Rightarrow> ret i
    | None \<Rightarrow> open_new depth)"

definition release_connection :: "nat \<Rightarrow> unit pool_op" where
  "release_connection i =
     bindE (getsE (\<lambda>p. is_connected (conn_at p i))) (\<lambda>open.
     bindE (if open then put_idle i else ret False) (\<lambda>kept.
     if kept then ret ()
     else bindE (on_conn i disconnect) (\<lambda>_. forget_one)))"

text \<open>The loop of \<open>disconnect_all\<close> takes the idle connections one by one.\<close>

primrec drain_idle :: "nat list \<Rightarrow> unit pool_op" where
  "drain_idle [] = ret ()"
| "drain_idle (i # q) =
     bindE (modifyE (\<lambda>p. p\<lparr>p_queue := q\<rparr>)) (\<lambda>_. bindE (on_conn i disconnect) (\<lambda>_. drain_idle q))"

definition disconnect_all :: "unit pool_op" where
  "disconnect_all = bindE (getsE p_queue) (\<lambda>q. bindE (drain_idle q) (\<lambda>_.
     modifyE (\<lambda>p. p\<lparr>p_active := 0\<rparr>)))"

section \<open>Which connections exist and who has them\<close>

text \<open>\<open>H\<close> are the connections handed out and not yet returned. \<open>books b H p\<close>: no connection is in two
  places, and, when \<open>b\<close>, the counter covers the idle and the handed-out connections and respects
  the limit.\<close>

definition books :: "bool \<Rightarrow> nat set \<Rightarrow> ('c, 'd) pool_of \<Rightarrow> bool" where
  "books b H p \<longleftrightarrow> finite H \<and> distinct (p_queue p) \<and> set (p_queue p) \<inter> H = {} \<and>
     set (p_queue p) \<union> H \<subseteq> {..< length (p_conns p)} \<and>
     (b \<longrightarrow> int (length (p_queue p) + card H) \<le> p_active p \<and> p_active p \<le> max 0 (p_max p))"

lemma books_mono: "books b H p \<Longrightarrow> H' \<subseteq> H \<Longrightarrow> books b H' p"
  using card_mono [of H H'] by (auto simp: books_def intro: finite_subset)

lemma books_forget_balance: "books b H p \<Longrightarrow> books False H p"
  by (auto simp: books_def)

lemma on_conn_keeps:
  "on_conn i m p = (r, q) \<Longrightarrow> p_queue q = p_queue p \<and> p_active q = p_active p \<and> p_max q = p_max p \<and>
     p_password q = p_password p \<and> p_dials q = p_dials p \<and> length (p_conns q) = length (p_conns p)"
  by (auto simp: on_conn_def set_conn_def split: prod.splits)

lemma on_conn_at:
  "on_conn i m p = (r, q) \<Longrightarrow> i < length (p_conns p) \<Longrightarrow> m (conn_at p i) = (r, conn_at q i)"
  by (auto simp: on_conn_def set_conn_def conn_at_def split: prod.splits)

text \<open>Connection \<open>i\<close> has just been taken, on top of \<open>H\<close>. Losing track of it leaves the books of \<open>H\<close>.\<close>

definition held :: "bool \<Rightarrow> nat set \<Rightarrow> nat \<Rightarrow> ('c, 'd) pool_of \<Rightarrow> bool" where
  "held b H i p \<longleftrightarrow> i \<notin> H \<and> books b (insert i H) p"

lemma held_books: "held b H i p \<Longrightarrow> books b H p"
  by (auto simp: held_def intro: books_mono)

lemma books_on_conn: "hoare (books b H) (on_conn i m) (\<lambda>_. books b H) (\<lambda>_. books b H)"
  by (rule hoareI) (auto dest!: on_conn_keeps simp: books_def)

lemma held_on_conn: "hoare (held b H i) (on_conn j m) (\<lambda>_. held b H i) (\<lambda>_. books b H)"
  by (rule hoareI) (auto dest!: on_conn_keeps held_books simp: held_def books_def)

lemma books_pop_idle:
  "hoare (books b H) pop_idle
     (\<lambda>found p. case found of None \<Rightarrow> books b H p | Some i \<Rightarrow> held b H i p) E"
  by (rule hoareI) (auto simp: pop_idle_def books_def held_def split: list.splits)

lemma held_forget_one: "hoare (held b H i) forget_one (\<lambda>_. books b H) E"
  by (rule hoareI) (auto simp: forget_one_def books_def held_def)

lemma books_reserve:
  "hoare (books b H) (bindE reserve (\<lambda>_. new_connection)) (\<lambda>i. held b H i) (\<lambda>_. books b H)"
  by (rule hoareI)
    (force simp: reserve_def new_connection_def books_def held_def bindE_run less_Suc_eq split: if_splits)+

lemma held_put_idle:
  "hoare (held b H i) (put_idle i) (\<lambda>kept p. if kept then books b H p else held b H i p) E"
  by (rule hoareI) (auto simp: put_idle_def books_def held_def split: if_splits)

lemma held_next_dial: "hoare (held b H i) next_dial (\<lambda>_. held b H i) E"
  by (rule hoareI) (auto simp: next_dial_def books_def held_def split: list.splits)

text \<open>A connection that is handed out is open, in the sense of its kind.\<close>

definition live :: "('c \<Rightarrow> bool) \<Rightarrow> bool \<Rightarrow> nat set \<Rightarrow> nat \<Rightarrow> ('c, 'd) pool_of \<Rightarrow> bool" where
  "live is_open b H i p \<longleftrightarrow> held b H i p \<and> is_open (conn_at p i)"

lemma live_on_conn:
  assumes "\<And>c c' x. m c = (Inr x, c') \<Longrightarrow> Q x \<Longrightarrow> is_open c'"
  shows "hoare (held b H i) (on_conn i m) (\<lambda>x p. if Q x then live is_open b H i p else held b H i p) (\<lambda>_. books b H)"
proof (rule hoareI)
  fix p e q
  assume "held b H i p" "on_conn i m p = (Inl e, q)"
  then show "books b H q" by (rule hoare_Inl [OF held_on_conn])
next
  fix p x q
  assume h: "held b H i p" and m: "on_conn i m p = (Inr x, q)"
  then have "held b H i q" by (rule hoare_Inr [OF held_on_conn])
  moreover have "m (conn_at p i) = (Inr x, conn_at q i)"
    using h m by (intro on_conn_at) (auto simp: held_def books_def)
  ultimately show "if Q x then live is_open b H i q else held b H i q"
    using assms by (auto simp: live_def)
qed

lemma connect_open: "connect d c = (Inr x, c') \<Longrightarrow> is_connected c'"
  by (auto simp: connect_def bindE_run try_except_run or_OSError_def is_connected_def
      split: option.splits prod.splits sum.splits if_splits)

lemma translating_on_reader_open:
  "translating (on_reader m) c = (Inr x, c') \<Longrightarrow> is_connected c'"
  by (auto simp: translating_def on_reader_def try_except_run bindE_run disconnect_def is_connected_def
      split: option.splits prod.splits sum.splits if_splits)

lemma read_response_open: "read_response d c = (Inr x, c') \<Longrightarrow> is_connected c'"
  by (auto simp: read_response_def bindE_run dest: translating_on_reader_open
      split: prod.splits sum.splits if_splits)

lemma check_health_open: "check_health d c = (Inr True, c') \<Longrightarrow> is_connected c'"
  by (auto simp: check_health_def try_except_run bindE_run dest: read_response_open
      split: prod.splits sum.splits)

lemma live_held: "live is_open b H i p \<Longrightarrow> held b H i p"
  by (simp add: live_def)

subsection \<open>The operations keep the books\<close>

lemma books_take_idle:
  "hoare (books b H) (take_idle d)
     (\<lambda>found p. case found of None \<Rightarrow> books b H p | Some i \<Rightarrow> live is_connected b H i p) (\<lambda>_. books b H)"
  unfolding take_idle_def
proof (rule hoare_bind [OF books_pop_idle])
  fix found :: "nat option"
  let ?post = "\<lambda>found p. case found of None \<Rightarrow> books b H p | Some i \<Rightarrow> live is_connected b H i p"
  show "hoare (\<lambda>p. case found of None \<Rightarrow> books b H p | Some i \<Rightarrow> held b H i p)
     (case found of None \<Rightarrow> ret None | Some i \<Rightarrow>
        bindE (getsE (\<lambda>p. is_connected (conn_at p i))) (\<lambda>open.
        bindE (if open then on_conn i (check_health d) else ret False) (\<lambda>healthy.
        if healthy then ret (Some i)
        else bindE (on_conn i disconnect) (\<lambda>_. bindE forget_one (\<lambda>_. ret None)))))
     ?post (\<lambda>_. books b H)"
  proof (cases found)
    case None
    then show ?thesis by (simp add: hoare_def)
  next
    case (Some i)
    have 1: "hoare (held b H i) (if open then on_conn i (check_health d) else ret False)
        (\<lambda>healthy p. if healthy then live is_connected b H i p else held b H i p) (\<lambda>_. books b H)" for "open"
      by (intro hoare_if live_on_conn hoare_ret) (auto dest: check_health_open)
    have 2: "hoare (\<lambda>p. if healthy then live is_connected b H i p else held b H i p)
        (if healthy then ret (Some i) else bindE (on_conn i disconnect) (\<lambda>_. bindE forget_one (\<lambda>_. ret None)))
        ?post (\<lambda>_. books b H)" for healthy
      by (cases healthy; simp only: if_True if_False)
        (simp add: hoare_ret, intro hoare_bind [OF held_on_conn] hoare_bind [OF held_forget_one] hoare_ret, simp)
    show ?thesis
      unfolding Some option.case by (rule hoare_bind [OF hoare_gets hoare_bind [OF 1 2]])
  qed
qed

lemma live_authenticate:
  "hoare (held b H i) (authenticate d i pw) (\<lambda>_. live is_connected b H i) (\<lambda>_. books b H)"
proof -
  have read: "hoare (held b H i) (on_conn i (read_response d)) (\<lambda>_. live is_connected b H i) (\<lambda>_. books b H)"
    using live_on_conn [of "read_response d" "\<lambda>_. True" is_connected b H i] by (simp add: read_response_open)
  have reject: "hoare (live is_connected b H i) (on_conn i disconnect) (\<lambda>_. held b H i) (\<lambda>_. books b H)"
    by (rule hoare_weaken [OF held_on_conn]) (auto simp: live_held)
  show ?thesis
    unfolding authenticate_def ask_auth_def
    by (rule hoare_bind [OF hoare_bind [OF held_on_conn read] hoare_if])
      (intro hoare_bind [OF reject] hoare_bind [OF held_forget_one] hoare_raise hoare_ret; assumption)+
qed

lemma books_open_new: "hoare (books b H) (open_new d) (\<lambda>i. live is_connected b H i) (\<lambda>_. books b H)"
proof -
  have same: "open_new d = bindE (bindE reserve (\<lambda>_. new_connection)) (\<lambda>i.
     bindE next_dial (\<lambda>d'. bindE (on_conn i (connect d')) (\<lambda>_. bindE (getsE p_password) (\<lambda>password.
     bindE (case password of None \<Rightarrow> ret () | Some pw \<Rightarrow> authenticate d i pw) (\<lambda>_. ret i)))))"
    by (rule ext) (simp add: open_new_def bindE_def split: prod.splits sum.splits)
  have dial: "hoare (held b H i) (on_conn i (connect d')) (\<lambda>_. live is_connected b H i) (\<lambda>_. books b H)" for i d'
    using live_on_conn [of "connect d'" "\<lambda>_. True" is_connected b H i] by (simp add: connect_open)
  have auth: "hoare (live is_connected b H i) (case password of None \<Rightarrow> ret () | Some pw \<Rightarrow> authenticate d i pw)
      (\<lambda>_. live is_connected b H i) (\<lambda>_. books b H)" for i password
    by (cases password) (simp_all add: hoare_ret hoare_weaken [OF live_authenticate live_held])
  show ?thesis
    unfolding same
    by (rule hoare_bind [OF books_reserve], rule hoare_bind [OF held_next_dial],
        rule hoare_bind [OF dial], rule hoare_bind [OF hoare_gets], assumption,
        rule hoare_bind [OF auth], rule hoare_ret)
qed

theorem books_get_connection:
  "hoare (books b H) (get_connection d) (\<lambda>i. live is_connected b H i) (\<lambda>_. books b H)"
  unfolding get_connection_def
proof (rule hoare_bind [OF books_take_idle])
  fix found
  show "hoare (\<lambda>p. case found of None \<Rightarrow> books b H p | Some i \<Rightarrow> live is_connected b H i p)
     (case found of None \<Rightarrow> open_new d | Some i \<Rightarrow> ret i) (\<lambda>i. live is_connected b H i) (\<lambda>_. books b H)"
    by (cases found) (simp_all add: books_open_new hoare_ret)
qed

lemma held_release_connection:
  "hoare (held b H i) (release_connection i) (\<lambda>_. books b H) (\<lambda>_. books b H)"
  unfolding release_connection_def
proof (rule hoare_bind [where R = "\<lambda>_. held b H i"])
  show "hoare (held b H i) (getsE (\<lambda>p. is_connected (conn_at p i))) (\<lambda>_. held b H i) (\<lambda>_. books b H)"
    by (rule hoare_gets)
next
  fix "open"
  have put: "hoare (held b H i) (if open then put_idle i else ret False)
      (\<lambda>kept p. if kept then books b H p else held b H i p) (\<lambda>_. books b H)"
    by (intro hoare_if held_put_idle hoare_ret) simp
  have rest: "hoare (\<lambda>p. if kept then books b H p else held b H i p)
      (if kept then ret () else bindE (on_conn i disconnect) (\<lambda>_. forget_one))
      (\<lambda>_. books b H) (\<lambda>_. books b H)" for kept
    by (cases kept) (auto intro: hoare_ret hoare_bind [OF held_on_conn] held_forget_one)
  show "hoare (held b H i)
     (bindE (if open then put_idle i else ret False) (\<lambda>kept. if kept then ret ()
       else bindE (on_conn i disconnect) (\<lambda>_. forget_one))) (\<lambda>_. books b H) (\<lambda>_. books b H)"
    by (rule hoare_bind [OF put rest])
qed

lemma books_drain_idle:
  "hoare (\<lambda>p. books b H p \<and> p_queue p = q) (drain_idle q) (\<lambda>_ p. books False H p \<and> p_queue p = [])
     (\<lambda>_. books False H)"
proof (induction q arbitrary: b)
  case Nil
  show ?case by (simp add: hoare_def books_def)
next
  case (Cons i q)
  have "hoare (\<lambda>p. books b H p \<and> p_queue p = i # q) (modifyE (\<lambda>p. p\<lparr>p_queue := q\<rparr>))
      (\<lambda>_ p. books False H p \<and> p_queue p = q) E" for E
    by (rule hoare_modify) (auto simp: books_def)
  moreover have "hoare (\<lambda>p. books False H p \<and> p_queue p = q) (on_conn i disconnect)
      (\<lambda>_ p. books False H p \<and> p_queue p = q) (\<lambda>_. books False H)"
    by (rule hoareI) (auto dest!: on_conn_keeps simp: books_def)
  ultimately show ?case
    unfolding drain_idle.simps by (intro hoare_bind [OF _ hoare_bind [OF _ Cons.IH]])
qed

lemma books_disconnect_all:
  "hoare (books b H) disconnect_all (\<lambda>_. books False H) (\<lambda>_. books False H)"
  unfolding disconnect_all_def
  by (intro hoare_bind [where R = "\<lambda>q p. books b H p \<and> p_queue p = q"] hoare_gets
      hoare_bind [OF books_drain_idle] hoare_modify) (auto simp: books_def)

section \<open>Histories of a pool\<close>

definition ConnectionPool :: "('c, 'd) pool_of \<Rightarrow> ('c, 'd) pool_of" where
  "ConnectionPool cfg = cfg\<lparr>p_queue := [], p_active := 0, p_conns := []\<rparr>"

text \<open>The users of a pool with the operations \<open>get\<close>, \<open>release\<close> and \<open>close\<close> check connections out and
  return them, and do what they like with the ones they have. \<open>da\<close> says whether anybody calls
  \<open>close\<close> (\<open>disconnect_all\<close>).\<close>

inductive pool_step ::
    "('c, 'd, nat) pool_do \<Rightarrow> (nat \<Rightarrow> ('c, 'd, unit) pool_do) \<Rightarrow> ('c, 'd, unit) pool_do \<Rightarrow> bool \<Rightarrow>
     ('c, 'd) pool_of \<times> nat set \<Rightarrow> ('c, 'd) pool_of \<times> nat set \<Rightarrow> bool"
  for get release close da where
  checkout: "get p = (Inr i, p') \<Longrightarrow> pool_step get release close da (p, H) (p', insert i H)"
| checkout_fails: "get p = (Inl e, p') \<Longrightarrow> pool_step get release close da (p, H) (p', H)"
| give_back: "i \<in> H \<Longrightarrow> release i p = (r, p') \<Longrightarrow> pool_step get release close da (p, H) (p', H - {i})"
| use: "i \<in> H \<Longrightarrow> pool_step get release close da (p, H) (set_conn i c p, H)"
| close_all: "da \<Longrightarrow> close p = (r, p') \<Longrightarrow> pool_step get release close da (p, H) (p', H)"

inductive pool_reach ::
    "('c, 'd, nat) pool_do \<Rightarrow> (nat \<Rightarrow> ('c, 'd, unit) pool_do) \<Rightarrow> ('c, 'd, unit) pool_do \<Rightarrow> bool \<Rightarrow>
     ('c, 'd) pool_of \<Rightarrow> ('c, 'd) pool_of \<times> nat set \<Rightarrow> bool"
  for get release close da cfg where
  start: "pool_reach get release close da cfg (ConnectionPool cfg, {})"
| more: "pool_reach get release close da cfg x \<Longrightarrow> pool_step get release close da x y \<Longrightarrow>
    pool_reach get release close da cfg y"

inductive_cases pool_stepE: "pool_step get release close da (p, H) y"

lemma books_start: "books b {} (ConnectionPool cfg)"
  by (simp add: books_def ConnectionPool_def)

section \<open>The contract of a pool\<close>

text \<open>What the users of a pool rely on: checking out keeps the books and hands out an open connection on
  top of those already out, returning takes it back, closing all keeps only the ownership.\<close>

locale pool_contract =
  fixes get :: "('c, 'd, nat) pool_do"
    and release :: "nat \<Rightarrow> ('c, 'd, unit) pool_do"
    and close :: "('c, 'd, unit) pool_do"
    and is_open :: "'c \<Rightarrow> bool"
  assumes get_books: "hoare (books b H) get (\<lambda>i. live is_open b H i) (\<lambda>_. books b H)"
    and release_books: "hoare (held b H i) (release i) (\<lambda>_. books b H) (\<lambda>_. books b H)"
    and close_books: "hoare (books b H) close (\<lambda>_. books False H) (\<lambda>_. books False H)"
begin

lemma step_books:
  assumes "pool_step get release close da (p, H) (p', H')" and "books b H p" and "b \<Longrightarrow> \<not> da"
  shows "books b H' p'"
  using assms(1)
proof (rule pool_stepE)
  fix i q
  assume "(p', H') = (q, insert i H)" "get p = (Inr i, q)"
  with hoare_Inr [OF get_books assms(2)] show ?thesis by (auto simp: live_def held_def)
next
  fix e q
  assume "(p', H') = (q, H)" "get p = (Inl e, q)"
  with hoare_Inl [OF get_books assms(2)] show ?thesis by auto
next
  fix i r q
  assume i: "(p', H') = (q, H - {i})" "i \<in> H" "release i p = (r, q)"
  with assms(2) have h: "held b (H - {i}) i p" by (simp add: held_def insert_absorb)
  show ?thesis
  proof (cases r)
    case (Inl e)
    with i hoare_Inl [OF release_books h] show ?thesis by auto
  next
    case (Inr x)
    with i hoare_Inr [OF release_books h] show ?thesis by auto
  qed
next
  fix i c
  assume "(p', H') = (set_conn i c p, H)" "i \<in> H"
  with assms(2) show ?thesis by (auto simp: books_def set_conn_def)
next
  fix r q
  assume q: "(p', H') = (q, H)" "da" "close p = (r, q)"
  with assms(3) have b: "\<not> b" by auto
  show ?thesis
  proof (cases r)
    case (Inl e)
    with q b hoare_Inl [OF close_books assms(2)] show ?thesis by auto
  next
    case (Inr x)
    with q b hoare_Inr [OF close_books assms(2)] show ?thesis by auto
  qed
qed

lemma reach_books:
  "pool_reach get release close da cfg (p, H) \<Longrightarrow> (b \<Longrightarrow> \<not> da) \<Longrightarrow> books b H p"
proof (induction "(p, H)" arbitrary: p H rule: pool_reach.induct)
  case start
  show ?case by (rule books_start)
next
  case (more x)
  then show ?case by (cases x) (auto intro: step_books)
qed

lemma exclusive:
  assumes "pool_reach get release close da cfg (p, H)" and "get p = (Inr i, p')"
  shows "i \<notin> H \<and> i \<notin> set (p_queue p') \<and> set (p_queue p') \<inter> H = {} \<and> is_open (conn_at p' i)"
proof -
  have "books False H p" using reach_books [OF assms(1), of False] by simp
  from hoare_Inr [OF get_books this assms(2)] show ?thesis
    by (auto simp: live_def held_def books_def)
qed

lemma limited:
  assumes "pool_reach get release close False cfg (p, H)"
  shows "int (length (p_queue p) + card H) \<le> p_active p \<and> p_active p \<le> max 0 (p_max p)"
  using reach_books [OF assms, of True] by (simp add: books_def)

end

interpretation sync_pool: pool_contract "get_connection depth" release_connection disconnect_all is_connected
  for depth
  by unfold_locales (rule books_get_connection held_release_connection books_disconnect_all)+

section \<open>Opening connections\<close>

text \<open>What \<open>Connection(host=..., ...)\<close> makes of the pool's settings, before and after it connects.\<close>

definition configured :: "pool \<Rightarrow> connection" where
  "configured p = \<lparr>c_host = p_host p, c_port = p_port p, c_decode_responses = p_decode_responses p,
     c_ssl = p_ssl p, c_ssl_keyfile = p_ssl_keyfile p, c_ssl_certfile = p_ssl_certfile p,
     c_ssl_cert_reqs = CERT_REQUIRED, c_ssl_check_hostname = p_ssl_check_hostname p, c_reader = None\<rparr>"

lemma configured_active [simp]: "configured (p\<lparr>p_active := a\<rparr>) = configured p"
  by (simp add: configured_def)

lemma take_idle_empty: "p_queue p = [] \<Longrightarrow> take_idle d p = (Inr None, p)"
  by (simp add: take_idle_def pop_idle_def bindE_run)

text \<open>\<open>open_new\<close> once the slot is reserved, in terms of the connection alone.\<close>

lemma open_new_run:
  assumes "p_active p < p_max p"
  shows "open_new d p =
    (case next_dial (p\<lparr>p_active := p_active p + 1, p_conns := p_conns p @ [configured p]\<rparr>) of
       (Inl e, q) \<Rightarrow> (Inl e, q)
     | (Inr dl, q) \<Rightarrow>
         (case connect dl (configured p) of
            (Inl e, c) \<Rightarrow> (Inl e, q\<lparr>p_conns := p_conns p @ [c]\<rparr>)
          | (Inr _, c) \<Rightarrow>
              (case p_password p of
                 None \<Rightarrow> (Inr (length (p_conns p)), q\<lparr>p_conns := p_conns p @ [c]\<rparr>)
               | Some pw \<Rightarrow>
                   bindE (authenticate d (length (p_conns p)) pw) (\<lambda>_. ret (length (p_conns p)))
                     (q\<lparr>p_conns := p_conns p @ [c]\<rparr>))))"
proof -
  obtain dl q where q: "next_dial (p\<lparr>p_active := p_active p + 1, p_conns := p_conns p @ [configured p]\<rparr>) = (Inr dl, q)"
    by (cases "p_dials p") (auto simp: next_dial_def)
  then have "p_conns q = p_conns p @ [configured p]" "p_password q = p_password p"
    by (auto simp: next_dial_def split: list.splits)
  moreover obtain r c where "connect dl (configured p) = (r, c)" by (cases "connect dl (configured p)")
  ultimately show ?thesis
    using assms q
    by (cases r; cases "p_password p") (simp_all add: open_new_def bindE_run reserve_def new_connection_def
        configured_def [symmetric] on_conn_def conn_at_def set_conn_def nth_append split: prod.split sum.split)
qed

text \<open>A slot is reserved before the connection is attempted, and an exception of \<open>connect\<close> does not
  give it back.\<close>

lemma refused_connect:
  assumes "p_queue p = []" and "p_active p < p_max p" and "p_dials p = dl # ds" and "d_tcp dl = None"
  shows "get_connection d p = (Inl ConnectionError,
    p\<lparr>p_active := p_active p + 1, p_conns := p_conns p @ [configured p], p_dials := ds\<rparr>)"
  using assms
  by (simp add: get_connection_def take_idle_empty open_new_run next_dial_def connect_def bindE_run
      try_except_run or_OSError_def is_connected_def configured_def)

lemma exhausted:
  "p_queue p = [] \<Longrightarrow> p_max p \<le> p_active p \<Longrightarrow>
   get_connection d p = (Inl (PoolExhaustedError (p_max p)), p)"
  by (simp add: get_connection_def take_idle_empty bindE_run open_new_def reserve_def)

lemma opened_plain:
  assumes "p_queue p = []" and "p_active p < p_max p" and "p_dials p = dl # ds" and "d_tcp dl = Some s"
    and "\<not> p_ssl p" and "p_password p = None"
  shows "get_connection d p = (Inr (length (p_conns p)),
    p\<lparr>p_active := p_active p + 1, p_dials := ds,
      p_conns := p_conns p @ [configured p\<lparr>c_reader := Some (RespReader s read_chunk_size)\<rparr>]\<rparr>)"
  using assms
  by (simp add: get_connection_def take_idle_empty open_new_run next_dial_def connect_def bindE_run
      try_except_run or_OSError_def is_connected_def configured_def)

section \<open>Theorems about the pool\<close>

text \<open>Whatever its users do, \<open>disconnect_all\<close> included, the pool never hands out a connection that
  somebody still has or that is still idle in the queue, and what it hands out is open.\<close>

theorem checkout_exclusive:
  assumes "pool_reach (get_connection depth) release_connection disconnect_all da cfg (p, H)" and "get_connection depth p = (Inr i, p')"
  shows "i \<notin> H \<and> i \<notin> set (p_queue p') \<and> set (p_queue p') \<inter> H = {} \<and> is_connected (conn_at p' i)"
  by (rule sync_pool.exclusive [OF assms])

text \<open>Without \<open>disconnect_all\<close>, the idle and the handed-out connections together never exceed
  \<open>max_connections\<close>, because the counter covers them and respects the limit.\<close>

theorem connections_limited:
  assumes "pool_reach (get_connection depth) release_connection disconnect_all False cfg (p, H)"
  shows "int (length (p_queue p) + card H) \<le> p_active p \<and> p_active p \<le> max 0 (p_max p)"
  by (rule sync_pool.limited [OF assms])

definition local_pool :: "int \<Rightarrow> ustr option \<Rightarrow> dial list \<Rightarrow> pool" where
  "local_pool n password dials = \<lparr>p_host = u ''127.0.0.1'', p_port = 6379, p_max = n,
     p_decode_responses = False, p_password = password, p_ssl = False, p_ssl_keyfile = None,
     p_ssl_certfile = None, p_ssl_check_hostname = True, p_queue = [], p_active = 0, p_conns = [],
     p_dials = dials\<rparr>"

definition quiet :: sock where
  "quiet = \<lparr>rx = [], tx = [], sent = []\<rparr>"

lemma local_pool_opens:
  "0 < n \<Longrightarrow> get_connection d (ConnectionPool (local_pool n None [answers_verified s])) =
    (Inr 0, local_pool n None []\<lparr>p_active := 1,
       p_conns := [configured (local_pool n None [])\<lparr>c_reader := Some (RespReader s read_chunk_size)\<rparr>]\<rparr>)"
  by (subst opened_plain [where dl = "answers_verified s" and ds = "[]" and s = s])
    (simp_all add: ConnectionPool_def local_pool_def answers_verified_def configured_def)

lemma checkout_exclusive_witness:
  "0 \<notin> {} \<and> is_connected (conn_at (snd (get_connection 1 (ConnectionPool (local_pool 1 None [answers_verified quiet])))) 0)"
proof -
  have "pool_reach (get_connection 1) release_connection disconnect_all False (local_pool 1 None [answers_verified quiet])
      (ConnectionPool (local_pool 1 None [answers_verified quiet]), {})"
    by (rule pool_reach.start)
  from checkout_exclusive [OF this local_pool_opens] local_pool_opens [of 1 1 quiet] show ?thesis by simp
qed

lemma connections_limited_witness:
  "int (length (p_queue (snd (get_connection 1 (ConnectionPool (local_pool 1 None [answers_verified quiet]))))) + card {0::nat})
     \<le> 1"
proof -
  let ?p = "ConnectionPool (local_pool 1 None [answers_verified quiet])"
  have "pool_step (get_connection 1) release_connection disconnect_all False (?p, {}) (snd (get_connection 1 ?p), insert 0 {})"
    using local_pool_opens [of 1 1 quiet] by (intro pool_step.checkout) simp
  then have "pool_reach (get_connection 1) release_connection disconnect_all False (local_pool 1 None [answers_verified quiet]) (snd (get_connection 1 ?p), insert 0 {})"
    by (rule pool_reach.more [OF pool_reach.start])
  from connections_limited [OF this] local_pool_opens [of 1 1 quiet] show ?thesis
    by (simp add: local_pool_def)
qed

text \<open>Refused connections use up the pool for good: \<open>get_connection\<close> counts the slot before it connects
  and does not give it back when \<open>connect\<close> raises. After as many refusals as \<open>max_connections\<close>,
  every further call raises \<open>PoolExhaustedError\<close>, although nothing is handed out or idle and even
  if the server is reachable again.\<close>

theorem refusals_exhaust_pool:
  assumes "p_dials cfg = replicate n no_dial @ later" and "p_max cfg = int n"
  shows "\<exists>p. ((\<lambda>p. snd (get_connection d p)) ^^ n) (ConnectionPool cfg) = p \<and> p_queue p = [] \<and>
    p_dials p = later \<and> (\<forall>d'. get_connection d' p = (Inl (PoolExhaustedError (int n)), p))"
proof -
  let ?f = "\<lambda>p. snd (get_connection d p)"
  have "p_queue ((?f ^^ k) (ConnectionPool cfg)) = [] \<and> p_active ((?f ^^ k) (ConnectionPool cfg)) = int k \<and>
      p_max ((?f ^^ k) (ConnectionPool cfg)) = int n \<and>
      p_dials ((?f ^^ k) (ConnectionPool cfg)) = replicate (n - k) no_dial @ later" if "k \<le> n" for k
    using that
  proof (induction k)
    case 0
    then show ?case using assms by (simp add: ConnectionPool_def)
  next
    case (Suc k)
    let ?p = "(?f ^^ k) (ConnectionPool cfg)"
    from Suc have p: "p_queue ?p = []" "p_active ?p = int k" "p_max ?p = int n"
        "p_dials ?p = no_dial # replicate (n - Suc k) no_dial @ later"
      by (auto simp: Suc_diff_Suc [symmetric])
    from refused_connect [OF p(1) _ p(4), of d] p Suc.prems show ?case
      by (simp add: no_dial_def)
  qed
  from this [of n] show ?thesis by (simp add: exhausted)
qed

lemma refusals_exhaust_pool_witness:
  "\<exists>p. ((\<lambda>p. snd (get_connection 3 p)) ^^ 2) (ConnectionPool (local_pool 2 None [no_dial, no_dial, answers_verified quiet])) = p \<and>
     p_dials p = [answers_verified quiet] \<and> get_connection 3 p = (Inl (PoolExhaustedError 2), p)"
proof -
  have "p_dials (local_pool 2 None [no_dial, no_dial, answers_verified quiet]) = replicate 2 no_dial @ [answers_verified quiet]"
    by (simp add: local_pool_def numeral_2_eq_2)
  from refusals_exhaust_pool [OF this, of 3] show ?thesis by (auto simp: local_pool_def)
qed

text \<open>A server that answers \<open>AUTH\<close> with an error makes \<open>get_connection\<close> raise that error without
  closing the connection or giving its slot back; only an answer other than \<open>OK\<close> that is not an
  error is cleaned up.\<close>

theorem rejected_auth_leaks:
  assumes "p_queue p = []" and "p_active p < p_max p" and "p_dials p = dl # ds" and "d_tcp dl = Some s"
    and "\<not> p_ssl p" and "p_password p = Some pw" and "encode_command [Str (u ''AUTH''), Str pw] = Inr w"
    and "tx s = []" and "sock_arrived s = ''-'' @ b @ crlf @ rest"
    and "utf8_encode t = Inr b" and "find_crlf b = None"
  shows "\<exists>p'. get_connection (Suc d) p = (Inl (ResponseError t), p') \<and> p_active p' = p_active p + 1 \<and>
    p_queue p' = [] \<and> is_connected (conn_at p' (length (p_conns p)))"
proof -
  let ?c = "configured p\<lparr>c_reader := Some (RespReader s read_chunk_size)\<rparr>"
  have ready: "conn_ready ?c"
    using assms(8) by (simp add: conn_ready_def RespReader_def good_def read_chunk_size_def)
  have view: "conn_view ?c = (''-'' @ b @ crlf @ rest, sent s, p_decode_responses p)"
    using assms(9) by (simp add: conn_view_def RespReader_def unread_def configured_def)
  obtain c1 where c1: "send_packed w ?c = (Inr (), c1)" "conn_ready c1"
      "conn_view c1 = (''-'' @ b @ crlf @ rest, sent s @ w, p_decode_responses p)"
    using conn.send_ready [OF ready view] by blast
  then have send: "send_command [Str (u ''AUTH''), Str pw] ?c = (Inr (), c1)"
    using assms(7) by (simp add: send_command_def send_packed_def bindE_run is_connected_def)
  obtain c2 where c2: "read_response (Suc d) c1 = (Inl (ResponseError t), c2)" "conn_ready c2"
    using conn.recv_error [OF c1(2,3) assms(10,11), of d] by blast
  then have "is_connected c2" by (auto simp: conn_ready_def is_connected_def split: option.splits)
  moreover have "connect dl (configured p) = (Inr (), ?c)"
    using assms(4,5) by (simp add: connect_def bindE_run try_except_run or_OSError_def is_connected_def configured_def)
  ultimately show ?thesis
    using assms(1-3,6) send c2(1)
    by (simp add: get_connection_def take_idle_empty open_new_run next_dial_def bindE_run authenticate_def ask_auth_def
        on_conn_def conn_at_def set_conn_def nth_append)
qed

lemma rejected_auth_leaks_witness:
  "\<exists>p'. get_connection (Suc 0) (ConnectionPool (local_pool 1 (Some (u ''pw''))
       [answers_verified \<lparr>rx = [Data (''-ERR no'' @ crlf)], tx = [], sent = []\<rparr>]))
     = (Inl (ResponseError (u ''ERR no'')), p') \<and> p_active p' = 1 \<and> p_queue p' = []"
proof -
  let ?s = "\<lparr>rx = [Data (''-ERR no'' @ crlf)], tx = [], sent = []\<rparr>"
  let ?p = "ConnectionPool (local_pool 1 (Some (u ''pw'')) [answers_verified ?s])"
  have p: "p_queue ?p = []" "p_active ?p = 0" "p_max ?p = 1" "p_dials ?p = answers_verified ?s # []" "\<not> p_ssl ?p"
      "p_password ?p = Some (u ''pw'')" "d_tcp (answers_verified ?s) = Some ?s"
    by (simp_all add: ConnectionPool_def local_pool_def answers_verified_def)
  have w: "encode_command [Str (u ''AUTH''), Str (u ''pw'')] =
      Inr (''*2'' @ crlf @ ''$4'' @ crlf @ ''AUTH'' @ crlf @ ''$2'' @ crlf @ ''pw'' @ crlf)"
    by code_simp
  have s: "sock_arrived ?s = ''-'' @ ''ERR no'' @ crlf @ []" by code_simp
  have t: "utf8_encode (u ''ERR no'') = Inr ''ERR no''" "find_crlf ''ERR no'' = None" by code_simp+
  have "p_active ?p < p_max ?p" using p by simp
  from rejected_auth_leaks [OF p(1) this p(4,7,5,6) w _ s t, of 0] p(2) show ?thesis by auto
qed

text \<open>\<open>disconnect_all\<close> resets the counter while connections are handed out, so that afterwards more
  than \<open>max_connections\<close> of them can be open at once.\<close>

theorem disconnect_all_breaks_limit:
  "\<exists>p. pool_reach (get_connection 1) release_connection disconnect_all True (local_pool 1 None [answers_verified quiet, answers_verified quiet]) (p, {0, 1}) \<and>
     p_max p = 1 \<and> is_connected (conn_at p 0) \<and> is_connected (conn_at p 1)"
proof -
  let ?dl = "answers_verified quiet"
  let ?cfg = "local_pool 1 None [?dl, ?dl]"
  let ?p0 = "ConnectionPool ?cfg"
  let ?c = "configured ?cfg\<lparr>c_reader := Some (RespReader quiet read_chunk_size)\<rparr>"
  let ?p1 = "?p0\<lparr>p_active := 1, p_dials := [?dl], p_conns := [?c]\<rparr>"
  let ?p2 = "?p1\<lparr>p_active := 0\<rparr>"
  let ?p3 = "?p2\<lparr>p_active := 1, p_dials := [], p_conns := [?c, ?c]\<rparr>"
  have cfg: "configured (p\<lparr>p_dials := ds\<rparr>) = configured p" "configured (p\<lparr>p_conns := cs\<rparr>) = configured p"
    "configured ?p0 = configured ?cfg" for p ds cs
    by (simp_all add: configured_def ConnectionPool_def)
  have "get_connection 1 ?p0 = (Inr 0, ?p1)"
    by (subst opened_plain [where dl = ?dl and ds = "[?dl]" and s = quiet])
      (simp_all add: cfg, simp_all add: ConnectionPool_def local_pool_def answers_verified_def)
  then have "pool_step (get_connection 1) release_connection disconnect_all True (?p0, {}) (?p1, insert 0 {})" by (rule pool_step.checkout)
  then have r1: "pool_reach (get_connection 1) release_connection disconnect_all True ?cfg (?p1, {0})" by (rule pool_reach.more [OF pool_reach.start])
  have "disconnect_all ?p1 = (Inr (), ?p2)"
    by (simp add: disconnect_all_def bindE_run ConnectionPool_def)
  then have "pool_step (get_connection 1) release_connection disconnect_all True (?p1, {0}) (?p2, {0})" by (intro pool_step.close_all) simp_all
  then have r2: "pool_reach (get_connection 1) release_connection disconnect_all True ?cfg (?p2, {0})" by (rule pool_reach.more [OF r1])
  have "get_connection 1 ?p2 = (Inr 1, ?p3)"
    by (subst opened_plain [where dl = ?dl and ds = "[]" and s = quiet])
      (simp_all add: cfg, simp_all add: ConnectionPool_def local_pool_def answers_verified_def)
  then have "pool_step (get_connection 1) release_connection disconnect_all True (?p2, {0}) (?p3, insert 1 {0})" by (rule pool_step.checkout)
  then have "pool_reach (get_connection 1) release_connection disconnect_all True ?cfg (?p3, {0, 1})"
    using pool_reach.more [OF r2] by (simp add: insert_commute)
  then show ?thesis
    by (intro exI [of _ ?p3]) (simp add: conn_at_def is_connected_def ConnectionPool_def local_pool_def)
qed

end
