(* ===== verification/Pool_Threads.thy ===== *)
theory Pool_Threads
  imports Pool
begin

text \<open>
  The pool is shared by threads. Only four sections are atomic (\<open>pop_idle\<close>, \<open>put_idle\<close>,
  \<open>forget_one\<close>, \<open>reserve\<close>, each under a lock); what lies between them in \<open>get_connection\<close>,
  \<open>release_connection\<close> and \<open>disconnect_all\<close> may be interleaved with the other threads in any way. Each
  thread is a program counter, the connection it works on included, and a step of the system is one
  section of one thread. The work on a connection is one step: no other thread has it.

  The argument is about the queue, the counter and the owners only, so it is made once, for any kind of step with
  these effects (the locale \<open>pool_tasks\<close>), and serves the threads here and the asyncio tasks in \<open>Async_Tasks\<close>.
\<close>

section \<open>Threads\<close>

datatype task =
    Outside
  | Popped nat        \<comment> \<open>taken from the queue, not checked yet\<close>
  | Stale nat         \<comment> \<open>failed the check and is closed; still counted\<close>
  | Wanting           \<comment> \<open>has no idle connection, about to reserve a slot\<close>
  | Reserved          \<comment> \<open>counted, the connection not created yet\<close>
  | Refused           \<comment> \<open>could not connect, about to give the slot back (tasks only)\<close>
  | Opening nat       \<comment> \<open>created, about to connect\<close>
  | Opened nat        \<comment> \<open>connected, about to authenticate\<close>
  | Rejected nat      \<comment> \<open>refused by \<open>AUTH\<close> and closed; still counted\<close>
  | Holding nat       \<comment> \<open>\<open>get_connection\<close> has returned\<close>
  | Closing nat       \<comment> \<open>returned and closed; still counted\<close>
  | Draining          \<comment> \<open>inside the loop of \<open>disconnect_all\<close>\<close>

text \<open>The task's connection, and whether the task stands for a counted slot.\<close>

fun owner :: "task \<Rightarrow> nat option" where
  "owner (Popped i) = Some i"
| "owner (Stale i) = Some i"
| "owner (Opening i) = Some i"
| "owner (Opened i) = Some i"
| "owner (Rejected i) = Some i"
| "owner (Holding i) = Some i"
| "owner (Closing i) = Some i"
| "owner _ = None"

fun counted :: "task \<Rightarrow> bool" where
  "counted Outside = False"
| "counted Wanting = False"
| "counted Draining = False"
| "counted _ = True"

inductive task_step :: "nat \<Rightarrow> bool \<Rightarrow> pool \<times> task \<Rightarrow> pool \<times> task \<Rightarrow> bool" for depth da where
  get_idle: "pop_idle p = (Inr (Some i), p') \<Longrightarrow> task_step depth da (p, Outside) (p', Popped i)"
| get_none: "pop_idle p = (Inr None, p') \<Longrightarrow> task_step depth da (p, Outside) (p', Wanting)"
| healthy: "is_connected (conn_at p i) \<Longrightarrow> on_conn i (check_health depth) p = (Inr True, p') \<Longrightarrow>
    task_step depth da (p, Popped i) (p', Holding i)"
| closed: "\<not> is_connected (conn_at p i) \<Longrightarrow> on_conn i disconnect p = (Inr (), p') \<Longrightarrow>
    task_step depth da (p, Popped i) (p', Stale i)"
| unhealthy: "is_connected (conn_at p i) \<Longrightarrow> on_conn i (check_health depth) p = (Inr False, p1) \<Longrightarrow>
    on_conn i disconnect p1 = (Inr (), p') \<Longrightarrow> task_step depth da (p, Popped i) (p', Stale i)"
| forget_stale: "forget_one p = (Inr (), p') \<Longrightarrow> task_step depth da (p, Stale i) (p', Wanting)"
| reserved: "reserve p = (Inr (), p') \<Longrightarrow> task_step depth da (p, Wanting) (p', Reserved)"
| full: "reserve p = (Inl e, p') \<Longrightarrow> task_step depth da (p, Wanting) (p', Outside)"
| create: "new_connection p = (Inr i, p') \<Longrightarrow> task_step depth da (p, Reserved) (p', Opening i)"
| opened: "next_dial p = (Inr d, p1) \<Longrightarrow> on_conn i (connect d) p1 = (Inr (), p') \<Longrightarrow>
    task_step depth da (p, Opening i) (p', Opened i)"
| refused: "next_dial p = (Inr d, p1) \<Longrightarrow> on_conn i (connect d) p1 = (Inl e, p') \<Longrightarrow>
    task_step depth da (p, Opening i) (p', Outside)"
| no_password: "p_password p = None \<Longrightarrow> task_step depth da (p, Opened i) (p, Holding i)"
| accepted: "p_password p = Some pw \<Longrightarrow> ask_auth depth i pw p = (Inr v, p') \<Longrightarrow> is_OK v \<Longrightarrow>
    task_step depth da (p, Opened i) (p', Holding i)"
| rejected: "p_password p = Some pw \<Longrightarrow> ask_auth depth i pw p = (Inr v, p1) \<Longrightarrow> \<not> is_OK v \<Longrightarrow>
    on_conn i disconnect p1 = (Inr (), p') \<Longrightarrow> task_step depth da (p, Opened i) (p', Rejected i)"
| auth_raises: "p_password p = Some pw \<Longrightarrow> ask_auth depth i pw p = (Inl e, p') \<Longrightarrow>
    task_step depth da (p, Opened i) (p', Outside)"
| forget_rejected: "forget_one p = (Inr (), p') \<Longrightarrow> task_step depth da (p, Rejected i) (p', Outside)"
| work: "task_step depth da (p, Holding i) (set_conn i c p, Holding i)"
| keep: "is_connected (conn_at p i) \<Longrightarrow> put_idle i p = (Inr True, p') \<Longrightarrow>
    task_step depth da (p, Holding i) (p', Outside)"
| discard_full: "is_connected (conn_at p i) \<Longrightarrow> put_idle i p = (Inr False, p1) \<Longrightarrow>
    on_conn i disconnect p1 = (Inr (), p') \<Longrightarrow> task_step depth da (p, Holding i) (p', Closing i)"
| discard_broken: "\<not> is_connected (conn_at p i) \<Longrightarrow> on_conn i disconnect p = (Inr (), p') \<Longrightarrow>
    task_step depth da (p, Holding i) (p', Closing i)"
| forget_closed: "forget_one p = (Inr (), p') \<Longrightarrow> task_step depth da (p, Closing i) (p', Outside)"
| close_all: "da \<Longrightarrow> task_step depth da (p, Outside) (p, Draining)"
| drain: "pop_idle p = (Inr (Some i), p1) \<Longrightarrow> on_conn i disconnect p1 = (Inr (), p') \<Longrightarrow>
    task_step depth da (p, Draining) (p', Draining)"
| drained: "da \<Longrightarrow> pop_idle p = (Inr None, p1) \<Longrightarrow>
    task_step depth da (p, Draining) (p1\<lparr>p_active := 0\<rparr>, Outside)"

text \<open>Any thread may take the next step.\<close>

inductive system_reach ::
    "(('c, 'd) pool_of \<times> task \<Rightarrow> ('c, 'd) pool_of \<times> task \<Rightarrow> bool) \<Rightarrow> ('c, 'd) pool_of \<Rightarrow>
     ('c, 'd) pool_of \<times> task list \<Rightarrow> bool" for one_step cfg where
  start: "system_reach one_step cfg (ConnectionPool cfg, replicate n Outside)"
| step: "system_reach one_step cfg (p, ts) \<Longrightarrow> k < length ts \<Longrightarrow> one_step (p, ts ! k) (p', t) \<Longrightarrow>
    system_reach one_step cfg (p', ts[k := t])"

lemma reach_run:
  assumes "one_step\<^sup>*\<^sup>* (p, t) (p', t')" and "system_reach one_step cfg (p, ts)" and "k < length ts" and "ts ! k = t"
  shows "system_reach one_step cfg (p', ts[k := t'])"
  using assms(1)
proof (induction "(p', t')" arbitrary: p' t' rule: rtranclp_induct)
  case base
  then show ?case using assms(2-4) by (metis list_update_id)
next
  case (step x)
  obtain q u where x: "x = (q, u)" by (cases x)
  with step.hyps(3) have "system_reach one_step cfg (q, ts[k := u])" by simp
  from system_reach.step [OF this, of k] assms(3) step.hyps(2) x show ?case by simp
qed

section \<open>The invariant\<close>

definition holders :: "nat \<Rightarrow> task list \<Rightarrow> nat" where
  "holders i ts = length (filter (\<lambda>t. owner t = Some i) ts)"

definition slots :: "task list \<Rightarrow> nat" where
  "slots ts = length (filter counted ts)"

text \<open>Every connection is in at most one place, every place refers to an existing connection, and, when
  \<open>b\<close>, the counter covers the queue and the slots of the tasks and respects the limit.\<close>

definition consistent :: "bool \<Rightarrow> ('c, 'd) pool_of \<Rightarrow> task list \<Rightarrow> bool" where
  "consistent b p ts \<longleftrightarrow>
     (\<forall>i. count_list (p_queue p) i + holders i ts \<le> 1) \<and>
     (\<forall>i. length (p_conns p) \<le> i \<longrightarrow> count_list (p_queue p) i + holders i ts = 0) \<and>
     (b \<longrightarrow> int (length (p_queue p)) + int (slots ts) \<le> p_active p \<and> p_active p \<le> max 0 (p_max p))"

lemma filter_update:
  "k < length xs \<Longrightarrow>
   length (filter P (xs[k := y])) + (if P (xs ! k) then 1 else 0) = length (filter P xs) + (if P y then 1 else 0)"
proof (induction xs arbitrary: k)
  case Nil
  then show ?case by simp
next
  case (Cons x xs)
  then show ?case by (cases k) fastforce+
qed

lemma holders_update:
  "k < length ts \<Longrightarrow> holders i (ts[k := t]) + (if owner (ts ! k) = Some i then 1 else 0) =
     holders i ts + (if owner t = Some i then 1 else 0)"
  unfolding holders_def by (rule filter_update)

lemma slots_update:
  "k < length ts \<Longrightarrow> slots (ts[k := t]) + (if counted (ts ! k) then 1 else 0) = slots ts + (if counted t then 1 else 0)"
  unfolding slots_def by (rule filter_update)

text \<open>What one step may do to the queue, the store and the counter, given the task before and after.\<close>

definition moves :: "bool \<Rightarrow> ('c, 'd) pool_of \<Rightarrow> task \<Rightarrow> ('c, 'd) pool_of \<Rightarrow> task \<Rightarrow> bool" where
  "moves da p t p' t' \<longleftrightarrow>
     (\<forall>i. count_list (p_queue p') i + (if owner t' = Some i then 1 else 0) \<le>
          count_list (p_queue p) i + (if owner t = Some i then 1 else 0) +
          (if i = length (p_conns p) \<and> i < length (p_conns p') then 1 else 0)) \<and>
     length (p_conns p) \<le> length (p_conns p') \<and>
     p_max p' = p_max p \<and>
     (\<not> da \<longrightarrow>
        int (length (p_queue p')) + (if counted t' then 1 else 0) - p_active p' \<le>
        int (length (p_queue p)) + (if counted t then 1 else 0) - p_active p \<and>
        (p_active p' \<le> p_active p \<or> p_active p' \<le> p_max p))"

lemma consistent_step:
  assumes "consistent b p ts" and "k < length ts" and "moves da p (ts ! k) p' t" and "b \<Longrightarrow> \<not> da"
  shows "consistent b p' (ts[k := t])"
  unfolding consistent_def
proof (intro conjI allI impI)
  fix i
  have old: "count_list (p_queue p) i + holders i ts \<le> 1"
      "length (p_conns p) \<le> i \<Longrightarrow> count_list (p_queue p) i + holders i ts = 0"
    using assms(1) by (auto simp: consistent_def)
  have queue: "count_list (p_queue p') i + (if owner t = Some i then 1 else 0) \<le>
      count_list (p_queue p) i + (if owner (ts ! k) = Some i then 1 else 0) +
      (if i = length (p_conns p) \<and> i < length (p_conns p') then 1 else 0)"
    using assms(3) by (simp add: moves_def)
  note upd = holders_update [OF assms(2), of i t]
  show "count_list (p_queue p') i + holders i (ts[k := t]) \<le> 1"
    using old queue upd by (auto split: if_splits)
  assume "length (p_conns p') \<le> i"
  moreover have "length (p_conns p) \<le> length (p_conns p')" using assms(3) by (simp add: moves_def)
  ultimately show "count_list (p_queue p') i + holders i (ts[k := t]) = 0"
    using old(2) queue upd by (auto split: if_splits)
next
  assume b: "b"
  note upd = slots_update [OF assms(2), of t]
  show "int (length (p_queue p')) + int (slots (ts[k := t])) \<le> p_active p'"
    using assms b upd by (auto simp: consistent_def moves_def split: if_splits)
  show "p_active p' \<le> max 0 (p_max p')"
    using assms b by (auto simp: consistent_def moves_def)
qed

lemma holders_two:
  assumes "j < length ts" and "k < length ts" and "j \<noteq> k"
    and "owner (ts ! j) = Some i" and "owner (ts ! k) = Some i"
  shows "2 \<le> holders i ts"
proof -
  have "ts ! j \<in> set (filter (\<lambda>t. owner t = Some i) (ts[k := Outside]))"
    using assms by (auto simp: in_set_conv_nth intro!: exI [of _ j])
  then have "0 < holders i (ts[k := Outside])"
    unfolding holders_def by (rule length_pos_if_in_set)
  with holders_update [OF assms(2), of i Outside] assms(5) show ?thesis by simp
qed

lemma holders_one:
  assumes "k < length ts" and "owner (ts ! k) = Some i"
  shows "1 \<le> holders i ts"
proof -
  have "ts ! k \<in> set (filter (\<lambda>t. owner t = Some i) ts)" using assms by simp
  then have "0 < holders i ts" unfolding holders_def by (rule length_pos_if_in_set)
  then show ?thesis by simp
qed

section \<open>Any system of tasks\<close>

locale pool_tasks =
  fixes step :: "bool \<Rightarrow> ('c, 'd) pool_of \<times> task \<Rightarrow> ('c, 'd) pool_of \<times> task \<Rightarrow> bool"
  assumes moves: "step da (p, t) (p', t') \<Longrightarrow> moves da p t p' t'"
begin

lemma reach_consistent:
  "system_reach (step da) cfg (p, ts) \<Longrightarrow> (b \<Longrightarrow> \<not> da) \<Longrightarrow> consistent b p ts"
proof (induction "(p, ts)" arbitrary: p ts rule: system_reach.induct)
  case (start n)
  then show ?case by (simp add: consistent_def ConnectionPool_def holders_def slots_def)
next
  case (step p ts k p' t)
  then show ?case using consistent_step moves by blast
qed

lemma exclusive:
  assumes "system_reach (step da) cfg (p, ts)"
    and "j < length ts" and "owner (ts ! j) = Some i" and "k < length ts" and "owner (ts ! k) = Some i"
  shows "j = k \<and> i \<notin> set (p_queue p) \<and> i < length (p_conns p)"
proof -
  have c: "count_list (p_queue p) i + holders i ts \<le> 1"
      "length (p_conns p) \<le> i \<longrightarrow> count_list (p_queue p) i + holders i ts = 0"
    using reach_consistent [OF assms(1), of False] by (auto simp: consistent_def)
  have one: "1 \<le> holders i ts" using assms holders_one by blast
  with c(1) have "j = k" using holders_two [of j ts k i] assms by fastforce
  moreover have "count_list (p_queue p) i = 0" using c(1) one by simp
  moreover have "i < length (p_conns p)" using c(2) one by (cases "length (p_conns p) \<le> i") auto
  ultimately show ?thesis by (simp add: count_list_0_iff)
qed

lemma limited:
  assumes "system_reach (step False) cfg (p, ts)"
  shows "int (length (p_queue p) + length (filter (\<lambda>t. owner t \<noteq> None) ts)) \<le> max 0 (p_max p)"
proof -
  have "length (filter (\<lambda>t. owner t \<noteq> None) ts) \<le> slots ts"
  proof (induction ts)
    case Nil
    then show ?case by (simp add: slots_def)
  next
    case (Cons t ts)
    then show ?case by (cases t) (auto simp: slots_def)
  qed
  with reach_consistent [OF assms, of True] show ?thesis by (simp add: consistent_def)
qed

end

section \<open>The threads are such a system\<close>

lemma step_moves:
  assumes "task_step depth da (p, t) (p', t')"
  shows "moves da p t p' t'"
  using assms
  by (cases rule: task_step.cases)
    (auto simp: moves_def pop_idle_def put_idle_def forget_one_def reserve_def new_connection_def
       next_dial_def ask_auth_def set_conn_def bindE_run
       dest!: on_conn_keeps split: list.splits if_splits prod.splits sum.splits)

interpretation threads: pool_tasks "task_step depth" for depth
  by unfold_locales (rule step_moves)

section \<open>A thread that is not interrupted\<close>

definition after_get :: "exc + nat \<Rightarrow> task" where
  "after_get r = (case r of Inl _ \<Rightarrow> Outside | Inr i \<Rightarrow> Holding i)"

lemma thread_then: "task_step depth da x y \<Longrightarrow> (task_step depth da)\<^sup>*\<^sup>* y z \<Longrightarrow> (task_step depth da)\<^sup>*\<^sup>* x z"
  by (rule converse_rtranclp_into_rtranclp)

lemma thread_once: "task_step depth da x y \<Longrightarrow> (task_step depth da)\<^sup>*\<^sup>* x y"
  by (rule r_into_rtranclp)

lemma disconnect_ends: "\<exists>p'. on_conn i disconnect p = (Inr (), p')"
  by (simp add: on_conn_def disconnect_def)

lemma forget_one_ends: "forget_one p = (Inr (), p\<lparr>p_active := p_active p - 1\<rparr>)"
  by (simp add: forget_one_def)

lemma check_health_ends: "\<exists>b p'. on_conn i (check_health depth) p = (Inr b, p')"
  by (auto simp: on_conn_def check_health_def try_except_run split: prod.splits sum.splits)

lemma authenticate_runs:
  assumes "authenticate depth i pw p = (r, p')" and "p_password p = Some pw"
  shows "(task_step depth da)\<^sup>*\<^sup>* (p, Opened i) (p', case r of Inl _ \<Rightarrow> Outside | Inr _ \<Rightarrow> Holding i)"
proof (cases "ask_auth depth i pw p")
  case (Pair x p1)
  show ?thesis
  proof (cases x)
    case (Inl e)
    with Pair assms(1) have "r = Inl e" "p' = p1" by (simp_all add: authenticate_def bindE_run)
    then show ?thesis using thread_once [OF task_step.auth_raises [OF assms(2) Pair [unfolded Inl]]] by simp
  next
    case (Inr v)
    show ?thesis
    proof (cases "is_OK v")
      case True
      with Pair Inr assms(1) have "r = Inr ()" "p' = p1" by (simp_all add: authenticate_def bindE_run)
      then show ?thesis using thread_once [OF task_step.accepted [OF assms(2) Pair [unfolded Inr] True]] by simp
    next
      case False
      obtain p2 where p2: "on_conn i disconnect p1 = (Inr (), p2)" using disconnect_ends by blast
      have r: "r = Inl ConnectionError" "p' = p2\<lparr>p_active := p_active p2 - 1\<rparr>"
        using Pair Inr False p2 assms(1) by (simp_all add: authenticate_def bindE_run forget_one_ends)
      have "(task_step depth da)\<^sup>*\<^sup>* (p2, Rejected i) (p', Outside)"
        unfolding r(2) by (rule thread_once [OF task_step.forget_rejected [OF forget_one_ends]])
      then show ?thesis
        using thread_then [OF task_step.rejected [OF assms(2) Pair [unfolded Inr] False p2]] r(1) by simp
    qed
  qed
qed

lemma open_new_runs:
  assumes "open_new depth p = (r, p')"
  shows "(task_step depth da)\<^sup>*\<^sup>* (p, Wanting) (p', after_get r)"
proof (cases "reserve p")
  case (Pair x p1)
  show ?thesis
  proof (cases x)
    case (Inl e)
    with Pair assms have "r = Inl e" "p' = p1" by (simp_all add: open_new_def bindE_run)
    then show ?thesis using thread_once [OF task_step.full [OF Pair [unfolded Inl]]] by (simp add: after_get_def)
  next
    case (Inr y)
    obtain i p2 where i: "new_connection p1 = (Inr i, p2)" by (auto simp: new_connection_def)
    obtain d p3 where d: "next_dial p2 = (Inr d, p3)" by (cases "p_dials p2") (auto simp: next_dial_def)
    have res: "(task_step depth da)\<^sup>*\<^sup>* (p2, Opening i) z \<Longrightarrow> (task_step depth da)\<^sup>*\<^sup>* (p, Wanting) z" for z
      by (rule thread_then [OF task_step.reserved thread_then [OF task_step.create [OF i]]]) (use Pair Inr in simp_all)
    show ?thesis
    proof (cases "on_conn i (connect d) p3")
      case c: (Pair c p4)
      show ?thesis
      proof (cases c)
        case (Inl e)
        then have "r = Inl e" "p' = p4" using Pair Inr i d c assms by (simp_all add: open_new_def bindE_run)
        then show ?thesis
          using res [OF thread_once [OF task_step.refused [OF d c [unfolded Inl]]]] by (simp add: after_get_def)
      next
        case conn: (Inr z)
        have run: "open_new depth p = bindE (case p_password p4 of None \<Rightarrow> ret () | Some pw \<Rightarrow> authenticate depth i pw)
            (\<lambda>_. ret i) p4"
          using Pair Inr i d c conn by (simp add: open_new_def bindE_run)
        have "task_step depth da (p2, Opening i) (p4, Opened i)"
          by (rule task_step.opened [OF d]) (use c conn in simp)
        then have opened: "(task_step depth da)\<^sup>*\<^sup>* (p4, Opened i) y \<Longrightarrow> (task_step depth da)\<^sup>*\<^sup>* (p, Wanting) y" for y
          by (rule res [OF thread_then])
        show ?thesis
        proof (cases "p_password p4")
          case None
          then have "r = Inr i" "p' = p4" using run assms by (simp_all add: bindE_run)
          then show ?thesis using opened [OF thread_once [OF task_step.no_password [OF None]]] by (simp add: after_get_def)
        next
          case (Some pw)
          obtain a p5 where a: "authenticate depth i pw p4 = (a, p5)" by (cases "authenticate depth i pw p4")
          then have "r = map_sumE (\<lambda>_. i) a" "p' = p5" using run assms Some by (cases a; simp add: bindE_run)+
          then show ?thesis using opened [OF authenticate_runs [OF a Some]] by (cases a) (simp_all add: after_get_def)
        qed
      qed
    qed
  qed
qed

lemma get_connection_runs:
  "(task_step depth da)\<^sup>*\<^sup>* (p, Outside) (snd (get_connection depth p), after_get (fst (get_connection depth p)))"
proof (cases "p_queue p")
  case Nil
  then have idle: "pop_idle p = (Inr None, p)" by (simp add: pop_idle_def)
  then have "get_connection depth p = open_new depth p" by (simp add: get_connection_def take_idle_def bindE_run)
  then show ?thesis using thread_then [OF task_step.get_none [OF idle] open_new_runs] by (metis prod.collapse)
next
  case (Cons i q)
  let ?p1 = "p\<lparr>p_queue := q\<rparr>"
  have idle: "pop_idle p = (Inr (Some i), ?p1)" using Cons by (simp add: pop_idle_def)
  obtain b p2 where b: "on_conn i (check_health depth) ?p1 = (Inr b, p2)" using check_health_ends by blast
  show ?thesis
  proof (cases "is_connected (conn_at ?p1 i) \<and> b")
    case True
    then have "get_connection depth p = (Inr i, p2)" using b by (simp add: get_connection_def take_idle_def bindE_run idle)
    moreover have "task_step depth da (?p1, Popped i) (p2, Holding i)"
      by (rule task_step.healthy) (use True b in simp_all)
    ultimately show ?thesis
      using thread_then [OF task_step.get_idle [OF idle] thread_once] by (simp add: after_get_def)
  next
    case False
    obtain p3 where p3: "on_conn i disconnect (if is_connected (conn_at ?p1 i) then p2 else ?p1) = (Inr (), p3)"
      using disconnect_ends by blast
    have stale: "task_step depth da (?p1, Popped i) (p3, Stale i)"
      using False b p3 by (cases "is_connected (conn_at ?p1 i)") (auto intro: task_step.unhealthy task_step.closed)
    have "get_connection depth p = open_new depth (p3\<lparr>p_active := p_active p3 - 1\<rparr>)"
      using False b p3
      by (cases "is_connected (conn_at ?p1 i)")
        (simp_all add: get_connection_def take_idle_def bindE_run idle forget_one_ends)
    then show ?thesis
      using thread_then [OF task_step.get_idle [OF idle] thread_then [OF stale
          thread_then [OF task_step.forget_stale [OF forget_one_ends] open_new_runs]]]
      by (metis prod.collapse)
  qed
qed

lemma discard_runs:
  assumes "task_step depth da x (p1, Closing i)"
  shows "(task_step depth da)\<^sup>*\<^sup>* x (p1\<lparr>p_active := p_active p1 - 1\<rparr>, Outside)"
  by (rule thread_then [OF assms thread_once [OF task_step.forget_closed [OF forget_one_ends]]])

lemma release_connection_runs:
  "(task_step depth da)\<^sup>*\<^sup>* (p, Holding i) (snd (release_connection i p), Outside)"
proof (cases "is_connected (conn_at p i)")
  case False
  obtain p1 where p1: "on_conn i disconnect p = (Inr (), p1)" using disconnect_ends by blast
  then have "snd (release_connection i p) = p1\<lparr>p_active := p_active p1 - 1\<rparr>"
    using False by (simp add: release_connection_def bindE_run forget_one_ends)
  then show ?thesis using discard_runs [OF task_step.discard_broken [OF False p1]] by simp
next
  case True
  show ?thesis
  proof (cases "queue_full p")
    case full: True
    obtain p1 where p1: "on_conn i disconnect p = (Inr (), p1)" using disconnect_ends by blast
    have put: "put_idle i p = (Inr False, p)" using full by (simp add: put_idle_def)
    have "snd (release_connection i p) = p1\<lparr>p_active := p_active p1 - 1\<rparr>"
      using True put p1 by (simp add: release_connection_def bindE_run forget_one_ends)
    then show ?thesis using discard_runs [OF task_step.discard_full [OF True put p1]] by simp
  next
    case False
    let ?p = "p\<lparr>p_queue := p_queue p @ [i]\<rparr>"
    have put: "put_idle i p = (Inr True, ?p)" using False by (simp add: put_idle_def)
    then have "snd (release_connection i p) = ?p" using True by (simp add: release_connection_def bindE_run)
    then show ?thesis using task_step.keep [OF True put] by (simp add: thread_once)
  qed
qed

section \<open>Theorems about interleavings\<close>

text \<open>C2: Under every interleaving of the pool's sections, \<open>disconnect_all\<close> included, a connection is worked
  on by at most one thread at a time, and never while it is in the idle queue.\<close>

theorem threads_exclude_each_other:
  assumes "system_reach (task_step depth da) cfg (p, ts)"
    and "j < length ts" and "owner (ts ! j) = Some i"
    and "k < length ts" and "owner (ts ! k) = Some i"
  shows "j = k \<and> i \<notin> set (p_queue p) \<and> i < length (p_conns p)"
  by (rule threads.exclusive [OF assms])

text \<open>C5: Under every interleaving without \<open>disconnect_all\<close>, the connections in use by threads and the idle
  ones in the queue together stay within \<open>max_connections\<close>.\<close>

theorem threads_within_limit:
  assumes "system_reach (task_step depth False) cfg (p, ts)"
  shows "int (length (p_queue p) + length (filter (\<lambda>t. owner t \<noteq> None) ts)) \<le> max 0 (p_max p)"
  by (rule threads.limited [OF assms])

lemma one_thread_opens:
  "system_reach (task_step 1 False) (local_pool 1 None [answers_verified quiet])
     (snd (get_connection 1 (ConnectionPool (local_pool 1 None [answers_verified quiet]))), [Outside, Holding 0])"
proof -
  let ?cfg = "local_pool 1 None [answers_verified quiet]"
  have start: "system_reach (task_step 1 False) ?cfg (ConnectionPool ?cfg, [Outside, Outside])"
    using system_reach.start [of "task_step 1 False" ?cfg 2] by (simp add: numeral_2_eq_2)
  have "after_get (fst (get_connection 1 (ConnectionPool ?cfg))) = Holding 0"
    by (simp add: local_pool_opens after_get_def)
  with reach_run [OF get_connection_runs start, of 1] show ?thesis by simp
qed

lemma threads_exclude_each_other_witness:
  "(1::nat) = 1 \<and> 0 \<notin> set (p_queue (snd (get_connection 1 (ConnectionPool (local_pool 1 None [answers_verified quiet])))))
     \<and> 0 < length (p_conns (snd (get_connection 1 (ConnectionPool (local_pool 1 None [answers_verified quiet])))))"
  by (rule threads_exclude_each_other [OF one_thread_opens]) simp_all

lemma threads_within_limit_witness:
  "int (length (p_queue (snd (get_connection 1 (ConnectionPool (local_pool 1 None [answers_verified quiet])))))
     + length (filter (\<lambda>t. owner t \<noteq> None) [Outside, Holding 0])) \<le>
   max 0 (p_max (snd (get_connection 1 (ConnectionPool (local_pool 1 None [answers_verified quiet])))))"
  by (rule threads_within_limit [OF one_thread_opens])

text \<open>C6: The steps of a thread that is not interrupted are the methods of the pool: from outside the pool they lead to where
  \<open>get_connection\<close> leads, with the connection it returns or, after an exception, with none, and from a connection that
  is held to where \<open>release_connection\<close> leads.\<close>

theorem methods_are_thread_runs:
  "(task_step depth da)\<^sup>*\<^sup>* (p, Outside) (snd (get_connection depth p), after_get (fst (get_connection depth p))) \<and>
   (task_step depth da)\<^sup>*\<^sup>* (p, Holding i) (snd (release_connection i p), Outside)"
  using get_connection_runs release_connection_runs by blast

end
