(* ===== verification/Client.thy ===== *)
theory Client
  imports Values Pool_Threads
begin

text \<open>
  \<open>KacheClient\<close> of \<open>client.py\<close>: a pool, and the dedicated connection of a \<open>with\<close> block when there is
  one. \<open>execute\<close> is \<open>_execute\<close>, with its checkout, its \<open>except\<close> and its \<open>finally\<close>; every command of the
  class is one definition, with the prefix \<open>k_\<close> and the recursion depth of the decoder as its first
  argument.
\<close>

section \<open>State\<close>

record client =
  k_pool :: pool
  k_conn :: "nat option"

type_synonym 'a client_op = "(client, exc, 'a) py"

definition KacheClient :: "pool \<Rightarrow> client" where
  "KacheClient cfg = \<lparr>k_pool = ConnectionPool cfg, k_conn = None\<rparr>"

definition on_pool :: "'a pool_op \<Rightarrow> 'a client_op" where
  "on_pool m k = (case m (k_pool k) of (r, p) \<Rightarrow> (r, k\<lparr>k_pool := p\<rparr>))"

definition client_connect :: "nat \<Rightarrow> unit client_op" where
  "client_connect depth = bindE (on_pool (get_connection depth)) (\<lambda>i.
     modifyE (\<lambda>k. k\<lparr>k_conn := Some i\<rparr>))"

definition client_close :: "unit client_op" where
  "client_close = bindE (getsE k_conn) (\<lambda>conn. case conn of
      None \<Rightarrow> ret ()
    | Some i \<Rightarrow> bindE (on_pool (release_connection i)) (\<lambda>_. modifyE (\<lambda>k. k\<lparr>k_conn := None\<rparr>)))"

text \<open>\<open>__enter__\<close> and \<open>__exit__\<close>.\<close>

definition client_enter :: "nat \<Rightarrow> unit client_op" where
  "client_enter depth = client_connect depth"

definition client_exit :: "unit client_op" where
  "client_exit = client_close"

definition client_disconnect_all :: "unit client_op" where
  "client_disconnect_all = on_pool disconnect_all"

definition get_conn :: "nat \<Rightarrow> nat client_op" where
  "get_conn depth = bindE (getsE k_conn) (\<lambda>conn. case conn of
      Some i \<Rightarrow> ret i
    | None \<Rightarrow> on_pool (get_connection depth))"

definition release_conn :: "nat \<Rightarrow> unit client_op" where
  "release_conn i = bindE (getsE k_conn) (\<lambda>conn.
     if conn = None then on_pool (release_connection i) else ret ())"

definition execute :: "nat \<Rightarrow> arg list \<Rightarrow> resp client_op" where
  "execute depth args = bindE (get_conn depth) (\<lambda>i.
     try_finally
       (try_except
          (bindE (on_pool (on_conn i (send_command args))) (\<lambda>_. on_pool (on_conn i (read_response depth))))
          (\<lambda>e. bindE (on_pool (on_conn i disconnect)) (\<lambda>_. raise e)))
       (release_conn i))"

text \<open>\<open>pipeline()\<close>: the pipeline keeps the connection it was given; nothing returns it to the pool.\<close>

definition client_pipeline :: "nat \<Rightarrow> (nat pipeline) client_op" where
  "client_pipeline depth = bindE (get_conn depth) (\<lambda>i. ret \<lparr>pl_conn = i, pl_commands = []\<rparr>)"

section \<open>Arguments of the batch commands\<close>

text \<open>The loops of \<open>vadd_batch\<close> and \<open>vsearch_batch\<close>.\<close>

fun batch_items ::
    "'f env \<Rightarrow> int option \<Rightarrow> (arg \<times> 'f vector \<times> arg option) list \<Rightarrow> exc + arg list" where
  "batch_items env ex [] = Inr []"
| "batch_items env ex ((item_id, vector, payload) # items) =
     (case vector_bytes env vector of
        Inl e \<Rightarrow> Inl e
      | Inr raw \<Rightarrow> map_sumE (\<lambda>args.
          [item_id, Bytes raw, case payload of None \<Rightarrow> word ''-'' | Some p \<Rightarrow> p] @
          (case ex of None \<Rightarrow> [] | Some n \<Rightarrow> [word ''EX'', num n]) @ args) (batch_items env ex items))"

fun batch_queries :: "'f env \<Rightarrow> 'f vector list \<Rightarrow> exc + arg list" where
  "batch_queries env [] = Inr []"
| "batch_queries env (q # qs) =
     (case vector_bytes env q of
        Inl e \<Rightarrow> Inl e
      | Inr raw \<Rightarrow> map_sumE (\<lambda>args. Bytes raw # args) (batch_queries env qs))"

section \<open>Commands\<close>

definition k_ping ::
    "nat \<Rightarrow> 'f env \<Rightarrow> ustr option \<Rightarrow> ustr client_op" where
  "k_ping depth env message =
     bindE (execute depth (word ''PING'' # (case message of None \<Rightarrow> [] | Some m \<Rightarrow> [Str m]))) (\<lambda>result.
     ret (if result \<noteq> RNone then str_resp env result else u ''PONG''))"

definition k_get ::
    "nat \<Rightarrow> arg \<Rightarrow> resp client_op" where
  "k_get depth key =
     execute depth [word ''GET'', key]"

definition k_set ::
    "nat \<Rightarrow> arg \<Rightarrow> arg \<Rightarrow> int option \<Rightarrow> int option \<Rightarrow> bool client_op" where
  "k_set depth key value ex px =
     bindE (execute depth ([word ''SET'', key, value] @
     (case ex of Some n \<Rightarrow> [word ''EX'', num n]
      | None \<Rightarrow> (case px of Some n \<Rightarrow> [word ''PX'', num n] | None \<Rightarrow> [])))) (\<lambda>result. ret (is_ok_text result))"

definition k_mget ::
    "nat \<Rightarrow> arg list \<Rightarrow> (resp list) client_op" where
  "k_mget depth keys =
     (if keys = [] then ret []
     else bindE (execute depth (word ''MGET'' # keys)) (\<lambda>result. ret (list_or_empty result)))"

definition k_delete ::
    "nat \<Rightarrow> arg list \<Rightarrow> int client_op" where
  "k_delete depth keys =
     (if keys = [] then ret 0
     else bindE (execute depth (word ''DEL'' # keys)) (\<lambda>result. ret (int_or 0 result)))"

definition k_exists ::
    "nat \<Rightarrow> arg list \<Rightarrow> int client_op" where
  "k_exists depth keys =
     (if keys = [] then ret 0
     else bindE (execute depth (word ''EXISTS'' # keys)) (\<lambda>result. ret (int_or 0 result)))"

definition k_mset ::
    "nat \<Rightarrow> (arg \<times> arg) list \<Rightarrow> bool client_op" where
  "k_mset depth mapping =
     (if mapping = [] then ret True
     else bindE (execute depth (word ''MSET'' # items_args mapping)) (\<lambda>result. ret (is_ok_text result)))"

definition k_incr ::
    "nat \<Rightarrow> arg \<Rightarrow> int \<Rightarrow> int client_op" where
  "k_incr depth key amount =
     (if amount = 1 then bindE (execute depth [word ''INCR'', key]) (\<lambda>result. ret (int_or 0 result))
     else bindE (execute depth [word ''INCRBY'', key, num amount]) (\<lambda>result. ret (int_or 0 result)))"

definition k_incrby ::
    "nat \<Rightarrow> arg \<Rightarrow> int \<Rightarrow> int client_op" where
  "k_incrby depth key amount =
     k_incr depth key amount"

definition k_decr ::
    "nat \<Rightarrow> arg \<Rightarrow> int \<Rightarrow> int client_op" where
  "k_decr depth key amount =
     (if amount = 1 then bindE (execute depth [word ''DECR'', key]) (\<lambda>result. ret (int_or 0 result))
     else bindE (execute depth [word ''DECRBY'', key, num amount]) (\<lambda>result. ret (int_or 0 result)))"

definition k_decrby ::
    "nat \<Rightarrow> arg \<Rightarrow> int \<Rightarrow> int client_op" where
  "k_decrby depth key amount =
     k_decr depth key amount"

definition k_append ::
    "nat \<Rightarrow> arg \<Rightarrow> arg \<Rightarrow> int client_op" where
  "k_append depth key value =
     bindE (execute depth [word ''APPEND'', key, value]) (\<lambda>result. ret (int_or 0 result))"

definition k_strlen ::
    "nat \<Rightarrow> arg \<Rightarrow> int client_op" where
  "k_strlen depth key =
     bindE (execute depth [word ''STRLEN'', key]) (\<lambda>result. ret (int_or 0 result))"

definition k_expire ::
    "nat \<Rightarrow> arg \<Rightarrow> int \<Rightarrow> bool client_op" where
  "k_expire depth key seconds =
     bindE (execute depth [word ''EXPIRE'', key, num seconds]) (\<lambda>result. ret (result = RInt 1))"

definition k_pexpire ::
    "nat \<Rightarrow> arg \<Rightarrow> int \<Rightarrow> bool client_op" where
  "k_pexpire depth key milliseconds =
     bindE (execute depth [word ''PEXPIRE'', key, num milliseconds]) (\<lambda>result. ret (result = RInt 1))"

definition k_expireat ::
    "nat \<Rightarrow> arg \<Rightarrow> int \<Rightarrow> bool client_op" where
  "k_expireat depth key timestamp =
     bindE (execute depth [word ''EXPIREAT'', key, num timestamp]) (\<lambda>result. ret (result = RInt 1))"

definition k_pexpireat ::
    "nat \<Rightarrow> arg \<Rightarrow> int \<Rightarrow> bool client_op" where
  "k_pexpireat depth key timestamp_ms =
     bindE (execute depth [word ''PEXPIREAT'', key, num timestamp_ms]) (\<lambda>result. ret (result = RInt 1))"

definition k_ttl ::
    "nat \<Rightarrow> arg \<Rightarrow> int client_op" where
  "k_ttl depth key =
     bindE (execute depth [word ''TTL'', key]) (\<lambda>result. ret (int_or (-2) result))"

definition k_pttl ::
    "nat \<Rightarrow> arg \<Rightarrow> int client_op" where
  "k_pttl depth key =
     bindE (execute depth [word ''PTTL'', key]) (\<lambda>result. ret (int_or (-2) result))"

definition k_persist ::
    "nat \<Rightarrow> arg \<Rightarrow> bool client_op" where
  "k_persist depth key =
     bindE (execute depth [word ''PERSIST'', key]) (\<lambda>result. ret (result = RInt 1))"

definition k_info ::
    "nat \<Rightarrow> 'f env \<Rightarrow> ustr option \<Rightarrow> ustr client_op" where
  "k_info depth env section_name =
     bindE (execute depth (word ''INFO'' # (case section_name of None \<Rightarrow> [] | Some s \<Rightarrow> [Str s]))) (\<lambda>result.
     ret (text_or env [] result))"

definition k_dbsize ::
    "nat \<Rightarrow> int client_op" where
  "k_dbsize depth =
     bindE (execute depth [word ''DBSIZE'']) (\<lambda>result. ret (int_or 0 result))"

definition k_type ::
    "nat \<Rightarrow> 'f env \<Rightarrow> arg \<Rightarrow> ustr client_op" where
  "k_type depth env key =
     bindE (execute depth [word ''TYPE'', key]) (\<lambda>result. ret (text_or env (u ''none'') result))"

definition k_flushdb ::
    "nat \<Rightarrow> bool client_op" where
  "k_flushdb depth =
     bindE (execute depth [word ''FLUSHDB'']) (\<lambda>result. ret (is_ok_or_true result))"

definition k_flushall ::
    "nat \<Rightarrow> bool client_op" where
  "k_flushall depth =
     bindE (execute depth [word ''FLUSHALL'']) (\<lambda>result. ret (is_ok_or_true result))"

definition k_vadd ::
    "nat \<Rightarrow> 'f env \<Rightarrow> arg \<Rightarrow> arg \<Rightarrow> 'f vector \<Rightarrow> arg option \<Rightarrow> int option \<Rightarrow> int \<Rightarrow> ustr list option \<Rightarrow> arg option \<Rightarrow> bool client_op" where
  "k_vadd depth env index item_id vector payload ex tag_mask tags parent_key =
     bindE (liftE (vector_bytes env vector)) (\<lambda>raw.
     bindE (liftE (tags_to_bitmask (e_sha256 env) (e_lower env) tags tag_mask)) (\<lambda>computed_tag_mask.
     bindE (execute depth ([word ''VADD'', index, item_id, num (int (vector_dim vector)), Bytes raw] @
       (case payload of None \<Rightarrow> [] | Some p \<Rightarrow> [word ''PAYLOAD'', p]) @
       (case ex of None \<Rightarrow> [] | Some n \<Rightarrow> [word ''EX'', num n]) @
       (if computed_tag_mask > 0 then [word ''TAGS'', num computed_tag_mask] else []) @
       (case parent_key of None \<Rightarrow> [] | Some k \<Rightarrow> [word ''PARENT'', k]))) (\<lambda>result.
     ret (result = RInt 1 \<or> result = RStr (u ''OK'')))))"

definition k_vsearch ::
    "nat \<Rightarrow> 'f env \<Rightarrow> arg \<Rightarrow> 'f vector \<Rightarrow> int \<Rightarrow> 'f \<Rightarrow> int \<Rightarrow> ustr list option \<Rightarrow> ('f vmatch list) client_op" where
  "k_vsearch depth env index query top_k threshold filter_mask filter_tags =
     bindE (liftE (vector_bytes env query)) (\<lambda>query_bytes.
     bindE (liftE (tags_to_bitmask (e_sha256 env) (e_lower env) filter_tags filter_mask)) (\<lambda>computed_filter_mask.
     bindE (execute depth ([word ''VSEARCH'', index, Bytes query_bytes, word ''TOPK'', num top_k,
         word ''THRESHOLD'', Str (e_str env threshold)] @
       (if computed_filter_mask > 0 then [word ''FILTER'', num computed_filter_mask] else []))) (\<lambda>raw_results.
     case raw_results of RList items \<Rightarrow> liftE (parse_matches env items) | _ \<Rightarrow> ret [])))"

definition k_vdel ::
    "nat \<Rightarrow> arg \<Rightarrow> arg \<Rightarrow> bool client_op" where
  "k_vdel depth index item_id =
     bindE (execute depth [word ''VDEL'', index, item_id]) (\<lambda>result. ret (result = RInt 1))"

definition k_vadd_batch ::
    "nat \<Rightarrow> 'f env \<Rightarrow> arg \<Rightarrow> (arg \<times> 'f vector \<times> arg option) list \<Rightarrow> int option \<Rightarrow> int client_op" where
  "k_vadd_batch depth env index items ex =
     (if items = [] then ret 0
     else bindE (liftE (batch_items env ex items)) (\<lambda>args.
          bindE (execute depth ([word ''VADD_BATCH'', index] @ args)) (\<lambda>result. ret (int_or 0 result))))"

definition k_vsearch_batch ::
    "nat \<Rightarrow> 'f env \<Rightarrow> arg \<Rightarrow> 'f vector list \<Rightarrow> int \<Rightarrow> 'f \<Rightarrow> ('f hit list list) client_op" where
  "k_vsearch_batch depth env index query_vectors top_k threshold =
     (if query_vectors = [] then ret []
     else bindE (liftE (batch_queries env query_vectors)) (\<lambda>args.
          bindE (execute depth ([word ''VSEARCH_BATCH'', index] @ args @
            [word ''TOPK'', num top_k, word ''THRESHOLD'', Str (e_str env threshold)])) (\<lambda>raw_batch.
          ret (case raw_batch of RList rs \<Rightarrow> parse_batch env rs | _ \<Rightarrow> []))))"

definition k_vstats ::
    "nat \<Rightarrow> 'f env \<Rightarrow> arg \<Rightarrow> ((ustr \<times> resp) list option) client_op" where
  "k_vstats depth env index =
     bindE (execute depth [word ''VSTATS'', index]) (\<lambda>raw.
     case raw of RList xs \<Rightarrow> liftE (map_sumE Some (pairs_dict env id xs [])) | _ \<Rightarrow> ret None)"

definition k_auth ::
    "nat \<Rightarrow> ustr \<Rightarrow> ustr option \<Rightarrow> bool client_op" where
  "k_auth depth password username =
     bindE (execute depth (word ''AUTH'' # (case username of None \<Rightarrow> [] | Some n \<Rightarrow> [Str n]) @ [Str password])) (\<lambda>result.
     ret (result = RBytes ''OK'' \<or> result = RStr (u ''OK'')))"

definition k_bgrewriteaof ::
    "nat \<Rightarrow> 'f env \<Rightarrow> ustr client_op" where
  "k_bgrewriteaof depth env =
     bindE (execute depth [word ''BGREWRITEAOF'']) (\<lambda>result.
     ret (case result of RBytes b \<Rightarrow> utf8_decode_replace b | _ \<Rightarrow> str_resp env result))"

definition k_vindex_create ::
    "nat \<Rightarrow> arg \<Rightarrow> int \<Rightarrow> int \<Rightarrow> int \<Rightarrow> int \<Rightarrow> ustr \<Rightarrow> ustr \<Rightarrow> bool client_op" where
  "k_vindex_create depth name dim m ef_construction ef_search metric quantization =
     bindE (execute depth [word ''VINDEX'', word ''CREATE'', name, word ''DIM'', num dim, word ''M'', num m,
       word ''EF_CONSTRUCTION'', num ef_construction, word ''EF_SEARCH'', num ef_search,
       word ''METRIC'', Str metric, word ''QUANTIZATION'', Str quantization]) (\<lambda>result.
     ret (result = RBytes ''OK'' \<or> result = RStr (u ''OK'')))"

definition k_vindex_drop ::
    "nat \<Rightarrow> arg \<Rightarrow> bool client_op" where
  "k_vindex_drop depth name =
     bindE (execute depth [word ''VINDEX'', word ''DROP'', name]) (\<lambda>result. ret (result = RInt 1))"

definition k_vindex_info ::
    "nat \<Rightarrow> 'f env \<Rightarrow> arg \<Rightarrow> ((ustr \<times> resp) list option) client_op" where
  "k_vindex_info depth env name =
     bindE (execute depth [word ''VINDEX'', word ''INFO'', name]) (\<lambda>raw.
     case raw of RList xs \<Rightarrow> liftE (map_sumE Some (pairs_dict env decode_if_text xs [])) | _ \<Rightarrow> ret None)"

section \<open>Counted slots that are not idle\<close>

definition spare :: "('c, 'd) pool_of \<Rightarrow> int" where
  "spare p = p_active p - int (length (p_queue p))"

lemma spare_on_conn: "hoare (\<lambda>p. spare p = n) (on_conn i m) (\<lambda>_ p. spare p = n) (\<lambda>_ p. spare p = n)"
  by (rule hoareI) (auto dest!: on_conn_keeps simp: spare_def)

lemma spare_forget_one: "hoare (\<lambda>p. spare p = n + 1) forget_one (\<lambda>_ p. spare p = n) E"
  by (rule hoareI) (auto simp: forget_one_def spare_def)

lemma spare_take_idle:
  "hoare (\<lambda>p. spare p = n) (take_idle d) (\<lambda>found p. spare p = (if found = None then n else n + 1)) (\<lambda>_ _. True)"
  unfolding take_idle_def
proof (rule hoare_bind [where R = "\<lambda>found p. spare p = (if found = None then n else n + 1)"])
  show "hoare (\<lambda>p. spare p = n) pop_idle (\<lambda>found p. spare p = (if found = None then n else n + 1)) (\<lambda>_ _. True)"
    by (rule hoareI) (auto simp: pop_idle_def spare_def split: list.splits)
next
  fix found :: "nat option"
  show "hoare (\<lambda>p. spare p = (if found = None then n else n + 1))
     (case found of None \<Rightarrow> ret None | Some i \<Rightarrow>
        bindE (getsE (\<lambda>p. is_connected (conn_at p i))) (\<lambda>open.
        bindE (if open then on_conn i (check_health d) else ret False) (\<lambda>healthy.
        if healthy then ret (Some i)
        else bindE (on_conn i disconnect) (\<lambda>_. bindE forget_one (\<lambda>_. ret None)))))
     (\<lambda>found p. spare p = (if found = None then n else n + 1)) (\<lambda>_ _. True)"
  proof (cases found)
    case None
    then show ?thesis by (simp add: hoare_ret)
  next
    case (Some i)
    have 1: "hoare (\<lambda>p. spare p = n + 1) (if open then on_conn i (check_health d) else ret False)
        (\<lambda>_ p. spare p = n + 1) (\<lambda>_ _. True)" for "open"
      by (intro hoare_if hoare_ret hoare_weaken [OF spare_on_conn]) auto
    have 2: "hoare (\<lambda>p. spare p = n + 1) (on_conn i disconnect) (\<lambda>_ p. spare p = n + 1) (\<lambda>_ _. True)"
      by (rule hoare_weaken [OF spare_on_conn]) auto
    have 3: "hoare (\<lambda>p. spare p = n + 1)
        (if healthy then ret (Some i) else bindE (on_conn i disconnect) (\<lambda>_. bindE forget_one (\<lambda>_. ret None)))
        (\<lambda>found p. spare p = (if found = None then n else n + 1)) (\<lambda>_ _. True)" for healthy
      by (intro hoare_if hoare_ret hoare_bind [OF 2] hoare_bind [OF spare_forget_one]) simp_all
    show ?thesis
      unfolding Some option.case by (rule hoare_bind [OF hoare_gets hoare_bind [OF 1 3]]) simp
  qed
qed

lemma spare_open_new:
  "hoare (\<lambda>p. spare p = n) (open_new d) (\<lambda>_ p. spare p = n + 1) (\<lambda>_ _. True)"
proof -
  have dial: "hoare (\<lambda>p. spare p = n + 1) next_dial (\<lambda>_ p. spare p = n + 1) (\<lambda>_ _. True)"
    by (rule hoareI) (auto simp: next_dial_def spare_def split: list.splits)
  have res: "hoare (\<lambda>p. spare p = n) reserve (\<lambda>_ p. spare p = n + 1) (\<lambda>_ _. True)"
    by (rule hoareI) (auto simp: reserve_def spare_def split: if_splits)
  have new: "hoare (\<lambda>p. spare p = n + 1) new_connection (\<lambda>_ p. spare p = n + 1) (\<lambda>_ _. True)"
    by (rule hoareI) (auto simp: new_connection_def spare_def)
  have conn: "hoare (\<lambda>p. spare p = n + 1) (on_conn i m) (\<lambda>_ p. spare p = n + 1) (\<lambda>_ _. True)"
    for i and m :: "unit conn_op"
    by (rule hoare_weaken [OF spare_on_conn]) auto
  have ask: "hoare (\<lambda>p. spare p = n + 1) (ask_auth d i pw) (\<lambda>_ p. spare p = n + 1) (\<lambda>_ _. True)" for i pw
    unfolding ask_auth_def by (rule hoare_bind [OF conn hoare_weaken [OF spare_on_conn]]) auto
  have auth: "hoare (\<lambda>p. spare p = n + 1) (authenticate d i pw) (\<lambda>_ p. spare p = n + 1) (\<lambda>_ _. True)" for i pw
    unfolding authenticate_def
    by (rule hoare_bind [OF ask hoare_if])
      (intro hoare_bind [OF conn] hoare_bind [OF spare_forget_one] hoare_raise hoare_ret; simp)+
  have opt: "hoare (\<lambda>p. spare p = n + 1) (case password of None \<Rightarrow> ret () | Some pw \<Rightarrow> authenticate d i pw)
      (\<lambda>_ p. spare p = n + 1) (\<lambda>_ _. True)" for i password
    by (cases password) (simp_all add: auth hoare_ret)
  show ?thesis
    unfolding open_new_def
    by (rule hoare_bind [OF res], rule hoare_bind [OF new], rule hoare_bind [OF dial], rule hoare_bind [OF conn],
        rule hoare_bind [OF hoare_gets], assumption, rule hoare_bind [OF opt], rule hoare_ret)
qed

lemma spare_get_connection:
  "hoare (\<lambda>p. spare p = n) (get_connection d) (\<lambda>_ p. spare p = n + 1) (\<lambda>_ _. True)"
  unfolding get_connection_def
proof (rule hoare_bind [OF spare_take_idle])
  fix found
  show "hoare (\<lambda>p. spare p = (if found = None then n else n + 1))
     (case found of None \<Rightarrow> open_new d | Some i \<Rightarrow> ret i) (\<lambda>_ p. spare p = n + 1) (\<lambda>_ _. True)"
    by (cases found) (simp_all add: spare_open_new hoare_ret)
qed

lemma release_connection_ends: "\<exists>p'. release_connection i p = (Inr (), p') \<and> spare p' = spare p - 1"
  by (auto simp: release_connection_def bindE_run put_idle_def on_conn_def set_conn_def disconnect_def
      forget_one_def spare_def)

section \<open>The shape of \<open>execute\<close>\<close>

text \<open>The request on the connection: what \<open>execute\<close> does between checkout and return.\<close>

definition request :: "nat \<Rightarrow> arg list \<Rightarrow> resp conn_op" where
  "request depth args = try_except
     (bindE (send_command args) (\<lambda>_. read_response depth))
     (\<lambda>e. bindE disconnect (\<lambda>_. raise e))"

lemma on_conn_bindE:
  assumes "i < length (p_conns p)"
  shows "bindE (on_conn i m) (\<lambda>x. on_conn i (k x)) p = on_conn i (bindE m k) p"
  using assms by (auto simp: bindE_run on_conn_def conn_at_def set_conn_def split: prod.split sum.split)

lemma execute_run:
  assumes "get_conn depth k = (Inr i, k1)" and "i < length (p_conns (k_pool k1))"
  shows "execute depth args k =
    (case on_conn i (request depth args) (k_pool k1) of (r, p) \<Rightarrow>
       (case release_conn i (k1\<lparr>k_pool := p\<rparr>) of
          (Inl e, k2) \<Rightarrow> (Inl e, k2)
        | (Inr _, k2) \<Rightarrow> (r, k2)))"
proof -
  obtain r c where r: "bindE (send_command args) (\<lambda>_. read_response depth) (conn_at (k_pool k1) i) = (r, c)"
    by (cases "bindE (send_command args) (\<lambda>_. read_response depth) (conn_at (k_pool k1) i)")
  have "bindE (on_conn i (send_command args)) (\<lambda>_. on_conn i (read_response depth)) (k_pool k1) =
      (r, set_conn i c (k_pool k1))"
    using r by (simp add: on_conn_bindE [OF assms(2)] on_conn_def)
  then have body: "bindE (on_pool (on_conn i (send_command args))) (\<lambda>_. on_pool (on_conn i (read_response depth))) k1 =
      (r, k1\<lparr>k_pool := set_conn i c (k_pool k1)\<rparr>)"
    by (auto simp: bindE_run on_pool_def split: prod.splits sum.splits)
  show ?thesis
  proof (cases r)
    case (Inr v)
    with assms r body show ?thesis
      by (simp add: execute_def try_finally_run on_conn_def request_def split: prod.split sum.split)
  next
    case (Inl e)
    with assms r body show ?thesis
      by (simp add: execute_def try_finally_run on_conn_def request_def on_pool_def bindE_run disconnect_def
          conn_at_def set_conn_def split: prod.split sum.split)
  qed
qed

lemma request_fails_closed: "request depth args c = (Inl e, c') \<Longrightarrow> \<not> is_connected c'"
  by (auto simp: request_def try_except_run bindE_run disconnect_def is_connected_def
      split: prod.splits sum.splits)

lemma request_closed: "\<not> is_connected c \<Longrightarrow> request depth args c = (Inl ConnectionError, c)"
  by (cases c) (simp add: request_def try_except_run bindE_run disconnect_def is_connected_def send_command_def)

lemma get_conn_dedicated: "k_conn k = Some i \<Longrightarrow> get_conn depth k = (Inr i, k)"
  by (simp add: get_conn_def bindE_run)

lemma release_conn_dedicated: "k_conn k = Some i \<Longrightarrow> release_conn j k = (Inr (), k)"
  by (simp add: release_conn_def bindE_run)

lemma execute_dedicated:
  assumes "k_conn k = Some i" and "i < length (p_conns (k_pool k))"
    and "request depth args (conn_at (k_pool k) i) = (r, c)"
  shows "execute depth args k = (r, k\<lparr>k_pool := set_conn i c (k_pool k)\<rparr>)"
  using assms
  by (simp add: execute_run [OF get_conn_dedicated] on_conn_def release_conn_dedicated)

lemma conn_at_set_conn [simp]: "i < length (p_conns p) \<Longrightarrow> conn_at (set_conn i c p) i = c"
  by (simp add: conn_at_def set_conn_def)

section \<open>Theorems about the client\<close>

text \<open>Inside a \<open>with\<close> block, a command sends exactly its encoding on the dedicated connection and
  returns the server's reply to it; the connection stays with the client and ready, and the replies
  behind it are untouched.\<close>

theorem dedicated_command:
  assumes "k_conn k = Some i" and "i < length (p_conns (k_pool k))"
    and "conn_ready (conn_at (k_pool k) i)"
    and "conn_view (conn_at (k_pool k) i) = (resp_wire v @ rest, out, decoding)"
    and "reply_ok v" and "resp_depth v \<le> d" and "encode_command args = Inr w"
    and "decode_reply decoding v = Inr result"
  shows "\<exists>c. execute d args k = (Inr result, k\<lparr>k_pool := set_conn i c (k_pool k)\<rparr>) \<and>
    conn_ready c \<and> conn_view c = (rest, out @ w, decoding)"
proof -
  obtain c where c: "bindE (send_command args) (\<lambda>_. read_response d) (conn_at (k_pool k) i) = (decode_reply decoding v, c)"
      "conn_ready c" "conn_view c = (rest, out @ w, decoding)"
    using command_reply_run [OF assms(3-7)] by blast
  then have "request d args (conn_at (k_pool k) i) = (Inr result, c)"
    using assms(8) by (simp add: request_def)
  from execute_dedicated [OF assms(1,2) this] c show ?thesis by blast
qed

definition in_block :: "sock \<Rightarrow> client" where
  "in_block s = \<lparr>k_pool = local_pool 1 None []\<lparr>p_active := 1, p_conns := [local_connection (Some s)]\<rparr>, k_conn = Some 0\<rparr>"

lemma dedicated_command_witness:
  "\<exists>c. execute 1 [word ''INCR'', word ''n''] (in_block \<lparr>rx = [Data ('':4'' @ crlf)], tx = [], sent = []\<rparr>)
     = (Inr (RInt 4), (in_block \<lparr>rx = [Data ('':4'' @ crlf)], tx = [], sent = []\<rparr>)\<lparr>k_pool :=
          set_conn 0 c (k_pool (in_block \<lparr>rx = [Data ('':4'' @ crlf)], tx = [], sent = []\<rparr>))\<rparr>) \<and>
   conn_ready c \<and>
   conn_view c = ([], [] @ ''*2'' @ crlf @ ''$4'' @ crlf @ ''INCR'' @ crlf @ ''$1'' @ crlf @ ''n'' @ crlf, False)"
proof -
  let ?s = "\<lparr>rx = [Data ('':4'' @ crlf)], tx = [], sent = []\<rparr>"
  have at: "conn_at (k_pool (in_block ?s)) 0 = local_connection (Some ?s)"
    by (simp add: in_block_def conn_at_def)
  have ready: "conn_ready (local_connection (Some ?s))" by code_simp
  have view: "conn_view (local_connection (Some ?s)) = (resp_wire (RInt 4) @ [], [], False)" by code_simp
  have w: "encode_command [word ''INCR'', word ''n''] =
      Inr (''*2'' @ crlf @ ''$4'' @ crlf @ ''INCR'' @ crlf @ ''$1'' @ crlf @ ''n'' @ crlf)" by code_simp
  show ?thesis
    by (rule dedicated_command [OF _ _ ready [folded at] view [folded at] _ _ w])
      (simp_all add: in_block_def decode_reply_def)
qed

text \<open>A command inside a \<open>with\<close> block that raises, a mere error reply of the server included, closes the
  dedicated connection and keeps it: every further command of the block raises \<open>ConnectionError\<close>.\<close>

theorem failed_command_ends_block:
  assumes "k_conn k = Some i" and "i < length (p_conns (k_pool k))" and "execute d args k = (Inl e, k')"
  shows "k_conn k' = Some i \<and> \<not> is_connected (conn_at (k_pool k') i) \<and>
    (\<forall>d' args'. execute d' args' k' = (Inl ConnectionError, k'))"
proof -
  obtain r c where r: "request d args (conn_at (k_pool k) i) = (r, c)"
    by (cases "request d args (conn_at (k_pool k) i)")
  with execute_dedicated [OF assms(1,2) r] assms(3) have k': "r = Inl e" "k' = k\<lparr>k_pool := set_conn i c (k_pool k)\<rparr>"
    by auto
  have closed: "\<not> is_connected c" using request_fails_closed r k'(1) by blast
  have i: "k_conn k' = Some i" "i < length (p_conns (k_pool k'))" "conn_at (k_pool k') i = c"
    using assms(1,2) k'(2) by (simp_all add: set_conn_def conn_at_def)
  have "execute d' args' k' = (Inl ConnectionError, k')" for d' args'
  proof -
    have "execute d' args' k' = (Inl ConnectionError, k'\<lparr>k_pool := set_conn i c (k_pool k')\<rparr>)"
      by (rule execute_dedicated [OF i(1,2)]) (simp add: i(3) request_closed [OF closed])
    moreover have "k'\<lparr>k_pool := set_conn i c (k_pool k')\<rparr> = k'"
      using i(2) k'(2) by (simp add: set_conn_def)
    ultimately show ?thesis by simp
  qed
  with i closed show ?thesis by simp
qed

lemma failed_command_ends_block_witness:
  "fst (execute 1 [word ''GET'', word ''k''] (in_block \<lparr>rx = [Data (''-ERR x'' @ crlf @ ''+PONG'' @ crlf)], tx = [], sent = []\<rparr>))
     = Inl (ResponseError (u ''ERR x'')) \<and>
   fst (execute 1 [word ''PING''] (snd (execute 1 [word ''GET'', word ''k'']
     (in_block \<lparr>rx = [Data (''-ERR x'' @ crlf @ ''+PONG'' @ crlf)], tx = [], sent = []\<rparr>)))) = Inl ConnectionError"
proof -
  let ?k = "in_block \<lparr>rx = [Data (''-ERR x'' @ crlf @ ''+PONG'' @ crlf)], tx = [], sent = []\<rparr>"
  have e: "fst (execute 1 [word ''GET'', word ''k''] ?k) = Inl (ResponseError (u ''ERR x''))" by code_simp
  then have "execute 1 [word ''GET'', word ''k''] ?k =
      (Inl (ResponseError (u ''ERR x'')), snd (execute 1 [word ''GET'', word ''k''] ?k))"
    by (metis prod.collapse)
  from failed_command_ends_block [OF _ _ this] e show ?thesis
    by (simp add: in_block_def)
qed

text \<open>C4: Outside a \<open>with\<close> block every command that got a connection gives it back, whether it returns or
  raises: the slots in use are as many as before, nothing more is handed out, and a connection the
  command failed on is closed.\<close>

theorem per_call_command_returns_connection:
  assumes "k_conn k = None" and "books b H (k_pool k)"
    and "get_connection d (k_pool k) = (Inr i, p)" and "execute d args k = (r, k')"
  shows "k_conn k' = None \<and> books b H (k_pool k') \<and> spare (k_pool k') = spare (k_pool k) \<and>
    (\<forall>e. r = Inl e \<longrightarrow> i \<notin> set (p_queue (k_pool k')) \<and> \<not> is_connected (conn_at (k_pool k') i))"
proof -
  have live: "live is_connected b H i p" using hoare_Inr [OF books_get_connection assms(2,3)] .
  then have held: "held b H i p" and len: "i < length (p_conns p)"
    by (auto simp: live_def held_def books_def)
  have got: "get_conn d k = (Inr i, k\<lparr>k_pool := p\<rparr>)"
    using assms(1,3) by (simp add: get_conn_def bindE_run on_pool_def)
  obtain r1 c where req: "request d args (conn_at p i) = (r1, c)" by (cases "request d args (conn_at p i)")
  let ?p1 = "set_conn i c p"
  have on: "on_conn i (request d args) p = (r1, ?p1)" using req by (simp add: on_conn_def)
  obtain p2 where p2: "release_connection i ?p1 = (Inr (), p2)" "spare p2 = spare ?p1 - 1"
    using release_connection_ends by blast
  have run: "execute d args k = (r1, k\<lparr>k_pool := p2\<rparr>)"
    using assms(1) len p2(1) on
    by (simp add: execute_run [OF got] release_conn_def bindE_run on_pool_def)
  then have r: "r = r1" "k' = k\<lparr>k_pool := p2\<rparr>" using assms(4) by auto
  have held1: "held b H i ?p1"
    using held on hoare_Inl [OF held_on_conn held] hoare_Inr [OF held_on_conn held]
    by (auto simp: held_def books_def set_conn_def)
  then have books: "books b H p2" using hoare_Inr [OF held_release_connection _ p2(1)] by blast
  have "spare p = spare (k_pool k) + 1"
    using hoare_Inr [OF spare_get_connection _ assms(3)] by blast
  then have spare: "spare p2 = spare (k_pool k)"
    using p2(2) by (simp add: spare_def set_conn_def)
  have "i \<notin> set (p_queue p2) \<and> \<not> is_connected (conn_at p2 i)" if "r1 = Inl e" for e
  proof -
    have "\<not> is_connected c" using request_fails_closed req that by blast
    then have "p2 = set_conn i (c\<lparr>c_reader := None\<rparr>) ?p1\<lparr>p_active := p_active p - 1\<rparr>"
      using p2(1) len by (auto simp: release_connection_def bindE_run on_conn_def disconnect_def forget_one_def
          set_conn_def conn_at_def)
    moreover have "i \<notin> set (p_queue p)" using held by (auto simp: held_def books_def)
    ultimately show ?thesis using len by (simp add: set_conn_def conn_at_def is_connected_def)
  qed
  with assms(1) r books spare show ?thesis by simp
qed

lemma per_call_command_returns_connection_witness:
  "spare (k_pool (snd (execute 1 [word ''PING''] (KacheClient (local_pool 1 None [answers_verified quiet]))))) = 0"
proof -
  let ?k = "KacheClient (local_pool 1 None [answers_verified quiet])"
  let ?p = "local_pool 1 None []\<lparr>p_active := 1,
    p_conns := [configured (local_pool 1 None [])\<lparr>c_reader := Some (RespReader quiet read_chunk_size)\<rparr>]\<rparr>"
  have k: "k_conn ?k = None" by (simp add: KacheClient_def)
  have b: "books True {} (k_pool ?k)" by (simp add: KacheClient_def books_start)
  have g: "get_connection 1 (k_pool ?k) = (Inr 0, ?p)"
    using local_pool_opens [of 1 1 quiet] by (simp add: KacheClient_def)
  obtain r k' where e: "execute 1 [word ''PING''] ?k = (r, k')" by (cases "execute 1 [word ''PING''] ?k")
  from per_call_command_returns_connection [OF k b g e] e show ?thesis
    by (simp add: KacheClient_def ConnectionPool_def spare_def local_pool_def)
qed

text \<open>\<open>pipeline()\<close> outside a \<open>with\<close> block checks a connection out and nothing ever returns it: after as
  many pipelines as \<open>max_connections\<close>, every call raises \<open>PoolExhaustedError\<close>.\<close>

theorem pipelines_exhaust_pool:
  assumes "p_dials cfg = map answers_verified ss @ later" and "p_max cfg = int (length ss)"
    and "\<not> p_ssl cfg" and "p_password cfg = None"
  shows "\<exists>k. ((\<lambda>k. snd (client_pipeline d k)) ^^ length ss) (KacheClient cfg) = k \<and>
    (\<forall>d' args. execute d' args k = (Inl (PoolExhaustedError (int (length ss))), k))"
proof -
  let ?f = "\<lambda>k. snd (client_pipeline d k)"
  let ?inv = "\<lambda>n k. k_conn k = None \<and> p_queue (k_pool k) = [] \<and> p_active (k_pool k) = int n \<and>
    p_max (k_pool k) = int (length ss) \<and> p_dials (k_pool k) = map answers_verified (drop n ss) @ later \<and>
    \<not> p_ssl (k_pool k) \<and> p_password (k_pool k) = None"
  have "?inv n ((?f ^^ n) (KacheClient cfg))" if "n \<le> length ss" for n
    using that
  proof (induction n)
    case 0
    then show ?case using assms by (simp add: KacheClient_def ConnectionPool_def)
  next
    case (Suc n)
    let ?k = "(?f ^^ n) (KacheClient cfg)"
    from Suc have inv: "?inv n ?k" by simp
    have drop: "drop n ss = ss ! n # drop (Suc n) ss" using Suc.prems by (simp add: Cons_nth_drop_Suc)
    have "get_connection d (k_pool ?k) = (Inr (length (p_conns (k_pool ?k))),
        (k_pool ?k)\<lparr>p_active := p_active (k_pool ?k) + 1, p_dials := map answers_verified (drop (Suc n) ss) @ later,
          p_conns := p_conns (k_pool ?k) @
            [configured (k_pool ?k)\<lparr>c_reader := Some (RespReader (ss ! n) read_chunk_size)\<rparr>]\<rparr>)"
      using inv drop Suc.prems by (intro opened_plain [where dl = "answers_verified (ss ! n)"])
        (simp_all add: answers_verified_def)
    with inv show ?case
      by (simp add: client_pipeline_def get_conn_def bindE_run on_pool_def)
  qed
  from this [of "length ss"] have inv: "?inv (length ss) ((?f ^^ length ss) (KacheClient cfg))" by simp
  have "execute d' args k = (Inl (PoolExhaustedError (int (length ss))), k)" if "?inv (length ss) k" for k d' args
  proof -
    have "get_connection d' (k_pool k) = (Inl (PoolExhaustedError (p_max (k_pool k))), k_pool k)"
      using that by (intro exhausted) auto
    with that show ?thesis by (simp add: execute_def get_conn_def bindE_run on_pool_def)
  qed
  with inv show ?thesis by blast
qed

lemma pipelines_exhaust_pool_witness:
  "\<exists>k. ((\<lambda>k. snd (client_pipeline 1 k)) ^^ 1) (KacheClient (local_pool 1 None [answers_verified quiet])) = k \<and>
     execute 1 [word ''PING''] k = (Inl (PoolExhaustedError 1), k)"
  using pipelines_exhaust_pool [of "local_pool 1 None [answers_verified quiet]" "[quiet]" "[]" 1]
  by (simp add: local_pool_def)

text \<open>Opening a connection touches neither the others nor the queue.\<close>

definition has_conn :: "nat \<Rightarrow> connection \<Rightarrow> nat list \<Rightarrow> pool \<Rightarrow> bool" where
  "has_conn i c q p \<longleftrightarrow> i < length (p_conns p) \<and> conn_at p i = c \<and> p_queue p = q"

lemma has_conn_other: "j \<noteq> i \<Longrightarrow> hoare (has_conn i c q) (on_conn j m) (\<lambda>_. has_conn i c q) (\<lambda>_. has_conn i c q)"
  by (rule hoareI) (auto simp: has_conn_def on_conn_def set_conn_def conn_at_def split: prod.splits)

lemma open_new_other:
  "hoare (has_conn i c q) (open_new d) (\<lambda>j p. j \<noteq> i \<and> has_conn i c q p) (\<lambda>_. has_conn i c q)"
proof -
  have res: "hoare (has_conn i c q) reserve (\<lambda>_. has_conn i c q) (\<lambda>_. has_conn i c q)"
    by (rule hoareI) (auto simp: reserve_def has_conn_def conn_at_def split: if_splits)
  have new: "hoare (has_conn i c q) new_connection (\<lambda>j p. j \<noteq> i \<and> has_conn i c q p) (\<lambda>_. has_conn i c q)"
    by (rule hoareI) (auto simp: new_connection_def has_conn_def conn_at_def nth_append)
  have rest: "hoare (\<lambda>p. j \<noteq> i \<and> has_conn i c q p)
      (bindE next_dial (\<lambda>dl. bindE (on_conn j (connect dl)) (\<lambda>_. bindE (getsE p_password) (\<lambda>password.
       bindE (case password of None \<Rightarrow> ret () | Some pw \<Rightarrow> authenticate d j pw) (\<lambda>_. ret j)))))
      (\<lambda>j p. j \<noteq> i \<and> has_conn i c q p) (\<lambda>_. has_conn i c q)" for j
  proof (cases "j = i")
    case False
    have dial: "hoare (has_conn i c q) next_dial (\<lambda>_. has_conn i c q) (\<lambda>_. has_conn i c q)"
      by (rule hoareI) (auto simp: next_dial_def has_conn_def conn_at_def split: list.splits)
    have forget: "hoare (has_conn i c q) forget_one (\<lambda>_. has_conn i c q) (\<lambda>_. has_conn i c q)"
      by (rule hoareI) (auto simp: forget_one_def has_conn_def conn_at_def)
    have auth: "hoare (has_conn i c q) (authenticate d j pw) (\<lambda>_. has_conn i c q) (\<lambda>_. has_conn i c q)" for pw
      unfolding authenticate_def ask_auth_def
      by (rule hoare_bind [OF hoare_bind [OF has_conn_other [OF False] has_conn_other [OF False]] hoare_if])
        (intro hoare_bind [OF has_conn_other [OF False]] hoare_bind [OF forget] hoare_raise hoare_ret; simp)+
    have opt: "hoare (has_conn i c q) (case password of None \<Rightarrow> ret () | Some pw \<Rightarrow> authenticate d j pw)
        (\<lambda>_. has_conn i c q) (\<lambda>_. has_conn i c q)" for password
      by (cases password) (simp_all add: auth hoare_ret)
    have "hoare (has_conn i c q)
        (bindE next_dial (\<lambda>dl. bindE (on_conn j (connect dl)) (\<lambda>_. bindE (getsE p_password) (\<lambda>password.
         bindE (case password of None \<Rightarrow> ret () | Some pw \<Rightarrow> authenticate d j pw) (\<lambda>_. ret j)))))
        (\<lambda>j p. j \<noteq> i \<and> has_conn i c q p) (\<lambda>_. has_conn i c q)"
      by (rule hoare_bind [OF dial], rule hoare_bind [OF has_conn_other [OF False]],
          rule hoare_bind [OF hoare_gets], assumption, rule hoare_bind [OF opt], rule hoare_ret)
        (simp add: False)
    then show ?thesis by (rule hoare_weaken) auto
  qed (simp add: hoare_def)
  show ?thesis unfolding open_new_def by (rule hoare_bind [OF res hoare_bind [OF new rest]])
qed

text \<open>An idle connection that fails the health check is closed and leaves the queue and the count.\<close>

lemma unhealthy_take_idle:
  assumes "p_queue p = i # q" and "i < length (p_conns p)" and "is_connected (conn_at p i)"
    and "fst (check_health d (conn_at p i)) = Inr False"
  shows "\<exists>c. take_idle d p = (Inr None, p\<lparr>p_queue := q, p_active := p_active p - 1,
    p_conns := (p_conns p)[i := c\<lparr>c_reader := None\<rparr>]\<rparr>)"
proof -
  obtain c where "check_health d (conn_at p i) = (Inr False, c)"
    using assms(4) by (cases "check_health d (conn_at p i)") simp
  with assms(1-3) show ?thesis
    by (intro exI [of _ c]) (simp add: take_idle_def pop_idle_def bindE_run on_conn_def conn_at_def set_conn_def
        disconnect_def forget_one_def)
qed

text \<open>What an earlier command may have left unread: a reply that does not read as \<open>PONG\<close>, or an error reply.\<close>

definition stale_inbox :: "nat \<Rightarrow> bool \<Rightarrow> bytes \<Rightarrow> bool" where
  "stale_inbox d decoding inbox \<longleftrightarrow>
     (\<exists>v rest. inbox = resp_wire v @ rest \<and> reply_ok v \<and> resp_depth v \<le> d \<and>
        v \<noteq> RStr (u ''PONG'') \<and> \<not> (decoding \<and> v = RBytes ''PONG'')) \<or>
     (\<exists>t b rest. inbox = ''-'' @ b @ crlf @ rest \<and> utf8_encode t = Inr b \<and> find_crlf b = None \<and> 0 < d)"

lemma stale_unhealthy:
  assumes "conn_ready c" and "conn_view c = (inbox, out, decoding)" and "stale_inbox d decoding inbox"
  shows "fst (check_health d c) = Inr False"
  using assms(3) unfolding stale_inbox_def
proof (elim disjE exE conjE)
  fix v rest
  assume v: "inbox = resp_wire v @ rest" "reply_ok v" "resp_depth v \<le> d" "v \<noteq> RStr (u ''PONG'')"
    "\<not> (decoding \<and> v = RBytes ''PONG'')"
  show ?thesis
    using health_check_value [OF assms(1) assms(2) [unfolded v(1)] v(2,3)] v(4,5) unfolding decodes_to_PONG by simp
next
  fix t b rest
  assume e: "inbox = ''-'' @ b @ crlf @ rest" "utf8_encode t = Inr b" "find_crlf b = None" "0 < d"
  show ?thesis by (rule health_check_error [OF assms(1) assms(2) [unfolded e(1)] e(2-4)])
qed

text \<open>C33: When the idle connection that is next in the queue has an unread reply of an earlier command, a value that
  does not read as \<open>PONG\<close> or an error, it is not reused: whether \<open>get_connection\<close> then succeeds or raises, it does not
  hand that connection out, which is closed and taken from the queue. (An unread \<open>PONG\<close> passes the check: \<open>stale_PONG_is_reused\<close>.)\<close>

theorem stale_connection_not_reused:
  assumes "p_queue p = i # q" and "i < length (p_conns p)"
    and "conn_ready (conn_at p i)" and "conn_view (conn_at p i) = (inbox, out, decoding)"
    and "stale_inbox d decoding inbox" and "get_connection d p = (r, p')"
  shows "r \<noteq> Inr i \<and> \<not> is_connected (conn_at p' i) \<and> p_queue p' = q"
proof -
  have "is_connected (conn_at p i)"
    using assms(3) by (auto simp: conn_ready_def is_connected_def split: option.splits)
  then obtain c p2 where p2: "take_idle d p = (Inr None, p2)" "has_conn i (c\<lparr>c_reader := None\<rparr>) q p2"
    using unhealthy_take_idle [OF assms(1,2) _ stale_unhealthy [OF assms(3-5)]] assms(2)
    by (auto simp: has_conn_def conn_at_def)
  then have run: "open_new d p2 = (r, p')"
    using assms(6) by (simp add: get_connection_def bindE_run)
  show ?thesis
  proof (cases r)
    case (Inl e)
    then show ?thesis using hoare_Inl [OF open_new_other p2(2)] run by (fastforce simp: has_conn_def is_connected_def)
  next
    case (Inr j)
    then show ?thesis using hoare_Inr [OF open_new_other p2(2)] run by (fastforce simp: has_conn_def is_connected_def)
  qed
qed

lemma stale_connection_not_reused_witness:
  "\<exists>p'. get_connection 1 (local_pool 1 None [answers_verified quiet]\<lparr>p_queue := [0], p_active := 1,
       p_conns := [local_connection (Some \<lparr>rx = [Data (''-ERR'' @ crlf)], tx = [], sent = []\<rparr>)]\<rparr>) = (Inr 1, p') \<and>
     \<not> is_connected (conn_at p' 0)"
proof -
  let ?c = "local_connection (Some \<lparr>rx = [Data (''-ERR'' @ crlf)], tx = [], sent = []\<rparr>)"
  let ?p = "local_pool 1 None [answers_verified quiet]\<lparr>p_queue := [0], p_active := 1, p_conns := [?c]\<rparr>"
  have at: "conn_at ?p 0 = ?c" by (simp add: conn_at_def)
  have ready: "conn_ready (conn_at ?p 0)" unfolding at by code_simp
  have view: "conn_view (conn_at ?p 0) = (''-'' @ ''ERR'' @ crlf @ [], [], False)" unfolding at by code_simp
  have err: "utf8_encode (u ''ERR'') = Inr ''ERR''" by (simp add: utf8_encode_u ascii_def)
  have stale: "stale_inbox 1 False (''-'' @ ''ERR'' @ crlf @ [])"
    unfolding stale_inbox_def
    by (intro disjI2 exI [of _ "u ''ERR''"] exI [of _ "''ERR''"] exI [of _ "[]"] conjI refl err) (code_simp, simp)
  have p: "p_queue ?p = 0 # []" "0 < length (p_conns ?p)" by simp_all
  have "is_connected (conn_at ?p 0)" unfolding at by code_simp
  then obtain c where t: "take_idle 1 ?p = (Inr None, ?p\<lparr>p_queue := [], p_active := p_active ?p - 1,
      p_conns := (p_conns ?p)[0 := c\<lparr>c_reader := None\<rparr>]\<rparr>)"
    using unhealthy_take_idle [OF p _ stale_unhealthy [OF ready view stale]] by blast
  then obtain p' where g: "get_connection 1 ?p = (Inr 1, p')"
    by (simp add: get_connection_def bindE_run open_new_run next_dial_def connect_def try_except_run
        or_OSError_def is_connected_def configured_def local_pool_def answers_verified_def)
  have "\<not> is_connected (conn_at p' 0)" using stale_connection_not_reused [OF p ready view stale g] by blast
  with g show ?thesis by blast
qed

text \<open>An unread \<open>PONG\<close> is taken for the answer of the health check: the connection is handed out again, and the
  answer of the check itself is the next thing its user will read.\<close>

theorem stale_PONG_is_reused:
  assumes "p_queue p = i # q" and "i < length (p_conns p)"
    and "conn_ready (conn_at p i)" and "conn_view (conn_at p i) = (''+PONG'' @ crlf @ rest, out, decoding)" and "0 < d"
  shows "\<exists>p' ping. get_connection d p = (Inr i, p') \<and> encode_command [Str (u ''PING'')] = Inr ping \<and>
    conn_ready (conn_at p' i) \<and> conn_view (conn_at p' i) = (rest, out @ ping, decoding)"
proof -
  obtain w where w: "encode_command [Str (u ''PING'')] = Inr w"
    by (simp add: encode_command_def encode_arg_u ascii_def)
  have pong: "resp_wire (RStr (u ''PONG'')) = ''+PONG'' @ crlf" by code_simp
  have "conn_view (conn_at p i) = (resp_wire (RStr (u ''PONG'')) @ rest, out, decoding)"
    unfolding pong using assms(4) by simp
  moreover have "reply_ok (RStr (u ''PONG''))" by code_simp
  moreover have "resp_depth (RStr (u ''PONG'')) \<le> d" using assms(5) by simp
  ultimately obtain c' where c': "bindE (send_command [Str (u ''PING'')]) (\<lambda>_. read_response d) (conn_at p i) =
      (decode_reply decoding (RStr (u ''PONG'')), c')" "conn_ready c'" "conn_view c' = (rest, out @ w, decoding)"
    using command_reply_run [OF assms(3) _ _ _ w] by blast
  have "check_health d (conn_at p i) = (Inr True, c')"
    using c'(1) by (auto simp: check_health_def try_except_run bindE_run decode_reply_def split: prod.splits sum.splits)
  moreover have "is_connected (conn_at p i)"
    using assms(3) by (auto simp: conn_ready_def is_connected_def split: option.splits)
  ultimately have "get_connection d p = (Inr i, p\<lparr>p_queue := q, p_conns := (p_conns p)[i := c']\<rparr>)"
    using assms(1,2) by (simp add: get_connection_def take_idle_def pop_idle_def bindE_run on_conn_def conn_at_def set_conn_def)
  then show ?thesis using w c'(2,3) assms(2) by (simp add: conn_at_def)
qed

lemma stale_PONG_is_reused_witness:
  "\<exists>p' ping. get_connection 1 (local_pool 1 None []\<lparr>p_queue := [0], p_active := 1,
       p_conns := [local_connection (Some \<lparr>rx = [Data (''+PONG'' @ crlf @ ''+PONG'' @ crlf)], tx = [], sent = []\<rparr>)]\<rparr>) = (Inr 0, p') \<and>
     conn_view (conn_at p' 0) = (''+PONG'' @ crlf, ping, False)"
proof -
  let ?c = "local_connection (Some \<lparr>rx = [Data (''+PONG'' @ crlf @ ''+PONG'' @ crlf)], tx = [], sent = []\<rparr>)"
  let ?p = "local_pool 1 None []\<lparr>p_queue := [0], p_active := 1, p_conns := [?c]\<rparr>"
  have at: "conn_at ?p 0 = ?c" by (simp add: conn_at_def)
  have ready: "conn_ready (conn_at ?p 0)" unfolding at by code_simp
  have view: "conn_view (conn_at ?p 0) = (''+PONG'' @ crlf @ ''+PONG'' @ crlf, [], False)" unfolding at by code_simp
  show ?thesis
    using stale_PONG_is_reused [where p = ?p and i = 0 and q = "[]", OF _ _ ready view, of 1] by auto
qed

end
