(* ===== verification/Pool_Progress.thy ===== *)
theory Pool_Progress
  imports Client
begin

text \<open>
  That the pool of \<open>pool.py\<close> makes progress: as long as no checkout fails for another reason than the limit and
  nobody calls \<open>disconnect_all\<close>, no slot is lost, so a caller gets a connection whenever fewer than the limit
  are out and the network answers.
\<close>

section \<open>The settings of a pool do not change\<close>

definition settings :: "pool \<Rightarrow> connection \<times> int \<times> ustr option" where
  "settings p = (configured p, p_max p, p_password p)"

lemma keeps_sections [py_intros]:
  "keeps settings pop_idle" "keeps settings (put_idle i)" "keeps settings forget_one" "keeps settings reserve"
  "keeps settings new_connection" "keeps settings next_dial" "keeps settings (on_conn i m)"
  by (auto intro!: keepsI simp: pop_idle_def put_idle_def forget_one_def reserve_def new_connection_def
      next_dial_def on_conn_def set_conn_def settings_def configured_def split: list.splits if_splits prod.splits)

lemma keeps_take_idle [py_intros]: "keeps settings (take_idle d)"
  unfolding take_idle_def by (intro py_intros) (auto split: option.split intro!: py_intros)

lemma keeps_get_connection: "keeps settings (get_connection d)"
  unfolding get_connection_def open_new_def authenticate_def ask_auth_def
  by (intro py_intros) (auto split: option.split intro!: py_intros)

lemma keeps_release_connection: "keeps settings (release_connection i)"
  unfolding release_connection_def by (intro py_intros)

section \<open>Checkouts that are served\<close>

text \<open>Looking for an idle connection does not raise and does not dial. When it finds none, the slot of a stale one
  has been given back.\<close>

lemma take_idle_returns:
  "\<exists>found p'. take_idle d p = (Inr found, p') \<and> p_dials p' = p_dials p \<and>
     (found = None \<longrightarrow> p_queue p = [] \<and> p' = p \<or> p_queue p \<noteq> [] \<and> p_active p' = p_active p - 1)"
proof (cases "p_queue p")
  case Nil
  then show ?thesis by (simp add: take_idle_empty)
next
  case (Cons i q)
  obtain r c where r: "check_health d (p_conns p ! i) = (r, c)" by (cases "check_health d (p_conns p ! i)")
  moreover have "\<exists>healthy. r = Inr healthy"
    using r by (auto simp: check_health_def try_except_run split: prod.splits sum.splits)
  ultimately show ?thesis
    using Cons by (auto simp: take_idle_def pop_idle_def bindE_run conn_at_def on_conn_def set_conn_def
        disconnect_def forget_one_def)
qed

text \<open>A connection that opens, whatever its settings, becomes the answer of \<open>open_new\<close> when no password is asked.\<close>

lemma open_new_succeeds:
  assumes "p_active p < p_max p" and "p_password p = None" and "p_dials p = dl # ds"
    and "connect dl (configured p) = (Inr (), c)"
  shows "\<exists>i p'. open_new d p = (Inr i, p')"
  using assms by (simp add: open_new_run next_dial_def)

lemma connect_fails: "connect dl c = (Inl e, c') \<Longrightarrow> e \<noteq> PoolExhaustedError n"
  by (auto simp: connect_def bindE_run try_except_run or_OSError_def tls_context_def
      create_default_context_def set_verify_none_def Let_def
      split: option.splits prod.splits sum.splits if_splits)

lemma exhausted_keeps_spare:
  assumes "get_connection d p = (Inl (PoolExhaustedError n), p')" and "p_password p = None"
  shows "spare p' = spare p"
proof -
  obtain found q where q: "take_idle d p = (Inr found, q)" using take_idle_returns by blast
  with assms(1) have none: "found = None" "open_new d q = (Inl (PoolExhaustedError n), p')"
    by (auto simp: get_connection_def bindE_run split: option.splits)
  have "spare q = spare p"
    using hoare_Inr [OF spare_take_idle _ q, of "spare p"] none(1) by simp
  moreover have "p_password q = None"
    using keepsD [OF keeps_take_idle q] assms(2) by (simp add: settings_def)
  then have "\<not> p_active q < p_max q"
    using none(2) connect_fails
    by (auto simp: open_new_run next_dial_def split: list.splits prod.splits sum.splits)
  then have "p' = q" using none(2) by (simp add: open_new_def bindE_run reserve_def)
  ultimately show ?thesis by simp
qed

section \<open>Histories without a lost slot\<close>

text \<open>The steps of \<open>pool_step\<close>, of which a checkout may fail at the limit only.\<close>

inductive orderly :: "nat \<Rightarrow> pool \<Rightarrow> pool \<times> nat set \<Rightarrow> bool" for depth cfg where
  start: "orderly depth cfg (ConnectionPool cfg, {})"
| served: "orderly depth cfg (p, H) \<Longrightarrow> get_connection depth p = (Inr i, p') \<Longrightarrow> orderly depth cfg (p', insert i H)"
| refused: "orderly depth cfg (p, H) \<Longrightarrow> get_connection depth p = (Inl (PoolExhaustedError n), p') \<Longrightarrow> orderly depth cfg (p', H)"
| give_back: "orderly depth cfg (p, H) \<Longrightarrow> i \<in> H \<Longrightarrow> release_connection i p = (r, p') \<Longrightarrow> orderly depth cfg (p', H - {i})"
| use: "orderly depth cfg (p, H) \<Longrightarrow> i \<in> H \<Longrightarrow> orderly depth cfg (set_conn i c p, H)"

lemma orderly_reach:
  "orderly depth cfg x \<Longrightarrow> pool_reach (get_connection depth) release_connection disconnect_all False cfg x"
  by (induction rule: orderly.induct) (auto intro: pool_reach.intros pool_step.intros)

lemma orderly_settings: "orderly depth cfg (p, H) \<Longrightarrow> settings p = settings cfg"
proof (induction "(p, H)" arbitrary: p H rule: orderly.induct)
  case start
  then show ?case by (simp add: settings_def ConnectionPool_def configured_def)
next
  case (use p H i c)
  then show ?case by (simp add: settings_def set_conn_def configured_def)
qed (simp_all add: keepsD [OF keeps_get_connection] keepsD [OF keeps_release_connection])

text \<open>The slots that are counted and not idle are those of the connections out.\<close>

lemma orderly_spare:
  assumes "orderly depth cfg (p, H)" and "p_password cfg = None"
  shows "spare p = int (card H)"
  using assms(1)
proof (induction "(p, H)" arbitrary: p H rule: orderly.induct)
  case start
  then show ?case by (simp add: spare_def ConnectionPool_def)
next
  case (served p H i p')
  have "spare p' = int (card H) + 1"
    using hoare_Inr [OF spare_get_connection served(2) served(3)] by simp
  moreover have "i \<notin> H" and "finite H"
    using sync_pool.exclusive [OF orderly_reach [OF served(1)] served(3)]
      sync_pool.reach_books [OF orderly_reach [OF served(1)], of False] by (auto simp: books_def)
  ultimately show ?case by simp
next
  case (refused p H n p')
  then show ?case
    using exhausted_keeps_spare orderly_settings assms(2) by (simp add: settings_def)
next
  case (give_back p H i r p')
  have "finite H" using sync_pool.reach_books [OF orderly_reach [OF give_back(1)], of False] by (simp add: books_def)
  then have "int (card (H - {i})) = int (card H) - 1"
    using give_back(3) card_Suc_Diff1 [of H i] by linarith
  moreover have "spare p' = spare p - 1" using give_back(4) release_connection_ends [of i p] by auto
  ultimately show ?case using give_back(2) by simp
next
  case (use p H i c)
  then show ?case by (simp add: spare_def set_conn_def)
qed


section \<open>Theorems about progress\<close>

text \<open>C8: The pool serves whoever may be served. After any history in which checkouts failed only at the limit,
  connections were used, broken and given back, and nobody called \<open>disconnect_all\<close>: if fewer than
  \<open>max_connections\<close> are out and the next attempt to connect succeeds, \<open>get_connection\<close> returns an open
  connection that nobody has. In a pool without a password; with TLS or without.\<close>

theorem pool_serves_below_limit:
  assumes "orderly depth cfg (p, H)" and "p_password cfg = None" and "int (card H) < p_max cfg"
    and "p_dials p = dl # ds" and "connect dl (configured cfg) = (Inr (), c)"
  shows "\<exists>i p'. get_connection depth p = (Inr i, p') \<and> i \<notin> H \<and> is_connected (conn_at p' i)"
proof -
  obtain found q where q: "take_idle depth p = (Inr found, q)" "p_dials q = dl # ds"
      "found = None \<longrightarrow> p_queue p = [] \<and> q = p \<or> p_queue p \<noteq> [] \<and> p_active q = p_active p - 1"
    using take_idle_returns [of depth p] assms(4) by auto
  have same: "settings q = settings cfg"
    using keepsD [OF keeps_take_idle q(1)] orderly_settings [OF assms(1)] by simp
  have limit: "p_active p \<le> max 0 (p_max cfg)"
    using sync_pool.limited [OF orderly_reach [OF assms(1)]] orderly_settings [OF assms(1)] by (simp add: settings_def)
  have "\<exists>i p'. get_connection depth p = (Inr i, p')"
  proof (cases found)
    case None
    have "p_active q < p_max q"
      using None q(3) limit orderly_spare [OF assms(1,2)] assms(3) same
      by (auto simp: spare_def settings_def)
    from open_new_succeeds [OF this _ q(2)] same assms(2,5)
    show ?thesis by (simp add: get_connection_def bindE_run q(1) None settings_def)
  next
    case (Some i)
    then show ?thesis by (simp add: get_connection_def bindE_run q(1))
  qed
  then show ?thesis using sync_pool.exclusive [OF orderly_reach [OF assms(1)]] by blast
qed

lemma pool_serves_below_limit_witness:
  "\<exists>p i p'. orderly 1 (local_pool 2 None [answers_verified quiet, answers_verified quiet]) (p, {0}) \<and>
     get_connection 1 p = (Inr i, p') \<and> i \<noteq> 0 \<and> is_connected (conn_at p' i)"
proof -
  let ?cfg = "local_pool 2 None [answers_verified quiet, answers_verified quiet]"
  let ?p = "snd (get_connection 1 (ConnectionPool ?cfg))"
  have run: "get_connection 1 (ConnectionPool ?cfg) = (Inr 0, ?p)" "p_dials ?p = [answers_verified quiet]"
    by (subst opened_plain [where dl = "answers_verified quiet" and ds = "[answers_verified quiet]" and s = quiet],
        simp_all add: ConnectionPool_def local_pool_def answers_verified_def)+
  have o: "orderly 1 ?cfg (?p, {0})" using orderly.served [OF orderly.start run(1)] by simp
  have "\<exists>c. connect (answers_verified quiet) (configured ?cfg) = (Inr (), c)"
    by (simp add: connect_def bindE_run try_except_run or_OSError_def is_connected_def configured_def local_pool_def
        answers_verified_def)
  then obtain c where c: "connect (answers_verified quiet) (configured ?cfg) = (Inr (), c)" by blast
  show ?thesis
    using pool_serves_below_limit [OF o _ _ run(2) c] o by (fastforce simp: local_pool_def)
qed

end
