(* ===== verification/Async_Pool.thy ===== *)
theory Async_Pool
  imports Pool Async_Transport
begin

text \<open>
  \<open>AsyncConnectionPool\<close> of \<open>pool.py\<close>: the same books as the synchronous pool, over transports (the
  triple of \<open>StreamReader\<close>, \<open>StreamWriter\<close> and \<open>AsyncRespReader\<close>). It satisfies the same contract,
  with two differences the theorems show: a failed connect gives its slot back, and an idle
  transport is not checked before it is reused.
\<close>

section \<open>Connecting\<close>

text \<open>\<open>asyncio.open_connection\<close> for a context and a \<open>server_hostname\<close>; \<open>None\<close> is an \<open>OSError\<close>.\<close>

record adial =
  ad_ca_loads :: bool
  ad_chain_loads :: bool
  ad_open :: "ssl_context option \<Rightarrow> ustr option \<Rightarrow> stream option"

type_synonym apool = "(stream reader, adial) pool_of"
type_synonym 'a apool_op = "(stream reader, adial, 'a) pool_do"

text \<open>\<open>__init__\<close> sets the same fields as that of the synchronous pool.\<close>

definition AsyncConnectionPool :: "apool \<Rightarrow> apool" where
  "AsyncConnectionPool cfg = ConnectionPool cfg"

definition next_adial :: "adial apool_op" where
  "next_adial p = (case p_dials p of
      [] \<Rightarrow> (Inr \<lparr>ad_ca_loads = False, ad_chain_loads = False, ad_open = (\<lambda>_ _. None)\<rparr>, p)
    | d # ds \<Rightarrow> (Inr d, p\<lparr>p_dials := ds\<rparr>))"

definition is_closing :: "stream reader \<Rightarrow> bool" where
  "is_closing r \<longleftrightarrow> st_closing (r_src r)"

definition close_writer :: "(stream reader, exc, unit) py" where
  "close_writer = on_stream stream_close"

definition a_ssl_context :: "adial \<Rightarrow> apool \<Rightarrow> (apool, exc, ssl_context option) py" where
  "a_ssl_context d p =
     (if \<not> p_ssl p then ret None
      else bindE (create_default_context (ad_ca_loads d)) (\<lambda>ctx0.
        let ctx1 = if \<not> p_ssl_check_hostname p
                   then \<lparr>check_hostname = False, verify_mode = CERT_NONE\<rparr> else ctx0 in
        bindE (if truthy (p_ssl_certfile p) \<and> truthy (p_ssl_keyfile p) \<and> \<not> ad_chain_loads d
               then raise BuiltinOSError else ret ()) (\<lambda>_.
        ret (Some ctx1))))"

text \<open>The \<open>try\<close> around \<open>open_connection\<close>, and the store of what it returns, which is not closing.\<close>

definition a_open :: "adial \<Rightarrow> ssl_context option \<Rightarrow> stream apool_op" where
  "a_open d ctx = bindE (getsE id) (\<lambda>p.
     try_except
       (or_OSError (ad_open d ctx (if p_ssl p \<and> p_ssl_check_hostname p then Some (p_host p) else None)))
       (\<lambda>e. if is_OSError e then bindE forget_one (\<lambda>_. raise ConnectionError) else raise e))"

definition add_transport :: "stream \<Rightarrow> nat apool_op" where
  "add_transport s p = (Inr (length (p_conns p)),
     p\<lparr>p_conns := p_conns p @ [AsyncRespReader (s\<lparr>st_closing := False\<rparr>) read_chunk_size]\<rparr>)"

definition a_authenticate :: "nat \<Rightarrow> nat \<Rightarrow> ustr \<Rightarrow> unit apool_op" where
  "a_authenticate depth i password =
     bindE (liftE (encode_command [Str (u ''AUTH''), Str password])) (\<lambda>data.
     bindE (on_conn i (write_drain data)) (\<lambda>_.
     bindE (on_conn i (a_parse_frame depth)) (\<lambda>res.
     if \<not> is_OK res then
       bindE (on_conn i close_writer) (\<lambda>_. bindE forget_one (\<lambda>_. raise ConnectionError))
     else ret ())))"

section \<open>Checkout and return\<close>

definition a_take_idle :: "nat option apool_op" where
  "a_take_idle = bindE pop_idle (\<lambda>found. case found of
      None \<Rightarrow> ret None
    | Some i \<Rightarrow>
        bindE (getsE (\<lambda>p. is_closing (conn_at p i))) (\<lambda>closing.
        if \<not> closing then ret (Some i)
        else bindE (on_conn i close_writer) (\<lambda>_. bindE forget_one (\<lambda>_. ret None))))"

definition a_open_new :: "nat \<Rightarrow> nat apool_op" where
  "a_open_new depth =
     bindE reserve (\<lambda>_.
     bindE next_adial (\<lambda>d.
     bindE (\<lambda>p. a_ssl_context d p p) (\<lambda>ctx.
     bindE (a_open d ctx) (\<lambda>s.
     bindE (add_transport s) (\<lambda>i.
     bindE (getsE p_password) (\<lambda>password.
     bindE (case password of None \<Rightarrow> ret () | Some pw \<Rightarrow> a_authenticate depth i pw) (\<lambda>_.
     ret i)))))))"

definition a_get_connection :: "nat \<Rightarrow> nat apool_op" where
  "a_get_connection depth = bindE a_take_idle (\<lambda>found. case found of
      Some i \<Rightarrow> ret i
    | None \<Rightarrow> a_open_new depth)"

definition a_release_connection :: "nat \<Rightarrow> unit apool_op" where
  "a_release_connection i =
     bindE (getsE (\<lambda>p. is_closing (conn_at p i))) (\<lambda>closing.
     bindE (if \<not> closing then put_idle i else ret False) (\<lambda>kept.
     if kept then ret ()
     else bindE (on_conn i close_writer) (\<lambda>_. forget_one)))"

primrec a_drain_idle :: "nat list \<Rightarrow> unit apool_op" where
  "a_drain_idle [] = ret ()"
| "a_drain_idle (i # q) =
     bindE (modifyE (\<lambda>p. p\<lparr>p_queue := q\<rparr>)) (\<lambda>_. bindE (on_conn i close_writer) (\<lambda>_. a_drain_idle q))"

definition a_disconnect_all :: "unit apool_op" where
  "a_disconnect_all = bindE (getsE p_queue) (\<lambda>q. bindE (a_drain_idle q) (\<lambda>_.
     modifyE (\<lambda>p. p\<lparr>p_active := 0\<rparr>)))"

section \<open>The contract\<close>

definition is_usable :: "stream reader \<Rightarrow> bool" where
  "is_usable r \<longleftrightarrow> \<not> is_closing r"

text \<open>The counter has a slot more than is accounted for: what \<open>reserve\<close> leaves.\<close>

definition slot_taken :: "bool \<Rightarrow> nat set \<Rightarrow> apool \<Rightarrow> bool" where
  "slot_taken b H p \<longleftrightarrow> books b H p \<and> (b \<longrightarrow> int (length (p_queue p) + card H) < p_active p)"

lemma slot_taken_books: "slot_taken b H p \<Longrightarrow> books b H p"
  by (simp add: slot_taken_def)

lemma reserve_slot: "hoare (books b H) reserve (\<lambda>_. slot_taken b H) (\<lambda>_. books b H)"
  by (rule hoareI) (auto simp: reserve_def slot_taken_def books_def split: if_splits)

lemma slot_next_adial: "hoare (slot_taken b H) next_adial (\<lambda>_. slot_taken b H) E"
  by (rule hoareI) (auto simp: next_adial_def slot_taken_def books_def split: list.splits)

lemma a_ssl_context_state: "a_ssl_context d p p = (r, q) \<Longrightarrow> q = p"
  by (auto simp: a_ssl_context_def bindE_run create_default_context_def Let_def split: if_splits)

lemma slot_ssl_context:
  "hoare (slot_taken b H) (\<lambda>p. a_ssl_context d p p) (\<lambda>_. slot_taken b H) (\<lambda>_. books b H)"
  by (rule hoareI) (auto dest: a_ssl_context_state simp: slot_taken_books)

lemma slot_open: "hoare (slot_taken b H) (a_open d ctx) (\<lambda>_. slot_taken b H) (\<lambda>_. books b H)"
  by (rule hoareI)
    (auto simp: a_open_def bindE_run try_except_run or_OSError_def forget_one_def slot_taken_def books_def
      split: option.splits if_splits)

definition usable :: "bool \<Rightarrow> nat set \<Rightarrow> nat \<Rightarrow> apool \<Rightarrow> bool" where
  "usable = live is_usable"

lemma usable_iff: "usable b H i p \<longleftrightarrow> held b H i p \<and> \<not> st_closing (r_src (conn_at p i))"
  by (simp add: usable_def live_def is_usable_def is_closing_def)

lemma slot_add_transport: "hoare (slot_taken b H) (add_transport s) (\<lambda>i. usable b H i) E"
proof (rule hoareI)
  fix p x q
  assume p: "slot_taken b H p" and "add_transport s p = (Inr x, q)"
  then have x: "x = length (p_conns p)" and
    q: "q = p\<lparr>p_conns := p_conns p @ [AsyncRespReader (s\<lparr>st_closing := False\<rparr>) read_chunk_size]\<rparr>"
    by (auto simp: add_transport_def)
  have "x \<notin> H" using p x by (auto simp: slot_taken_def books_def)
  with p x q show "usable b H x q"
    by (auto simp: usable_iff held_def slot_taken_def books_def conn_at_def AsyncRespReader_def less_Suc_eq)
qed (simp add: add_transport_def)

text \<open>Requests and replies leave the writer open.\<close>

lemma usable_on_conn:
  assumes "keeps (\<lambda>r. st_closing (r_src r)) m"
  shows "hoare (usable b H i) (on_conn i m) (\<lambda>_. usable b H i) (\<lambda>_. books b H)"
proof (rule hoareI)
  fix p e q
  assume "usable b H i p" "on_conn i m p = (Inl e, q)"
  then show "books b H q" using hoare_Inl [OF held_on_conn] by (auto simp: usable_iff)
next
  fix p x q
  assume h: "usable b H i p" and m: "on_conn i m p = (Inr x, q)"
  then have held: "held b H i p" by (simp add: usable_iff)
  have "held b H i q" by (rule hoare_Inr [OF held_on_conn held m])
  moreover have "m (conn_at p i) = (Inr x, conn_at q i)"
    using held m by (intro on_conn_at) (auto simp: held_def books_def)
  ultimately show "usable b H i q"
    using h keepsD [OF assms] by (auto simp: usable_iff)
qed

lemma held_close: "hoare (usable b H i) (on_conn i close_writer) (\<lambda>_. held b H i) (\<lambda>_. books b H)"
  by (rule hoare_weaken [OF held_on_conn]) (auto simp: usable_iff)

lemma usable_authenticate:
  "hoare (usable b H i) (a_authenticate d i pw) (\<lambda>_. usable b H i) (\<lambda>_. books b H)"
proof -
  have enc: "hoare (usable b H i) (liftE r) (\<lambda>_. usable b H i) (\<lambda>_. books b H)" for r :: "exc + bytes"
    by (rule hoareI) (auto simp: usable_iff held_books)
  show ?thesis
    unfolding a_authenticate_def
    by (rule hoare_bind [OF enc], rule hoare_bind [OF usable_on_conn [OF write_drain_closing]],
        rule hoare_bind [OF usable_on_conn [OF a_parse_frame_closing]], rule hoare_if)
      (intro hoare_bind [OF held_close] hoare_bind [OF held_forget_one] hoare_raise hoare_ret; assumption)+
qed

lemma books_a_take_idle:
  "hoare (books b H) a_take_idle
     (\<lambda>found p. case found of None \<Rightarrow> books b H p | Some i \<Rightarrow> usable b H i p) (\<lambda>_. books b H)"
  unfolding a_take_idle_def
proof (rule hoare_bind [OF books_pop_idle])
  fix found :: "nat option"
  let ?post = "\<lambda>found p. case found of None \<Rightarrow> books b H p | Some i \<Rightarrow> usable b H i p"
  show "hoare (\<lambda>p. case found of None \<Rightarrow> books b H p | Some i \<Rightarrow> held b H i p)
     (case found of None \<Rightarrow> ret None | Some i \<Rightarrow>
        bindE (getsE (\<lambda>p. is_closing (conn_at p i))) (\<lambda>closing.
        if \<not> closing then ret (Some i)
        else bindE (on_conn i close_writer) (\<lambda>_. bindE forget_one (\<lambda>_. ret None))))
     ?post (\<lambda>_. books b H)"
  proof (cases found)
    case None
    then show ?thesis by (simp add: hoare_ret)
  next
    case (Some i)
    have check: "hoare (held b H i) (getsE (\<lambda>p. is_closing (conn_at p i)))
        (\<lambda>closing p. held b H i p \<and> closing = st_closing (r_src (conn_at p i))) (\<lambda>_. books b H)"
      by (rule hoare_gets) (simp add: is_closing_def)
    have keep: "hoare (\<lambda>p. held b H i p \<and> closing = st_closing (r_src (conn_at p i)))
        (if \<not> closing then ret (Some i)
         else bindE (on_conn i close_writer) (\<lambda>_. bindE forget_one (\<lambda>_. ret None)))
        ?post (\<lambda>_. books b H)" for closing
    proof (cases closing)
      case True
      have "hoare (held b H i) (bindE (on_conn i close_writer) (\<lambda>_. bindE forget_one (\<lambda>_. ret None)))
          ?post (\<lambda>_. books b H)"
        by (intro hoare_bind [OF held_on_conn] hoare_bind [OF held_forget_one] hoare_ret) simp
      with True show ?thesis by (simp add: hoare_weaken)
    next
      case False
      then show ?thesis by (simp add: hoare_ret usable_iff)
    qed
    show ?thesis unfolding Some option.case by (rule hoare_bind [OF check keep])
  qed
qed

lemma books_a_open_new: "hoare (books b H) (a_open_new d) (\<lambda>i. usable b H i) (\<lambda>_. books b H)"
proof -
  have opt: "hoare (usable b H i) (case password of None \<Rightarrow> ret () | Some pw \<Rightarrow> a_authenticate d i pw)
      (\<lambda>_. usable b H i) (\<lambda>_. books b H)" for i password
    by (cases password) (simp_all add: usable_authenticate hoare_ret)
  show ?thesis
    unfolding a_open_new_def
    by (rule hoare_bind [OF reserve_slot], rule hoare_bind [OF slot_next_adial],
        rule hoare_bind [OF slot_ssl_context], rule hoare_bind [OF slot_open],
        rule hoare_bind [OF slot_add_transport], rule hoare_bind [OF hoare_gets], assumption,
        rule hoare_bind [OF opt], rule hoare_ret)
qed

lemma books_a_get_connection:
  "hoare (books b H) (a_get_connection d) (\<lambda>i. live is_usable b H i) (\<lambda>_. books b H)"
  unfolding a_get_connection_def usable_def [symmetric]
proof (rule hoare_bind [OF books_a_take_idle])
  fix found
  show "hoare (\<lambda>p. case found of None \<Rightarrow> books b H p | Some i \<Rightarrow> usable b H i p)
     (case found of None \<Rightarrow> a_open_new d | Some i \<Rightarrow> ret i) (\<lambda>i. usable b H i) (\<lambda>_. books b H)"
    by (cases found) (simp_all add: books_a_open_new hoare_ret)
qed

lemma held_a_release_connection:
  "hoare (held b H i) (a_release_connection i) (\<lambda>_. books b H) (\<lambda>_. books b H)"
  unfolding a_release_connection_def
proof (rule hoare_bind [where R = "\<lambda>_. held b H i"])
  show "hoare (held b H i) (getsE (\<lambda>p. is_closing (conn_at p i))) (\<lambda>_. held b H i) (\<lambda>_. books b H)"
    by (rule hoare_gets)
next
  fix closing
  have put: "hoare (held b H i) (if \<not> closing then put_idle i else ret False)
      (\<lambda>kept p. if kept then books b H p else held b H i p) (\<lambda>_. books b H)"
    by (intro hoare_if held_put_idle hoare_ret) simp
  have rest: "hoare (\<lambda>p. if kept then books b H p else held b H i p)
      (if kept then ret () else bindE (on_conn i close_writer) (\<lambda>_. forget_one))
      (\<lambda>_. books b H) (\<lambda>_. books b H)" for kept
    by (cases kept) (auto intro: hoare_ret hoare_bind [OF held_on_conn] held_forget_one)
  show "hoare (held b H i)
     (bindE (if \<not> closing then put_idle i else ret False) (\<lambda>kept. if kept then ret ()
       else bindE (on_conn i close_writer) (\<lambda>_. forget_one))) (\<lambda>_. books b H) (\<lambda>_. books b H)"
    by (rule hoare_bind [OF put rest])
qed

lemma books_a_drain_idle:
  "hoare (\<lambda>p. books b H p \<and> p_queue p = q) (a_drain_idle q) (\<lambda>_ p. books False H p \<and> p_queue p = [])
     (\<lambda>_. books False H)"
proof (induction q arbitrary: b)
  case Nil
  show ?case by (simp add: hoare_def books_def)
next
  case (Cons i q)
  have "hoare (\<lambda>p. books b H p \<and> p_queue p = i # q) (modifyE (\<lambda>p. p\<lparr>p_queue := q\<rparr>))
      (\<lambda>_ p. books False H p \<and> p_queue p = q) E" for E
    by (rule hoare_modify) (auto simp: books_def)
  moreover have "hoare (\<lambda>p. books False H p \<and> p_queue p = q) (on_conn i close_writer)
      (\<lambda>_ p. books False H p \<and> p_queue p = q) (\<lambda>_. books False H)"
    by (rule hoareI) (auto dest!: on_conn_keeps simp: books_def)
  ultimately show ?case
    unfolding a_drain_idle.simps by (intro hoare_bind [OF _ hoare_bind [OF _ Cons.IH]])
qed

lemma books_a_disconnect_all:
  "hoare (books b H) a_disconnect_all (\<lambda>_. books False H) (\<lambda>_. books False H)"
  unfolding a_disconnect_all_def
  by (intro hoare_bind [where R = "\<lambda>q p. books b H p \<and> p_queue p = q"] hoare_gets
      hoare_bind [OF books_a_drain_idle] hoare_modify) (auto simp: books_def)

interpretation async_pool: pool_contract "a_get_connection depth" a_release_connection a_disconnect_all is_usable
  for depth
  by unfold_locales (rule books_a_get_connection held_a_release_connection books_a_disconnect_all)+

end
