(* ===== verification/Async_Tasks.thy ===== *)
theory Async_Tasks
  imports Async_Pool Pool_Threads
begin

text \<open>
  \<open>AsyncConnectionPool\<close> among asyncio tasks. A task runs until it awaits: at \<open>async with self._lock\<close>, at
  \<open>open_connection\<close>, and in the exchange of \<open>AUTH\<close>. What lies between two such points is one step here, and at each of
  them the task may be cancelled, which raises in it an exception that no clause of the code catches.
\<close>

section \<open>Tasks\<close>

text \<open>The exchange of \<open>AUTH\<close> on a transport that no other task has.\<close>

definition a_ask_auth :: "nat \<Rightarrow> nat \<Rightarrow> ustr \<Rightarrow> resp apool_op" where
  "a_ask_auth depth i password =
     bindE (liftE (encode_command [Str (u ''AUTH''), Str password])) (\<lambda>data.
     bindE (on_conn i (write_drain data)) (\<lambda>_. on_conn i (a_parse_frame depth)))"

lemma a_authenticate_ask:
  "a_authenticate depth i password = bindE (a_ask_auth depth i password) (\<lambda>res.
     if \<not> is_OK res then
       bindE (on_conn i close_writer) (\<lambda>_. bindE forget_one (\<lambda>_. raise ConnectionError))
     else ret ())"
  by (rule ext) (simp add: a_authenticate_def a_ask_auth_def bindE_run split: prod.split sum.split)

text \<open>Which tasks wait for something that may be cancelled.\<close>

fun suspended :: "task \<Rightarrow> bool" where
  "suspended Outside = False"
| "suspended (Holding i) = False"
| "suspended _ = True"

inductive async_step :: "nat \<Rightarrow> bool \<Rightarrow> apool \<times> task \<Rightarrow> apool \<times> task \<Rightarrow> bool" for depth da where
  get_open: "pop_idle p = (Inr (Some i), p') \<Longrightarrow> \<not> is_closing (conn_at p' i) \<Longrightarrow>
    async_step depth da (p, Outside) (p', Holding i)"
| get_closing: "pop_idle p = (Inr (Some i), p1) \<Longrightarrow> is_closing (conn_at p1 i) \<Longrightarrow>
    on_conn i close_writer p1 = (Inr (), p') \<Longrightarrow> async_step depth da (p, Outside) (p', Stale i)"
| get_none: "pop_idle p = (Inr None, p') \<Longrightarrow> async_step depth da (p, Outside) (p', Wanting)"
| forget_stale: "forget_one p = (Inr (), p') \<Longrightarrow> async_step depth da (p, Stale i) (p', Wanting)"
| reserved: "reserve p = (Inr (), p') \<Longrightarrow> async_step depth da (p, Wanting) (p', Reserved)"
| full: "reserve p = (Inl e, p') \<Longrightarrow> async_step depth da (p, Wanting) (p', Outside)"
| no_context: "next_adial p = (Inr d, p1) \<Longrightarrow> a_ssl_context d p1 p1 = (Inl e, p') \<Longrightarrow>
    async_step depth da (p, Reserved) (p', Outside)"
| opened: "next_adial p = (Inr d, p1) \<Longrightarrow> a_ssl_context d p1 p1 = (Inr ctx, p2) \<Longrightarrow>
    ad_open d ctx (if p_ssl p2 \<and> p_ssl_check_hostname p2 then Some (p_host p2) else None) = Some s \<Longrightarrow>
    add_transport s p2 = (Inr i, p') \<Longrightarrow> async_step depth da (p, Reserved) (p', Opened i)"
| refused: "next_adial p = (Inr d, p1) \<Longrightarrow> a_ssl_context d p1 p1 = (Inr ctx, p') \<Longrightarrow>
    ad_open d ctx (if p_ssl p' \<and> p_ssl_check_hostname p' then Some (p_host p') else None) = None \<Longrightarrow>
    async_step depth da (p, Reserved) (p', Refused)"
| forget_refused: "forget_one p = (Inr (), p') \<Longrightarrow> async_step depth da (p, Refused) (p', Outside)"
| no_password: "p_password p = None \<Longrightarrow> async_step depth da (p, Opened i) (p, Holding i)"
| accepted: "p_password p = Some pw \<Longrightarrow> a_ask_auth depth i pw p = (Inr v, p') \<Longrightarrow> is_OK v \<Longrightarrow>
    async_step depth da (p, Opened i) (p', Holding i)"
| rejected: "p_password p = Some pw \<Longrightarrow> a_ask_auth depth i pw p = (Inr v, p1) \<Longrightarrow> \<not> is_OK v \<Longrightarrow>
    on_conn i close_writer p1 = (Inr (), p') \<Longrightarrow> async_step depth da (p, Opened i) (p', Rejected i)"
| auth_raises: "p_password p = Some pw \<Longrightarrow> a_ask_auth depth i pw p = (Inl e, p') \<Longrightarrow>
    async_step depth da (p, Opened i) (p', Outside)"
| forget_rejected: "forget_one p = (Inr (), p') \<Longrightarrow> async_step depth da (p, Rejected i) (p', Outside)"
| work: "async_step depth da (p, Holding i) (set_conn i c p, Holding i)"
| keep: "\<not> is_closing (conn_at p i) \<Longrightarrow> put_idle i p = (Inr True, p') \<Longrightarrow>
    async_step depth da (p, Holding i) (p', Outside)"
| discard_full: "\<not> is_closing (conn_at p i) \<Longrightarrow> put_idle i p = (Inr False, p1) \<Longrightarrow>
    on_conn i close_writer p1 = (Inr (), p') \<Longrightarrow> async_step depth da (p, Holding i) (p', Closing i)"
| discard_closing: "is_closing (conn_at p i) \<Longrightarrow> on_conn i close_writer p = (Inr (), p') \<Longrightarrow>
    async_step depth da (p, Holding i) (p', Closing i)"
| forget_closed: "forget_one p = (Inr (), p') \<Longrightarrow> async_step depth da (p, Closing i) (p', Outside)"
| close_all: "da \<Longrightarrow> a_drain_idle (p_queue p) p = (Inr (), p') \<Longrightarrow> async_step depth da (p, Outside) (p', Draining)"
| drained: "da \<Longrightarrow> async_step depth da (p, Draining) (p\<lparr>p_active := 0\<rparr>, Outside)"
| cancelled: "suspended t \<Longrightarrow> async_step depth da (p, t) (p, Outside)"
| cancelled_auth: "async_step depth da (p, Opened i) (set_conn i c p, Outside)"

lemma a_drain_idle_result:
  "a_drain_idle q p = (r, p') \<Longrightarrow> p_queue p = q \<Longrightarrow> p_queue p' = [] \<and> p_active p' = p_active p \<and> p_max p' = p_max p \<and>
     length (p_conns p') = length (p_conns p)"
proof (induction q arbitrary: p)
  case (Cons i q)
  obtain x p1 where p1: "on_conn i close_writer (p\<lparr>p_queue := q\<rparr>) = (x, p1)" by (cases "on_conn i close_writer (p\<lparr>p_queue := q\<rparr>)")
  then have x: "x = Inr ()" by (auto simp: on_conn_def close_writer_def on_stream_def stream_close_def split: prod.splits)
  then have "a_drain_idle q p1 = (r, p')" using Cons.prems(1) p1 by (simp add: bindE_run)
  moreover have "p_queue p1 = q" "p_active p1 = p_active p" "p_max p1 = p_max p" "length (p_conns p1) = length (p_conns p)"
    using on_conn_keeps [OF p1] by auto
  ultimately show ?case using Cons.IH [of p1] by simp
qed simp

lemma async_step_moves:
  assumes "async_step depth da (p, t) (p', t')"
  shows "moves da p t p' t'"
  using assms
  by (cases rule: async_step.cases)
    (auto simp: moves_def pop_idle_def put_idle_def forget_one_def reserve_def next_adial_def add_transport_def
       a_ask_auth_def set_conn_def bindE_run
       dest!: on_conn_keeps a_ssl_context_state a_drain_idle_result split: list.splits if_splits prod.splits sum.splits
       elim!: suspended.elims)

interpretation tasks: pool_tasks "async_step depth" for depth
  by unfold_locales (rule async_step_moves)


section \<open>A task that is not interrupted\<close>

lemma run_step: "async_step depth da x y \<Longrightarrow> (async_step depth da)\<^sup>*\<^sup>* y z \<Longrightarrow> (async_step depth da)\<^sup>*\<^sup>* x z"
  by (rule converse_rtranclp_into_rtranclp)

lemma one_step: "async_step depth da x y \<Longrightarrow> (async_step depth da)\<^sup>*\<^sup>* x y"
  by (rule r_into_rtranclp)

lemma close_writer_ends: "\<exists>p'. on_conn i close_writer p = (Inr (), p')"
  by (auto simp: on_conn_def close_writer_def on_stream_def stream_close_def split: prod.splits)

lemma a_authenticate_runs:
  assumes "a_authenticate depth i pw p = (r, p')" and "p_password p = Some pw"
  shows "(async_step depth da)\<^sup>*\<^sup>* (p, Opened i) (p', case r of Inl _ \<Rightarrow> Outside | Inr _ \<Rightarrow> Holding i)"
proof (cases "a_ask_auth depth i pw p")
  case (Pair x p1)
  show ?thesis
  proof (cases x)
    case (Inl e)
    with Pair assms(1) have "r = Inl e" "p' = p1" by (simp_all add: a_authenticate_ask bindE_run)
    then show ?thesis using async_step.auth_raises [OF assms(2) Pair [unfolded Inl]] by auto
  next
    case (Inr v)
    show ?thesis
    proof (cases "is_OK v")
      case True
      with Pair Inr assms(1) have "r = Inr ()" "p' = p1" by (simp_all add: a_authenticate_ask bindE_run)
      then show ?thesis using async_step.accepted [OF assms(2) Pair [unfolded Inr] True] by auto
    next
      case False
      obtain p2 where p2: "on_conn i close_writer p1 = (Inr (), p2)" using close_writer_ends by blast
      have r: "r = Inl ConnectionError" "p' = p2\<lparr>p_active := p_active p2 - 1\<rparr>"
        using Pair Inr False p2 assms(1) by (simp_all add: a_authenticate_ask bindE_run forget_one_ends)
      have "async_step depth da (p2, Rejected i) (p', Outside)"
        unfolding r(2) by (rule async_step.forget_rejected [OF forget_one_ends])
      then show ?thesis
        using run_step [OF async_step.rejected [OF assms(2) Pair [unfolded Inr] False p2]] r(1) by auto
    qed
  qed
qed

lemma a_open_new_runs:
  assumes "a_open_new depth p = (r, p')"
  shows "(async_step depth da)\<^sup>*\<^sup>* (p, Wanting) (p', after_get r)"
proof (cases "reserve p")
  case (Pair x p1)
  show ?thesis
  proof (cases x)
    case (Inl e)
    with Pair assms have "r = Inl e" "p' = p1" by (simp_all add: a_open_new_def bindE_run)
    then show ?thesis using async_step.full [OF Pair [unfolded Inl]] by (auto simp: after_get_def)
  next
    case (Inr y)
    obtain d p2 where d: "next_adial p1 = (Inr d, p2)" by (cases "p_dials p1") (auto simp: next_adial_def)
    obtain c p3 where c: "a_ssl_context d p2 p2 = (c, p3)" by (cases "a_ssl_context d p2 p2")
    have res: "async_step depth da (p, Wanting) (p1, Reserved)"
      by (rule async_step.reserved) (use Pair Inr in simp)
    show ?thesis
    proof (cases c)
      case (Inl e)
      then have "r = Inl e" "p' = p3" using Pair Inr d c assms by (simp_all add: a_open_new_def bindE_run)
      then show ?thesis
        using run_step [OF res one_step [OF async_step.no_context [OF d c [unfolded Inl]]]]
        by (simp add: after_get_def)
    next
      case ctx: (Inr ctx)
      let ?name = "if p_ssl p3 \<and> p_ssl_check_hostname p3 then Some (p_host p3) else None"
      show ?thesis
      proof (cases "ad_open d ctx ?name")
        case None
        then have r: "r = Inl ConnectionError" "p' = p3\<lparr>p_active := p_active p3 - 1\<rparr>"
          using Pair Inr d c ctx assms
          by (simp_all add: a_open_new_def bindE_run a_open_def try_except_run or_OSError_def forget_one_ends)
        have "async_step depth da (p3, Refused) (p', Outside)"
          unfolding r(2) by (rule async_step.forget_refused [OF forget_one_ends])
        then show ?thesis
          using run_step [OF res run_step [OF async_step.refused [OF d c [unfolded ctx] None]]] r(1)
          by (auto simp: after_get_def)
      next
        case (Some s)
        obtain i p4 where i: "add_transport s p3 = (Inr i, p4)" by (auto simp: add_transport_def)
        have run: "a_open_new depth p = bindE (case p_password p4 of None \<Rightarrow> ret () | Some pw \<Rightarrow> a_authenticate depth i pw)
            (\<lambda>_. ret i) p4"
          using Pair Inr d c ctx Some i
          by (simp add: a_open_new_def bindE_run a_open_def try_except_run or_OSError_def)
        have opened: "(async_step depth da)\<^sup>*\<^sup>* (p4, Opened i) y \<Longrightarrow> (async_step depth da)\<^sup>*\<^sup>* (p, Wanting) y" for y
          by (rule run_step [OF res run_step [OF async_step.opened [OF d c [unfolded ctx] Some i]]])
        show ?thesis
        proof (cases "p_password p4")
          case None
          then have "r = Inr i" "p' = p4" using run assms by (simp_all add: bindE_run)
          then show ?thesis using opened [OF one_step [OF async_step.no_password [OF None]]]
            by (simp add: after_get_def)
        next
          case (Some pw)
          obtain a p5 where a: "a_authenticate depth i pw p4 = (a, p5)" by (cases "a_authenticate depth i pw p4")
          then have "r = map_sumE (\<lambda>_. i) a" "p' = p5"
            using run assms Some by (cases a; simp add: bindE_run)+
          then show ?thesis
            using opened [OF a_authenticate_runs [OF a Some]] by (cases a) (simp_all add: after_get_def)
        qed
      qed
    qed
  qed
qed


lemma a_get_connection_runs:
  "(async_step depth da)\<^sup>*\<^sup>* (p, Outside) (snd (a_get_connection depth p), after_get (fst (a_get_connection depth p)))"
proof (cases "p_queue p")
  case Nil
  then have idle: "pop_idle p = (Inr None, p)" by (simp add: pop_idle_def)
  then have "a_get_connection depth p = a_open_new depth p"
    by (simp add: a_get_connection_def a_take_idle_def bindE_run)
  then show ?thesis
    using run_step [OF async_step.get_none [OF idle] a_open_new_runs] by (metis prod.collapse)
next
  case (Cons i q)
  let ?p1 = "p\<lparr>p_queue := q\<rparr>"
  have idle: "pop_idle p = (Inr (Some i), ?p1)" using Cons by (simp add: pop_idle_def)
  show ?thesis
  proof (cases "is_closing (conn_at ?p1 i)")
    case False
    then have "a_get_connection depth p = (Inr i, ?p1)"
      by (simp add: a_get_connection_def a_take_idle_def bindE_run idle)
    then show ?thesis using async_step.get_open [OF idle False] by (simp add: after_get_def one_step)
  next
    case True
    obtain p2 where p2: "on_conn i close_writer ?p1 = (Inr (), p2)" using close_writer_ends by blast
    have "a_get_connection depth p = a_open_new depth (p2\<lparr>p_active := p_active p2 - 1\<rparr>)"
      using True by (simp add: a_get_connection_def a_take_idle_def bindE_run idle p2 forget_one_ends)
    then show ?thesis
      using run_step [OF async_step.get_closing [OF idle True p2]
          run_step [OF async_step.forget_stale [OF forget_one_ends] a_open_new_runs]]
      by (metis prod.collapse)
  qed
qed

lemma a_discard_runs:
  assumes "async_step depth da x (p1, Closing i)"
  shows "(async_step depth da)\<^sup>*\<^sup>* x (p1\<lparr>p_active := p_active p1 - 1\<rparr>, Outside)"
  by (rule run_step [OF assms one_step [OF async_step.forget_closed [OF forget_one_ends]]])

lemma a_release_connection_runs:
  "(async_step depth da)\<^sup>*\<^sup>* (p, Holding i) (snd (a_release_connection i p), Outside)"
proof (cases "is_closing (conn_at p i)")
  case True
  obtain p1 where p1: "on_conn i close_writer p = (Inr (), p1)" using close_writer_ends by blast
  then have "snd (a_release_connection i p) = p1\<lparr>p_active := p_active p1 - 1\<rparr>"
    using True by (simp add: a_release_connection_def bindE_run forget_one_ends)
  then show ?thesis using a_discard_runs [OF async_step.discard_closing [OF True p1]] by simp
next
  case False
  show ?thesis
  proof (cases "queue_full p")
    case True
    obtain p1 where p1: "on_conn i close_writer p = (Inr (), p1)" using close_writer_ends by blast
    have put: "put_idle i p = (Inr False, p)" using True by (simp add: put_idle_def)
    have "snd (a_release_connection i p) = p1\<lparr>p_active := p_active p1 - 1\<rparr>"
      using False put p1 by (simp add: a_release_connection_def bindE_run forget_one_ends)
    then show ?thesis using a_discard_runs [OF async_step.discard_full [OF False put p1]] by simp
  next
    case room: False
    let ?p = "p\<lparr>p_queue := p_queue p @ [i]\<rparr>"
    have put: "put_idle i p = (Inr True, ?p)" using room by (simp add: put_idle_def)
    then have "snd (a_release_connection i p) = ?p" using False by (simp add: a_release_connection_def bindE_run)
    then show ?thesis using async_step.keep [OF False put] by (simp add: one_step)
  qed
qed

section \<open>Theorems about tasks\<close>

definition local_apool :: "int \<Rightarrow> apool" where
  "local_apool n = \<lparr>p_host = u ''127.0.0.1'', p_port = 6379, p_max = n, p_decode_responses = False, p_password = None,
     p_ssl = False, p_ssl_keyfile = None, p_ssl_certfile = None, p_ssl_check_hostname = True, p_queue = [], p_active = 0,
     p_conns = [], p_dials = [\<lparr>ad_ca_loads = True, ad_chain_loads = True,
       ad_open = (\<lambda>_ _. Some \<lparr>st_pending = [], st_end = Eof, st_written = [], st_drains = [], st_closing = False\<rparr>)\<rparr>]\<rparr>"

text \<open>C7: However asyncio interleaves the tasks at their \<open>await\<close>s, and whichever it cancels there, a transport is used by
  at most one task at a time, and never while it is idle in the queue; without \<open>disconnect_all\<close> the transports of
  the tasks and of the queue stay within \<open>max_connections\<close>.\<close>

theorem tasks_share_pool_safely:
  assumes "system_reach (async_step depth da) cfg (p, ts)"
  shows "(\<forall>j k i. j < length ts \<and> owner (ts ! j) = Some i \<and> k < length ts \<and> owner (ts ! k) = Some i \<longrightarrow>
      j = k \<and> i \<notin> set (p_queue p) \<and> i < length (p_conns p)) \<and>
    (da \<or> int (length (p_queue p) + length (filter (\<lambda>t. owner t \<noteq> None) ts)) \<le> max 0 (p_max p))"
proof (intro conjI allI impI)
  fix j k i
  assume "j < length ts \<and> owner (ts ! j) = Some i \<and> k < length ts \<and> owner (ts ! k) = Some i"
  then show "j = k" "i \<notin> set (p_queue p)" "i < length (p_conns p)"
    using tasks.exclusive [OF assms, of j i k] by simp_all
next
  show "da \<or> int (length (p_queue p) + length (filter (\<lambda>t. owner t \<noteq> None) ts)) \<le> max 0 (p_max p)"
    using tasks.limited [of depth cfg p ts] assms by (cases da) simp_all
qed

lemma one_task_opens:
  "system_reach (async_step 1 False) (local_apool 1) (snd (a_get_connection 1 (ConnectionPool (local_apool 1))), [Outside, Holding 0])"
proof -
  have start: "system_reach (async_step 1 False) (local_apool 1) (ConnectionPool (local_apool 1), [Outside, Outside])"
    using system_reach.start [of "async_step 1 False" "local_apool 1" 2] by (simp add: numeral_2_eq_2)
  have "after_get (fst (a_get_connection 1 (ConnectionPool (local_apool 1)))) = Holding 0"
    by (simp add: after_get_def a_get_connection_def a_take_idle_def pop_idle_def a_open_new_def reserve_def next_adial_def
        a_ssl_context_def a_open_def or_OSError_def try_except_run add_transport_def bindE_run ConnectionPool_def local_apool_def)
  with reach_run [OF a_get_connection_runs start, of 1] show ?thesis by simp
qed

lemma tasks_share_pool_safely_witness:
  "(1 :: nat) = 1 \<and> 0 \<notin> set (p_queue (snd (a_get_connection 1 (ConnectionPool (local_apool 1))))) \<and>
     0 < length (p_conns (snd (a_get_connection 1 (ConnectionPool (local_apool 1))))) \<and>
     (False \<or> int (length (p_queue (snd (a_get_connection 1 (ConnectionPool (local_apool 1))))) +
       length (filter (\<lambda>t. owner t \<noteq> None) [Outside, Holding 0])) \<le>
       max 0 (p_max (snd (a_get_connection 1 (ConnectionPool (local_apool 1))))))"
proof -
  note safe = tasks_share_pool_safely [OF one_task_opens]
  have "owner ([Outside, Holding 0] ! 1) = Some 0" "1 < length [Outside, Holding 0 :: task]" by simp_all
  then show ?thesis using conjunct1 [OF safe, rule_format, of 1 0 1] conjunct2 [OF safe] by blast
qed

text \<open>The same holds of a task that is not interrupted as of a thread: its steps are the methods.\<close>

theorem methods_are_task_runs:
  "(async_step depth da)\<^sup>*\<^sup>* (p, Outside) (snd (a_get_connection depth p), after_get (fst (a_get_connection depth p))) \<and>
   (async_step depth da)\<^sup>*\<^sup>* (p, Holding i) (snd (a_release_connection i p), Outside)"
  using a_get_connection_runs a_release_connection_runs by blast

text \<open>A task that is cancelled while it connects keeps its slot: after as many cancellations as \<open>max_connections\<close> the
  pool is exhausted for good, with no connection open, idle or in use.\<close>

theorem cancellations_exhaust_pool:
  assumes "p_max cfg = int n"
  shows "\<exists>p. system_reach (async_step depth False) cfg (p, [Outside]) \<and> p_queue p = [] \<and> p_conns p = [] \<and>
    (\<forall>d. a_get_connection d p = (Inl (PoolExhaustedError (int n)), p))"
proof -
  have "system_reach (async_step depth False) cfg (ConnectionPool cfg\<lparr>p_active := int k\<rparr>, [Outside])" if "k \<le> n" for k
    using that
  proof (induction k)
    case 0
    have "ConnectionPool cfg\<lparr>p_active := 0\<rparr> = ConnectionPool cfg" by (cases cfg) (simp add: ConnectionPool_def)
    then show ?case using system_reach.start [of "async_step depth False" cfg 1] by simp
  next
    case (Suc k)
    let ?p = "ConnectionPool cfg\<lparr>p_active := int k\<rparr>" and ?p' = "ConnectionPool cfg\<lparr>p_active := int (Suc k)\<rparr>"
    have steps: "async_step depth False (?p, Outside) (?p, Wanting)" "async_step depth False (?p, Wanting) (?p', Reserved)"
        "async_step depth False (?p', Reserved) (?p', Outside)"
      using Suc.prems assms
      by (auto intro!: async_step.get_none async_step.reserved async_step.cancelled
          simp: pop_idle_def reserve_def ConnectionPool_def)
    have reach: "system_reach (async_step depth False) cfg (?p, [Outside])" using Suc by simp
    have "system_reach (async_step depth False) cfg (?p, [Wanting])"
      using system_reach.step [OF reach, of 0] steps(1) by simp
    from system_reach.step [OF this, of 0] have "system_reach (async_step depth False) cfg (?p', [Reserved])"
      using steps(2) by simp
    from system_reach.step [OF this, of 0] show ?case using steps(3) by simp
  qed
  from this [of n] show ?thesis
    using assms by (intro exI [of _ "ConnectionPool cfg\<lparr>p_active := int n\<rparr>"])
      (simp add: a_get_connection_def a_take_idle_def pop_idle_def a_open_new_def reserve_def bindE_run ConnectionPool_def)
qed

lemma cancellations_exhaust_pool_witness:
  "\<exists>p. system_reach (async_step 1 False) (local_apool 1) (p, [Outside]) \<and> p_conns p = [] \<and>
     a_get_connection 1 p = (Inl (PoolExhaustedError 1), p)"
  using cancellations_exhaust_pool [of "local_apool 1" 1 1] by (auto simp: local_apool_def)

end
