(* ===== verification/Descriptor.thy ===== *)
theory Descriptor
  imports Prelude
begin

text \<open>
  \<open>descriptor.py\<close>: the 64-byte header of a KV-cache block, as \<open>ctypes\<close> lays it out, its element types,
  and the byte side of \<open>TensorCodec\<close>. Fields are machine words of their declared width. The layout has
  two bytes of alignment before the 64-bit hash that the class does not name; they are the field
  \<open>d_gap\<close> here, since \<open>from_bytes\<close> copies them and \<open>to_bytes\<close> gives them back.
\<close>

section \<open>Element types\<close>

datatype tensor_dtype = FP32 | FP16 | BF16 | FP8E4M3 | FP8E5M2 | INT8 | INT4

definition dtype_code :: "tensor_dtype \<Rightarrow> nat" where
  "dtype_code t = (case t of
      FP32 \<Rightarrow> 0 | FP16 \<Rightarrow> 1 | BF16 \<Rightarrow> 2 | FP8E4M3 \<Rightarrow> 3 | FP8E5M2 \<Rightarrow> 4 | INT8 \<Rightarrow> 5 | INT4 \<Rightarrow> 6)"

text \<open>\<open>TensorDType(n)\<close>, a \<open>ValueError\<close> for any other number.\<close>

definition TensorDType :: "nat \<Rightarrow> exc + tensor_dtype" where
  "TensorDType n =
     (if n = 0 then Inr FP32 else if n = 1 then Inr FP16 else if n = 2 then Inr BF16
      else if n = 3 then Inr FP8E4M3 else if n = 4 then Inr FP8E5M2 else if n = 5 then Inr INT8
      else if n = 6 then Inr INT4 else Inl BuiltinValueError)"

definition element_size_bytes :: "tensor_dtype \<Rightarrow> nat" where
  "element_size_bytes t = (if t = FP32 then 4 else if t \<in> {FP16, BF16} then 2 else 1)"

text \<open>An \<open>IntEnum\<close> is ordered by its numbers.\<close>

instantiation tensor_dtype :: linorder
begin

definition less_eq_tensor_dtype :: "tensor_dtype \<Rightarrow> tensor_dtype \<Rightarrow> bool" where
  "less_eq_tensor_dtype s t \<longleftrightarrow> dtype_code s \<le> dtype_code t"

definition less_tensor_dtype :: "tensor_dtype \<Rightarrow> tensor_dtype \<Rightarrow> bool" where
  "less_tensor_dtype s t \<longleftrightarrow> dtype_code s < dtype_code t"

instance
proof
  fix x y :: tensor_dtype
  show "x \<le> y \<Longrightarrow> y \<le> x \<Longrightarrow> x = y"
    by (cases x; cases y; simp add: less_eq_tensor_dtype_def dtype_code_def)
qed (auto simp: less_eq_tensor_dtype_def less_tensor_dtype_def)

end

lemma TensorDType_code [simp]: "TensorDType (dtype_code t) = Inr t"
  by (cases t) (simp_all add: TensorDType_def dtype_code_def)

lemma dtype_code_less: "dtype_code t < 7"
  by (cases t) (simp_all add: dtype_code_def)

section \<open>The descriptor\<close>

record tensor_descriptor =
  d_magic :: "32 word"
  d_layer_id :: "16 word"
  d_num_layers :: "16 word"
  d_block_size :: "16 word"
  d_num_heads :: "16 word"
  d_head_dim :: "16 word"
  d_dtype :: "8 word"
  d_reserved :: bytes
  d_gap :: bytes
  d_prefix_hash :: "64 word"
  d_payload_bytes :: "32 word"
  d_cacheline_pad :: bytes

definition DESCRIPTOR_MAGIC :: "32 word" where
  "DESCRIPTOR_MAGIC = 0x4B414348"

text \<open>The keyword constructor: \<open>ctypes\<close> keeps the low bits of an integer, the rest of the structure is
  zero.\<close>

definition zeros :: "nat \<Rightarrow> bytes" where
  "zeros n = replicate n (CHR 0x00)"

definition TensorBlockDescriptor ::
    "int \<Rightarrow> int \<Rightarrow> int \<Rightarrow> int \<Rightarrow> int \<Rightarrow> int \<Rightarrow> int \<Rightarrow> int \<Rightarrow> int \<Rightarrow> tensor_descriptor" where
  "TensorBlockDescriptor magic layer_id num_layers block_size num_heads head_dim dtype hash payload =
     \<lparr>d_magic = word_of_int magic, d_layer_id = word_of_int layer_id, d_num_layers = word_of_int num_layers,
      d_block_size = word_of_int block_size, d_num_heads = word_of_int num_heads,
      d_head_dim = word_of_int head_dim, d_dtype = word_of_int dtype, d_reserved = zeros 7,
      d_gap = zeros 2, d_prefix_hash = word_of_int hash, d_payload_bytes = word_of_int payload,
      d_cacheline_pad = zeros 28\<rparr>"

definition is_valid :: "tensor_descriptor \<Rightarrow> bool" where
  "is_valid d \<longleftrightarrow> d_magic d = DESCRIPTOR_MAGIC"

definition compute_shape :: "tensor_descriptor \<Rightarrow> nat list" where
  "compute_shape d = [2, unat (d_num_layers d), unat (d_num_heads d), unat (d_block_size d), unat (d_head_dim d)]"

text \<open>A word as bytes, lowest first.\<close>

definition word_bytes :: "nat \<Rightarrow> 'w::len word \<Rightarrow> bytes" where
  "word_bytes w x = le_bytes w (unat x)"

definition field :: "nat \<Rightarrow> nat \<Rightarrow> bytes \<Rightarrow> 'w::len word" where
  "field off w bs = word_of_nat (le_nat (take w (drop off bs)))"

definition to_bytes :: "tensor_descriptor \<Rightarrow> bytes" where
  "to_bytes d =
     word_bytes 4 (d_magic d) @ word_bytes 2 (d_layer_id d) @ word_bytes 2 (d_num_layers d) @
     word_bytes 2 (d_block_size d) @ word_bytes 2 (d_num_heads d) @ word_bytes 2 (d_head_dim d) @
     word_bytes 1 (d_dtype d) @ d_reserved d @ d_gap d @ word_bytes 8 (d_prefix_hash d) @
     word_bytes 4 (d_payload_bytes d) @ d_cacheline_pad d"

definition from_bytes :: "bytes \<Rightarrow> exc + tensor_descriptor" where
  "from_bytes source =
     (if length source < 64 then Inl BuiltinValueError
      else Inr \<lparr>d_magic = field 0 4 source, d_layer_id = field 4 2 source, d_num_layers = field 6 2 source,
        d_block_size = field 8 2 source, d_num_heads = field 10 2 source, d_head_dim = field 12 2 source,
        d_dtype = field 14 1 source, d_reserved = take 7 (drop 15 source), d_gap = take 2 (drop 22 source),
        d_prefix_hash = field 24 8 source, d_payload_bytes = field 32 4 source,
        d_cacheline_pad = take 28 (drop 36 source)\<rparr>)"

text \<open>The arrays have their declared lengths.\<close>

definition well_formed :: "tensor_descriptor \<Rightarrow> bool" where
  "well_formed d \<longleftrightarrow> length (d_reserved d) = 7 \<and> length (d_gap d) = 2 \<and> length (d_cacheline_pad d) = 28"

section \<open>Layout\<close>

lemma length_word_bytes [simp]: "length (word_bytes w x) = w"
  by (simp add: word_bytes_def)

lemma length_to_bytes: "well_formed d \<Longrightarrow> length (to_bytes d) = 64"
  by (simp add: to_bytes_def well_formed_def)

lemma word_of_le_nat:
  fixes x :: "'w::len word"
  assumes "LENGTH('w) = 8 * w"
  shows "word_of_nat (le_nat (word_bytes w x)) = x"
proof -
  have "256 ^ w = (2::nat) ^ LENGTH('w)" by (simp add: assms power_mult)
  then have "le_nat (word_bytes w x) = unat x"
    by (simp add: word_bytes_def unsigned_less)
  then show ?thesis by simp
qed

lemma word_bytes_of_le_nat:
  assumes "LENGTH('w::len) = 8 * length bs"
  shows "word_bytes (length bs) (word_of_nat (le_nat bs) :: 'w word) = bs"
proof -
  have "256 ^ length bs = (2::nat) ^ LENGTH('w)" by (simp add: assms power_mult)
  then have "unat (word_of_nat (le_nat bs) :: 'w word) = le_nat bs"
    using le_nat_less [of bs] by (simp add: unsigned_of_nat take_bit_nat_eq_self)
  then show ?thesis by (simp add: word_bytes_def)
qed

lemma word_bytes_field:
  assumes "LENGTH('w::len) = 8 * w" and "off + w \<le> length bs"
  shows "word_bytes w (field off w bs :: 'w word) = take w (drop off bs)"
  using word_bytes_of_le_nat [where 'w = 'w, of "take w (drop off bs)"] assms
  by (simp add: field_def)

lemma field_word_bytes:
  fixes x :: "'w::len word"
  assumes "take w (drop off bs) = word_bytes w x" and "LENGTH('w) = 8 * w"
  shows "field off w bs = x"
  by (simp add: field_def assms word_of_le_nat)

lemma from_to_bytes:
  assumes "well_formed d"
  shows "from_bytes (to_bytes d @ rest) = Inr d"
proof -
  have len: "length (d_reserved d) = 7" "length (d_gap d) = 2" "length (d_cacheline_pad d) = 28"
    using assms by (simp_all add: well_formed_def)
  note at = field_word_bytes [where bs = "to_bytes d @ rest"]
  have "field 0 4 (to_bytes d @ rest) = d_magic d" by (rule at) (simp_all add: to_bytes_def)
  moreover have "field 4 2 (to_bytes d @ rest) = d_layer_id d" by (rule at) (simp_all add: to_bytes_def)
  moreover have "field 6 2 (to_bytes d @ rest) = d_num_layers d" by (rule at) (simp_all add: to_bytes_def)
  moreover have "field 8 2 (to_bytes d @ rest) = d_block_size d" by (rule at) (simp_all add: to_bytes_def)
  moreover have "field 10 2 (to_bytes d @ rest) = d_num_heads d" by (rule at) (simp_all add: to_bytes_def)
  moreover have "field 12 2 (to_bytes d @ rest) = d_head_dim d" by (rule at) (simp_all add: to_bytes_def)
  moreover have "field 14 1 (to_bytes d @ rest) = d_dtype d" by (rule at) (simp_all add: to_bytes_def)
  moreover have "field 24 8 (to_bytes d @ rest) = d_prefix_hash d" by (rule at) (simp_all add: to_bytes_def len)
  moreover have "field 32 4 (to_bytes d @ rest) = d_payload_bytes d" by (rule at) (simp_all add: to_bytes_def len)
  moreover have "take 7 (drop 15 (to_bytes d @ rest)) = d_reserved d" by (simp add: to_bytes_def len)
  moreover have "take 2 (drop 22 (to_bytes d @ rest)) = d_gap d" by (simp add: to_bytes_def len)
  moreover have "take 28 (drop 36 (to_bytes d @ rest)) = d_cacheline_pad d" by (simp add: to_bytes_def len)
  ultimately show ?thesis
    using length_to_bytes [OF assms] by (simp add: from_bytes_def len)
qed

lemma take_pieces: "take m bs @ take n (drop m bs) = take (m + n) bs"
  by (simp add: take_add)

lemma to_from_bytes:
  assumes "64 \<le> length bs"
  obtains d where "from_bytes bs = Inr d" and "to_bytes d = take 64 bs" and "well_formed d"
proof -
  obtain d where d: "from_bytes bs = Inr d"
    using assms by (auto simp: from_bytes_def)
  have "take 64 bs = take 4 bs @ take 2 (drop 4 bs) @ take 2 (drop 6 bs) @ take 2 (drop 8 bs) @
      take 2 (drop 10 bs) @ take 2 (drop 12 bs) @ take 1 (drop 14 bs) @ take 7 (drop 15 bs) @
      take 2 (drop 22 bs) @ take 8 (drop 24 bs) @ take 4 (drop 32 bs) @ take 28 (drop 36 bs)"
    by (simp add: take_pieces del: append_assoc flip: append_assoc)
  then have "to_bytes d = take 64 bs"
    using d assms by (auto simp: from_bytes_def to_bytes_def word_bytes_field split: if_splits)
  moreover have "well_formed d"
    using d assms by (auto simp: from_bytes_def well_formed_def split: if_splits)
  ultimately show thesis using d that by blast
qed

lemma is_valid_bytes:
  assumes "well_formed d"
  shows "is_valid d \<longleftrightarrow> take 4 (to_bytes d) = ''HCAK''"
proof -
  have "take 4 (to_bytes d) = word_bytes 4 (d_magic d)" by (simp add: to_bytes_def)
  moreover have "word_bytes 4 DESCRIPTOR_MAGIC = ''HCAK''"
  proof -
    have "word_bytes 4 DESCRIPTOR_MAGIC = le_bytes (Suc (Suc (Suc (Suc 0)))) (unat DESCRIPTOR_MAGIC)"
      by (simp only: word_bytes_def eval_nat_numeral BitM.simps One_nat_def)
    then show ?thesis by (simp add: DESCRIPTOR_MAGIC_def char_of_def bit_0)
  qed
  moreover have inverse: "word_of_nat (le_nat (word_bytes 4 z)) = z" for z :: "32 word"
    by (rule word_of_le_nat) simp
  moreover have "word_bytes 4 x = word_bytes 4 y \<longleftrightarrow> x = y" for x y :: "32 word"
    by (metis inverse)
  ultimately show ?thesis by (metis is_valid_def)
qed

section \<open>Theorems about the descriptor\<close>

text \<open>C31: A descriptor is 64 bytes and \<open>from_bytes\<close> reads it back from any buffer that begins with them; from
  fewer than 64 bytes it raises \<open>ValueError\<close>, and whatever it reads from a longer buffer gives the same 64
  bytes again. \<open>is_valid\<close> holds when the buffer begins with the ASCII bytes \<open>HCAK\<close>.\<close>

theorem descriptor_round_trip:
  assumes "well_formed d"
  shows "length (to_bytes d) = 64 \<and> from_bytes (to_bytes d @ rest) = Inr d \<and>
    (is_valid d \<longleftrightarrow> take 4 (to_bytes d) = ''HCAK'') \<and>
    (if length bs < 64 then from_bytes bs = Inl BuiltinValueError
     else \<exists>d'. from_bytes bs = Inr d' \<and> to_bytes d' = take 64 bs)"
proof (intro conjI)
  show "length (to_bytes d) = 64" by (rule length_to_bytes [OF assms])
  show "from_bytes (to_bytes d @ rest) = Inr d" by (rule from_to_bytes [OF assms])
  show "is_valid d \<longleftrightarrow> take 4 (to_bytes d) = ''HCAK''" by (rule is_valid_bytes [OF assms])
  show "if length bs < 64 then from_bytes bs = Inl BuiltinValueError
     else \<exists>d'. from_bytes bs = Inr d' \<and> to_bytes d' = take 64 bs"
  proof (cases "length bs < 64")
    case True
    then show ?thesis by (simp add: from_bytes_def)
  next
    case False
    then show ?thesis using to_from_bytes [of bs] by (metis not_less)
  qed
qed

lemma descriptor_round_trip_witness:
  "from_bytes (to_bytes (TensorBlockDescriptor 0x4B414348 3 1 16 8 64 2 99 4096) @ ''payload'') =
     Inr (TensorBlockDescriptor 0x4B414348 3 1 16 8 64 2 99 4096)"
proof -
  have "well_formed (TensorBlockDescriptor 0x4B414348 3 1 16 8 64 2 99 4096)"
    by (simp add: well_formed_def TensorBlockDescriptor_def zeros_def)
  then show ?thesis using descriptor_round_trip by blast
qed

end
