(* ===== verification/Tensor_Codec.thy ===== *)
theory Tensor_Codec
  imports Descriptor
begin

text \<open>
  \<open>TensorCodec\<close> of \<open>descriptor.py\<close>. PyTorch is not part of the program: its element types are a type variable
  and its operations the fields of a record, an argument of every definition that uses them. \<open>documented\<close> is
  what the code relies on, for tensors with a dimension and devices that are there, and \<open>flat_torch\<close> a concrete library of which it holds.
\<close>

section \<open>Overwriting part of a buffer\<close>

definition splice :: "nat \<Rightarrow> 'a list \<Rightarrow> 'a list \<Rightarrow> 'a list" where
  "splice off xs buf = take off buf @ xs @ drop (off + length xs) buf"

lemma splice_twice:
  "off \<le> length buf \<Longrightarrow> splice (off + length xs) ys (splice off xs buf) = splice off (xs @ ys) buf"
  by (simp add: splice_def ac_simps)

lemma length_splice: "off + length xs \<le> length buf \<Longrightarrow> length (splice off xs buf) = length buf"
  by (simp add: splice_def)

lemma splice_beyond: "length buf \<le> length xs \<Longrightarrow> splice 0 xs buf = xs"
  by (simp add: splice_def)

lemma drop_splice: "off \<le> length buf \<Longrightarrow> drop off (splice off xs buf) = xs @ drop (off + length xs) buf"
  by (simp add: splice_def)

lemma splice_outside:
  assumes "off \<le> length buf" and "a + n \<le> off \<or> off + length xs \<le> a"
  shows "take n (drop a (splice off xs buf)) = take n (drop a buf)"
proof (cases "a + n \<le> off")
  case True
  then have "take n (drop a (splice off xs buf)) = take n (drop a (take off (splice off xs buf)))"
    by (simp add: drop_take)
  also have "\<dots> = take n (drop a (take off buf))" using assms(1) by (simp add: splice_def)
  finally show ?thesis using True by (simp add: drop_take)
next
  case False
  then show ?thesis using assms by (simp add: splice_def)
qed

section \<open>PyTorch\<close>

text \<open>A tensor is its element type, its shape and its elements as bytes in row-major order.\<close>

record 'd tensor =
  t_dtype :: 'd
  t_shape :: "nat list"
  t_data :: bytes

text \<open>The element types the code names, \<open>dtype.itemsize\<close>, \<open>t.contiguous().cpu().numpy().tobytes()\<close>, the same
  through \<open>view(torch.uint8)\<close>, \<open>torch.frombuffer(buffer, dtype, count, offset)\<close>, \<open>reshape\<close>,
  \<open>torch.empty(n, dtype)\<close>, \<open>torch.cuda.is_available()\<close>, which device names denote a device that is there,
  \<open>t.to(device)\<close> and \<open>str(t.device)\<close>; \<open>t[i, j]\<close> and
  \<open>t[i, j].copy_(x)\<close> for a list of indices, \<open>t[:, a:b, :]\<close> and \<open>t[:, a:b, :].copy_(x)\<close>. An assignment to a view
  is the tensor it leaves behind.\<close>

record 'd torch =
  t_float16 :: 'd
  t_bfloat16 :: 'd
  t_float32 :: 'd
  t_int8 :: 'd
  t_uint8 :: 'd
  t_itemsize :: "'d \<Rightarrow> nat"
  t_numpy_bytes :: "'d tensor \<Rightarrow> exc + bytes"
  t_view_bytes :: "'d tensor \<Rightarrow> exc + bytes"
  t_frombuffer :: "bytes \<Rightarrow> 'd \<Rightarrow> nat \<Rightarrow> int \<Rightarrow> exc + 'd tensor"
  t_reshape :: "nat list \<Rightarrow> 'd tensor \<Rightarrow> exc + 'd tensor"
  t_empty :: "nat \<Rightarrow> 'd \<Rightarrow> 'd tensor"
  t_cuda :: bool
  t_present :: "ustr \<Rightarrow> bool"
  t_to :: "ustr \<Rightarrow> 'd tensor \<Rightarrow> exc + 'd tensor"
  t_device :: "'d tensor \<Rightarrow> ustr"
  t_get :: "nat list \<Rightarrow> 'd tensor \<Rightarrow> exc + 'd tensor"
  t_put :: "nat list \<Rightarrow> 'd tensor \<Rightarrow> 'd tensor \<Rightarrow> exc + 'd tensor"
  t_slice :: "nat \<Rightarrow> nat \<Rightarrow> 'd tensor \<Rightarrow> exc + 'd tensor"
  t_slice_put :: "nat \<Rightarrow> nat \<Rightarrow> 'd tensor \<Rightarrow> 'd tensor \<Rightarrow> exc + 'd tensor"

definition tensor_ok :: "'d torch \<Rightarrow> 'd tensor \<Rightarrow> bool" where
  "tensor_ok T t \<longleftrightarrow> length (t_data t) = prod_list (t_shape t) * t_itemsize T (t_dtype t)"

text \<open>\<open>_DTYPE_MAP\<close> as \<open>_init_map\<close> fills it before its first use.\<close>

definition dtype_map :: "'d torch \<Rightarrow> ('d \<times> tensor_dtype \<times> nat) list" where
  "dtype_map T = [(t_float16 T, FP16, 2), (t_bfloat16 T, BF16, 2), (t_float32 T, FP32, 4),
     (t_int8 T, INT8, 1), (t_uint8 T, FP8E4M3, 1)]"

definition registered :: "'d torch \<Rightarrow> 'd \<Rightarrow> bool" where
  "registered T d \<longleftrightarrow> d \<in> set (map fst (dtype_map T))"

text \<open>What the code relies on. \<open>view(torch.uint8)\<close> needs at least one dimension, and \<open>to\<close> a device that is there,
  as the device of an existing tensor is. \<open>device_ok\<close> are the devices a read may name: without CUDA the code
  ignores the name.\<close>

definition documented :: "'d torch \<Rightarrow> bool" where
  "documented T \<longleftrightarrow>
     distinct [t_float16 T, t_bfloat16 T, t_float32 T, t_int8 T, t_uint8 T] \<and>
     map (t_itemsize T) [t_float16 T, t_bfloat16 T, t_float32 T, t_int8 T, t_uint8 T] = [2, 2, 4, 1, 1] \<and>
     (\<forall>t. tensor_ok T t \<longrightarrow> registered T (t_dtype t) \<longrightarrow> t_dtype t \<noteq> t_bfloat16 T \<longrightarrow> t_numpy_bytes T t = Inr (t_data t)) \<and>
     (\<forall>t. tensor_ok T t \<longrightarrow> t_shape t \<noteq> [] \<longrightarrow> t_view_bytes T t = Inr (t_data t)) \<and>
     (\<forall>buf d n off. 0 < n \<longrightarrow> 0 \<le> off \<longrightarrow> nat off + n * t_itemsize T d \<le> length buf \<longrightarrow>
        t_frombuffer T buf d n off =
          Inr \<lparr>t_dtype = d, t_shape = [n], t_data = take (n * t_itemsize T d) (drop (nat off) buf)\<rparr>) \<and>
     (\<forall>s t. prod_list s = prod_list (t_shape t) \<longrightarrow> t_reshape T s t = Inr (t\<lparr>t_shape := s\<rparr>)) \<and>
     (\<forall>n d. tensor_ok T (t_empty T n d) \<and> t_shape (t_empty T n d) = [n] \<and> t_dtype (t_empty T n d) = d) \<and>
     (\<forall>device t. t_present T device \<longrightarrow> t_to T device t = Inr t) \<and>
     (\<forall>t. t_present T (t_device T t))"

definition device_ok :: "'d torch \<Rightarrow> ustr \<Rightarrow> bool" where
  "device_ok T device \<longleftrightarrow> device = u ''cpu'' \<or> \<not> t_cuda T \<or> t_present T device"

lemma device_ok_own: "documented T \<Longrightarrow> device_ok T (t_device T t)"
  by (simp add: documented_def device_ok_def)

text \<open>What assignments to views of a tensor of a given shape do: the view reads back what was put there, views
  beside it are as before, and the tensor keeps its shape and element type.\<close>

definition slices_documented :: "'d torch \<Rightarrow> nat \<Rightarrow> nat \<Rightarrow> nat \<Rightarrow> bool" where
  "slices_documented T h s e \<longleftrightarrow>
     (\<forall>t x a n. tensor_ok T t \<longrightarrow> t_shape t = [h, s, e] \<longrightarrow> tensor_ok T x \<longrightarrow> t_shape x = [h, n, e] \<longrightarrow>
        t_dtype x = t_dtype t \<longrightarrow> a + n \<le> s \<longrightarrow>
        (\<exists>t'. t_slice_put T a (a + n) x t = Inr t' \<and> tensor_ok T t' \<and> t_shape t' = [h, s, e] \<and>
          t_dtype t' = t_dtype t \<and> t_slice T a (a + n) t' = Inr x \<and>
          (\<forall>b m. b + m \<le> s \<longrightarrow> b + m \<le> a \<or> a + n \<le> b \<longrightarrow> t_slice T b (b + m) t' = t_slice T b (b + m) t)))"

definition blocks_documented :: "'d torch \<Rightarrow> nat \<Rightarrow> nat list \<Rightarrow> bool" where
  "blocks_documented T n shape \<longleftrightarrow>
     (\<forall>t x b j. tensor_ok T t \<longrightarrow> t_shape t = n # 2 # shape \<longrightarrow> tensor_ok T x \<longrightarrow> t_shape x = shape \<longrightarrow>
        t_dtype x = t_dtype t \<longrightarrow> b < n \<longrightarrow> j < 2 \<longrightarrow>
        (\<exists>t'. t_put T [b, j] x t = Inr t' \<and> tensor_ok T t' \<and> t_shape t' = n # 2 # shape \<and>
          t_dtype t' = t_dtype t \<and> t_get T [b, j] t' = Inr x \<and>
          (\<forall>b' j'. b' < n \<longrightarrow> j' < 2 \<longrightarrow> (b', j') \<noteq> (b, j) \<longrightarrow> t_get T [b', j'] t' = t_get T [b', j'] t))) \<and>
     (\<forall>t b j. tensor_ok T t \<longrightarrow> t_shape t = n # 2 # shape \<longrightarrow> b < n \<longrightarrow> j < 2 \<longrightarrow>
        (\<exists>x. t_get T [b, j] t = Inr x \<and> tensor_ok T x \<and> t_shape x = shape \<and> t_dtype x = t_dtype t))"

section \<open>The codec\<close>

definition dtype_info :: "'d torch \<Rightarrow> 'd \<Rightarrow> tensor_dtype \<times> nat" where
  "dtype_info T d = (case map_of (dtype_map T) d of None \<Rightarrow> (FP16, 2) | Some info \<Rightarrow> info)"

definition serialize_tensor :: "'d torch \<Rightarrow> 'd tensor \<Rightarrow> exc + bytes \<times> tensor_dtype \<times> nat" where
  "serialize_tensor T t =
     map_sumE (\<lambda>raw. (raw, dtype_info T (t_dtype t)))
       (if t_dtype t = t_bfloat16 T then t_view_bytes T t else t_numpy_bytes T t)"

definition deserialize_tensor ::
    "'d torch \<Rightarrow> bytes \<Rightarrow> int \<Rightarrow> nat list \<Rightarrow> 'd \<Rightarrow> ustr \<Rightarrow> exc + 'd tensor" where
  "deserialize_tensor T buffer offset shape dtype device =
     (case t_frombuffer T buffer dtype (prod_list shape) offset of
        Inl e \<Rightarrow> Inl e
      | Inr flat \<Rightarrow>
          (case t_reshape T shape flat of
             Inl e \<Rightarrow> Inl e
           | Inr t \<Rightarrow> if device \<noteq> u ''cpu'' \<and> t_cuda T then t_to T device t else Inr t))"

lemma registered_size:
  "documented T \<Longrightarrow> registered T d \<Longrightarrow> snd (dtype_info T d) = t_itemsize T d"
  by (auto simp: documented_def registered_def dtype_map_def dtype_info_def)

lemma unregistered_size: "\<not> registered T d \<Longrightarrow> dtype_info T d = (FP16, 2)"
  by (auto simp: registered_def dtype_map_def dtype_info_def)

lemma serialize_ok:
  "documented T \<Longrightarrow> tensor_ok T t \<Longrightarrow> t_shape t \<noteq> [] \<Longrightarrow> registered T (t_dtype t) \<Longrightarrow>
   serialize_tensor T t = Inr (t_data t, dtype_info T (t_dtype t))"
  by (auto simp: documented_def serialize_tensor_def)

lemma serialize_empty:
  "documented T \<Longrightarrow> registered T d \<Longrightarrow> \<exists>raw. serialize_tensor T (t_empty T n d) = Inr (raw, dtype_info T d)"
  using serialize_ok [of T "t_empty T n d"] by (simp add: documented_def)

lemma deserialize_ok:
  assumes "documented T" "device_ok T device" "0 < prod_list shape" "off + prod_list shape * t_itemsize T d \<le> length buf"
  shows "deserialize_tensor T buf (int off) shape d device =
    Inr \<lparr>t_dtype = d, t_shape = shape, t_data = take (prod_list shape * t_itemsize T d) (drop off buf)\<rparr>"
  using assms by (auto simp: documented_def device_ok_def deserialize_tensor_def)

text \<open>A library with five element types, numbered in the order of the record, and row-major views, of which every
  claim holds (those about views for the shapes used below).\<close>

definition flat_size :: "nat \<Rightarrow> nat" where
  "flat_size d = (if d < 2 then 2 else if d = 2 then 4 else if d < 5 then 1 else 8)"

definition flat_block :: "nat tensor \<Rightarrow> nat" where
  "flat_block t = prod_list (drop 2 (t_shape t)) * flat_size (t_dtype t)"

definition flat_row :: "nat tensor \<Rightarrow> nat" where
  "flat_row t = t_shape t ! 2 * flat_size (t_dtype t)"

definition flat_slice :: "nat \<Rightarrow> nat \<Rightarrow> nat tensor \<Rightarrow> nat tensor" where
  "flat_slice a b t = t\<lparr>t_shape := (t_shape t)[1 := b - a],
     t_data := concat (map (\<lambda>i. take ((b - a) * flat_row t) (drop ((i * t_shape t ! 1 + a) * flat_row t) (t_data t)))
       [0..<t_shape t ! 0])\<rparr>"

definition flat_slice_put :: "nat \<Rightarrow> nat \<Rightarrow> nat tensor \<Rightarrow> nat tensor \<Rightarrow> nat tensor" where
  "flat_slice_put a b x t = t\<lparr>t_data :=
     fold (\<lambda>i buf. splice ((i * t_shape t ! 1 + a) * flat_row t)
         (take ((b - a) * flat_row t) (drop (i * (b - a) * flat_row t) (t_data x))) buf)
       [0..<t_shape t ! 0] (t_data t)\<rparr>"

definition flat_torch :: "nat torch" where
  "flat_torch = \<lparr>t_float16 = 0, t_bfloat16 = 1, t_float32 = 2, t_int8 = 3, t_uint8 = 4, t_itemsize = flat_size,
     t_numpy_bytes = (\<lambda>t. Inr (t_data t)), t_view_bytes = (\<lambda>t. Inr (t_data t)),
     t_frombuffer = (\<lambda>buf d n off.
       if 0 < n \<and> 0 \<le> off \<and> nat off + n * flat_size d \<le> length buf
       then Inr \<lparr>t_dtype = d, t_shape = [n], t_data = take (n * flat_size d) (drop (nat off) buf)\<rparr>
       else Inl BuiltinValueError),
     t_reshape = (\<lambda>s t. if prod_list s = prod_list (t_shape t) then Inr (t\<lparr>t_shape := s\<rparr>) else Inl BuiltinValueError),
     t_empty = (\<lambda>n d. \<lparr>t_dtype = d, t_shape = [n], t_data = zeros (n * flat_size d)\<rparr>),
     t_cuda = False, t_present = (\<lambda>d. d = u ''cpu''),
     t_to = (\<lambda>d t. if d = u ''cpu'' then Inr t else Inl BuiltinValueError), t_device = (\<lambda>_. u ''cpu''),
     t_get = (\<lambda>is t. if length is = 2 \<and> 2 \<le> length (t_shape t) \<and> is ! 0 < t_shape t ! 0 \<and> is ! 1 < t_shape t ! 1
       then Inr (t\<lparr>t_shape := drop 2 (t_shape t),
         t_data := take (flat_block t) (drop ((is ! 0 * t_shape t ! 1 + is ! 1) * flat_block t) (t_data t))\<rparr>)
       else Inl BuiltinIndexError),
     t_put = (\<lambda>is x t. if length is = 2 \<and> 2 \<le> length (t_shape t) \<and> is ! 0 < t_shape t ! 0 \<and> is ! 1 < t_shape t ! 1
       then Inr (t\<lparr>t_data := splice ((is ! 0 * t_shape t ! 1 + is ! 1) * flat_block t) (t_data x) (t_data t)\<rparr>)
       else Inl BuiltinIndexError),
     t_slice = (\<lambda>a b t. if length (t_shape t) = 3 then Inr (flat_slice a b t) else Inl BuiltinIndexError),
     t_slice_put = (\<lambda>a b x t. if length (t_shape t) = 3 then Inr (flat_slice_put a b x t) else Inl BuiltinIndexError)\<rparr>"

lemma flat_torch_documented: "documented flat_torch"
  by (simp add: documented_def flat_torch_def tensor_ok_def zeros_def flat_size_def)

lemma flat_torch_slices: "slices_documented flat_torch 1 s e"
  unfolding slices_documented_def
proof (intro allI impI)
  fix t x :: "nat tensor" and a n
  assume t: "tensor_ok flat_torch t" "t_shape t = [1, s, e]"
    and x: "tensor_ok flat_torch x" "t_shape x = [1, n, e]" "t_dtype x = t_dtype t" and an: "a + n \<le> s"
  let ?w = "e * flat_size (t_dtype t)"
  have lt: "length (t_data t) = s * ?w" and lx: "length (t_data x) = n * ?w"
    using t x by (simp_all add: tensor_ok_def flat_torch_def)
  have at: "a * ?w + n * ?w \<le> s * ?w" using an by (metis add_mult_distrib mult_le_mono1)
  let ?t = "t\<lparr>t_data := splice (a * ?w) (t_data x) (t_data t)\<rparr>"
  have put: "t_slice_put flat_torch a (a + n) x t = Inr ?t"
    using t x lx by (simp add: flat_torch_def flat_slice_put_def flat_row_def)
  have get: "t_slice flat_torch b (b + m) u =
      Inr (u\<lparr>t_shape := [1, m, e], t_data := take (m * ?w) (drop (b * ?w) (t_data u))\<rparr>)"
    if "t_shape u = [1, s, e]" "t_dtype u = t_dtype t" for u b m
    using that by (simp add: flat_torch_def flat_slice_def flat_row_def)
  have le: "a * ?w \<le> length (t_data t)" using at lt by linarith
  have len: "length (t_data ?t) = s * ?w" using lt lx at by (simp add: length_splice)
  have beside: "take (m * ?w) (drop (b * ?w) (t_data ?t)) = take (m * ?w) (drop (b * ?w) (t_data t))"
    if "b + m \<le> a \<or> a + n \<le> b" for b m
  proof -
    have "b * ?w + m * ?w \<le> a * ?w \<or> a * ?w + length (t_data x) \<le> b * ?w"
      using that lx by (metis add_mult_distrib mult_le_mono1)
    then show ?thesis using splice_outside [OF le, of "b * ?w" "m * ?w" "t_data x"] by simp
  qed
  have self: "take (n * ?w) (drop (a * ?w) (t_data ?t)) = t_data x"
    using lx by (simp add: drop_splice [OF le])
  show "\<exists>t'. t_slice_put flat_torch a (a + n) x t = Inr t' \<and> tensor_ok flat_torch t' \<and> t_shape t' = [1, s, e] \<and>
      t_dtype t' = t_dtype t \<and> t_slice flat_torch a (a + n) t' = Inr x \<and>
      (\<forall>b m. b + m \<le> s \<longrightarrow> b + m \<le> a \<or> a + n \<le> b \<longrightarrow>
        t_slice flat_torch b (b + m) t' = t_slice flat_torch b (b + m) t)"
    using put t x len beside self
    by (intro exI [of _ ?t]) (simp add: get tensor_ok_def, simp add: flat_torch_def)
qed

lemma flat_torch_blocks: "blocks_documented flat_torch n shape"
  unfolding blocks_documented_def
proof (intro conjI allI impI)
  fix t :: "nat tensor" and b j
  let ?c = "prod_list shape * flat_size (t_dtype t)"
  assume t: "tensor_ok flat_torch t" "t_shape t = n # 2 # shape" and bj: "b < n" "j < (2::nat)"
  have lt: "length (t_data t) = (n * 2) * ?c" using t by (simp add: tensor_ok_def flat_torch_def)
  have row: "(i * 2 + k) * ?c + ?c \<le> (n * 2) * ?c" if "i < n" "k < 2" for i k
  proof -
    have "Suc (i * 2 + k) * ?c \<le> (n * 2) * ?c" using that by (intro mult_le_mono1) linarith
    then show ?thesis by simp
  qed
  have get: "t_get flat_torch [i, k] u =
      Inr (u\<lparr>t_shape := shape, t_data := take ?c (drop ((i * 2 + k) * ?c) (t_data u))\<rparr>)"
    if "t_shape u = n # 2 # shape" "t_dtype u = t_dtype t" "i < n" "k < 2" for u i k
    using that by (simp add: flat_torch_def flat_block_def)
  show "\<exists>x. t_get flat_torch [b, j] t = Inr x \<and> tensor_ok flat_torch x \<and> t_shape x = shape \<and> t_dtype x = t_dtype t"
    using get [OF t(2) refl bj] row [OF bj] lt by (auto simp: tensor_ok_def flat_torch_def)
  fix x :: "nat tensor"
  assume x: "tensor_ok flat_torch x" "t_shape x = shape" "t_dtype x = t_dtype t"
  have lx: "length (t_data x) = ?c" using x by (simp add: tensor_ok_def flat_torch_def)
  let ?p = "(b * 2 + j) * ?c"
  let ?t = "t\<lparr>t_data := splice ?p (t_data x) (t_data t)\<rparr>"
  have put: "t_put flat_torch [b, j] x t = Inr ?t"
    using t bj by (simp add: flat_torch_def flat_block_def)
  have le: "?p \<le> length (t_data t)" using row [OF bj] lt by linarith
  have len: "length (t_data ?t) = (n * 2) * ?c" using row [OF bj] lt lx by (simp add: length_splice)
  have self: "take ?c (drop ?p (t_data ?t)) = t_data x" using le lx by (simp add: drop_splice)
  have beside: "take ?c (drop ((i * 2 + k) * ?c) (t_data ?t)) = take ?c (drop ((i * 2 + k) * ?c) (t_data t))"
    if "k < 2" "(i, k) \<noteq> (b, j)" for i k
  proof -
    have "Suc (i * 2 + k) \<le> b * 2 + j \<or> Suc (b * 2 + j) \<le> i * 2 + k" using that bj by (cases "i < b"; cases "b < i") auto
    then have "Suc (i * 2 + k) * ?c \<le> ?p \<or> Suc (b * 2 + j) * ?c \<le> (i * 2 + k) * ?c"
      using mult_le_mono1 by blast
    then have "(i * 2 + k) * ?c + ?c \<le> ?p \<or> ?p + length (t_data x) \<le> (i * 2 + k) * ?c"
      unfolding lx mult_Suc by linarith
    from splice_outside [OF le this] show ?thesis by simp
  qed
  show "\<exists>t'. t_put flat_torch [b, j] x t = Inr t' \<and> tensor_ok flat_torch t' \<and> t_shape t' = n # 2 # shape \<and>
      t_dtype t' = t_dtype t \<and> t_get flat_torch [b, j] t' = Inr x \<and>
      (\<forall>b' j'. b' < n \<longrightarrow> j' < 2 \<longrightarrow> (b', j') \<noteq> (b, j) \<longrightarrow> t_get flat_torch [b', j'] t' = t_get flat_torch [b', j'] t)"
  proof (intro exI conjI allI impI)
    show "t_get flat_torch [b, j] ?t = Inr x" using get [of ?t, OF _ _ bj] t x self by simp
    show "tensor_ok flat_torch ?t" using len t by (simp add: tensor_ok_def flat_torch_def)
    show "t_get flat_torch [b', j'] ?t = t_get flat_torch [b', j'] t" if "b' < n" "j' < 2" "(b', j') \<noteq> (b, j)" for b' j'
      using get [of ?t, OF _ _ that(1,2)] get [OF t(2) refl that(1,2)] t beside [OF that(2,3)] by simp
  qed (use put t in simp_all)
qed

end
