(* ===== verification/Dma.thy ===== *)
theory Dma
  imports Tensor_Codec Py_Text
begin

text \<open>
  \<open>dma.py\<close>: the ring buffer of KV-cache blocks. A block is the descriptor, the key and the value, one
  after the other; the write head wraps to zero when a block would not fit behind it.
\<close>

section \<open>The manager\<close>

record memory_manager =
  mm_core_id :: int
  mm_pool_size_bytes :: nat
  mm_shm_path :: ustr
  mm_buf :: bytes
  mm_write_head :: nat

definition KacheDBMemoryManager :: "int \<Rightarrow> int \<Rightarrow> exc + memory_manager" where
  "KacheDBMemoryManager core_id pool_size_mb =
     (let size = pool_size_mb * 1024 * 1024 in
      if size < 0 then Inl BuiltinValueError
      else Inr \<lparr>mm_core_id = core_id, mm_pool_size_bytes = nat size,
             mm_shm_path = u ''/dev/shm/kachedb_'' @ u (py_str_int core_id),
             mm_buf = zeros (nat size), mm_write_head = 0\<rparr>)"

text \<open>\<open>buf[a:b] = data\<close> on a \<open>bytearray\<close>, which grows when the slice reaches past its end.\<close>

definition set_slice :: "int \<Rightarrow> int \<Rightarrow> 'a list \<Rightarrow> 'a list \<Rightarrow> 'a list" where
  "set_slice a b xs buf =
     (let lo = py_bound (length buf) a; hi = max lo (py_bound (length buf) b)
      in take lo buf @ xs @ drop hi buf)"

type_synonym 'a mm_op = "(memory_manager, exc, 'a) py"

definition set_buf :: "nat \<Rightarrow> nat \<Rightarrow> bytes \<Rightarrow> unit mm_op" where
  "set_buf a b xs = modifyE (\<lambda>m. m\<lparr>mm_buf := set_slice (int a) (int b) xs (mm_buf m)\<rparr>)"

definition dim :: "'d tensor \<Rightarrow> nat \<Rightarrow> exc + nat" where
  "dim t i = (if i < length (t_shape t) then Inr (t_shape t ! i) else Inl BuiltinIndexError)"

text \<open>The slot at the write head, or at zero when it does not fit.\<close>

definition allocate :: "nat \<Rightarrow> nat mm_op" where
  "allocate need = bindE (getsE mm_write_head) (\<lambda>offset.
     bindE (getsE mm_pool_size_bytes) (\<lambda>pool_size.
     if offset + need > pool_size
     then bindE (modifyE (\<lambda>m. m\<lparr>mm_write_head := 0\<rparr>)) (\<lambda>_. ret 0)
     else ret offset))"

definition write_paged_block ::
    "'d torch \<Rightarrow> 'd tensor \<Rightarrow> 'd tensor \<Rightarrow> int \<Rightarrow> int \<Rightarrow> int \<Rightarrow> (nat \<times> nat \<times> tensor_descriptor) mm_op" where
  "write_paged_block T key val layer_idx seq_prefix_hash block_id =
     bindE (liftE (serialize_tensor T key)) (\<lambda>(k_bytes, dtype, _).
     bindE (liftE (serialize_tensor T val)) (\<lambda>(v_bytes, _, _).
     let total_payload = length k_bytes + length v_bytes; total = 64 + total_payload in
     bindE (allocate total) (\<lambda>offset.
     bindE (liftE (dim key 1)) (\<lambda>block_size. bindE (liftE (dim key 0)) (\<lambda>num_heads.
     bindE (liftE (dim key 2)) (\<lambda>head_dim.
     let desc = TensorBlockDescriptor (uint DESCRIPTOR_MAGIC) layer_idx 1 (int block_size) (int num_heads)
           (int head_dim) (int (dtype_code dtype)) seq_prefix_hash (int total_payload) in
     bindE (set_buf offset (offset + 64) (to_bytes desc)) (\<lambda>_.
     bindE (set_buf (offset + 64) (offset + 64 + length k_bytes) k_bytes) (\<lambda>_.
     bindE (set_buf (offset + 64 + length k_bytes) (offset + total) v_bytes) (\<lambda>_.
     bindE (modifyE (\<lambda>m. m\<lparr>mm_write_head := mm_write_head m + total\<rparr>)) (\<lambda>_.
     ret (offset, total, desc)))))))))))"

definition read_paged_block ::
    "'d torch \<Rightarrow> int \<Rightarrow> nat list \<Rightarrow> ustr \<Rightarrow> 'd option \<Rightarrow> ('d tensor \<times> 'd tensor) mm_op" where
  "read_paged_block T offset shape device dtype =
     (let d = (case dtype of None \<Rightarrow> t_float16 T | Some d \<Rightarrow> d); payload = offset + 64 in
      bindE (liftE (serialize_tensor T (t_empty T 1 d))) (\<lambda>(_, _, bytes_per_elem).
      bindE (getsE mm_buf) (\<lambda>buf.
      bindE (liftE (deserialize_tensor T buf payload shape d device)) (\<lambda>k.
      bindE (liftE (deserialize_tensor T buf (payload + int (prod_list shape * bytes_per_elem)) shape d device)) (\<lambda>v.
      ret (k, v))))))"

section \<open>What a write does\<close>

lemma set_slice_splice:
  "off \<le> length buf \<Longrightarrow> set_slice (int off) (int (off + length xs)) xs buf = splice off xs buf"
  by (auto simp: set_slice_def splice_def py_bound_def Let_def min_def max_def nat_add_distrib)

definition slot_size :: "'d tensor \<Rightarrow> 'd tensor \<Rightarrow> nat" where
  "slot_size key val = 64 + (length (t_data key) + length (t_data val))"

definition slot :: "memory_manager \<Rightarrow> nat \<Rightarrow> nat" where
  "slot m n = (if mm_write_head m + n > mm_pool_size_bytes m then 0 else mm_write_head m)"

definition block_header :: "'d torch \<Rightarrow> 'd tensor \<Rightarrow> 'd tensor \<Rightarrow> int \<Rightarrow> int \<Rightarrow> tensor_descriptor" where
  "block_header T key val layer_idx h =
     TensorBlockDescriptor (uint DESCRIPTOR_MAGIC) layer_idx 1 (int (t_shape key ! 1)) (int (t_shape key ! 0))
       (int (t_shape key ! 2)) (int (dtype_code (fst (dtype_info T (t_dtype key))))) h
       (int (length (t_data key) + length (t_data val)))"

definition block_bytes :: "'d torch \<Rightarrow> 'd tensor \<Rightarrow> 'd tensor \<Rightarrow> int \<Rightarrow> int \<Rightarrow> bytes" where
  "block_bytes T key val layer_idx h = to_bytes (block_header T key val layer_idx h) @ t_data key @ t_data val"

lemma well_formed_header: "well_formed (block_header T key val l h)"
  by (simp add: well_formed_def block_header_def TensorBlockDescriptor_def zeros_def)

lemma length_block_bytes: "length (block_bytes T key val l h) = slot_size key val"
  by (simp add: block_bytes_def slot_size_def length_to_bytes [OF well_formed_header])

lemma header_valid: "is_valid (block_header T key val l h)"
  by (simp add: is_valid_def block_header_def TensorBlockDescriptor_def)

lemma set_buf_run:
  "off \<le> length (mm_buf m) \<Longrightarrow> b = off + length xs \<Longrightarrow>
   set_buf off b xs m = (Inr (), m\<lparr>mm_buf := splice off xs (mm_buf m)\<rparr>)"
  using set_slice_splice [of off "mm_buf m" xs] by (simp add: set_buf_def)

lemma write_run:
  assumes "documented T" "tensor_ok T key" "tensor_ok T val" "3 \<le> length (t_shape key)" "t_shape val \<noteq> []"
    and "mm_write_head m \<le> length (mm_buf m)"
    and "registered T (t_dtype key)" "registered T (t_dtype val)"
  defines "off \<equiv> slot m (slot_size key val)"
  shows "write_paged_block T key val l h b m =
    (Inr (off, slot_size key val, block_header T key val l h),
     m\<lparr>mm_buf := splice off (block_bytes T key val l h) (mm_buf m), mm_write_head := off + slot_size key val\<rparr>)"
proof -
  let ?d = "to_bytes (block_header T key val l h)"
  let ?k = "t_data key" and ?v = "t_data val"
  have d: "length ?d = 64" by (rule length_to_bytes [OF well_formed_header])
  have le: "off \<le> length (mm_buf m)" using assms(6) by (simp add: off_def slot_def)
  obtain x0 x1 x2 rest where shape: "t_shape key = x0 # x1 # x2 # rest"
    using assms(4) by (auto simp: numeral_3_eq_3 Suc_le_length_iff)
  then have dims: "dim key 0 = Inr x0" "dim key 1 = Inr x1" "dim key 2 = Inr x2"
    by (simp_all add: dim_def)
  have hdr: "TensorBlockDescriptor (uint DESCRIPTOR_MAGIC) l 1 (int x1) (int x0) (int x2)
      (int (dtype_code (fst (dtype_info T (t_dtype key))))) h (int (length ?k) + int (length ?v)) = block_header T key val l h"
    by (simp add: block_header_def shape)
  have alloc: "allocate (slot_size key val) m = (Inr off, m\<lparr>mm_write_head := off\<rparr>)"
    by (simp add: allocate_def bindE_run slot_def off_def)
  let ?b1 = "splice off ?d (mm_buf m)"
  let ?b2 = "splice (off + 64) ?k ?b1"
  let ?b3 = "splice (off + 64 + length ?k) ?v ?b2"
  have b2: "?b2 = splice off (?d @ ?k) (mm_buf m)" using splice_twice [OF le, of ?d ?k] d by simp
  have b3: "?b3 = splice off (block_bytes T key val l h) (mm_buf m)"
    using splice_twice [OF le, of "?d @ ?k" ?v] d b2 by (simp add: block_bytes_def add.assoc)
  have w1: "set_buf off (off + 64) ?d x = (Inr (), x\<lparr>mm_buf := ?b1\<rparr>)" if "mm_buf x = mm_buf m" for x
    using that le d by (simp add: set_buf_run)
  have w2: "set_buf (off + 64) (off + 64 + length ?k) ?k x = (Inr (), x\<lparr>mm_buf := ?b2\<rparr>)" if "mm_buf x = ?b1" for x
    using that le d by (simp add: set_buf_run splice_def)
  have w3: "set_buf (off + 64 + length ?k) (off + slot_size key val) ?v x = (Inr (), x\<lparr>mm_buf := ?b3\<rparr>)"
    if "mm_buf x = ?b2" for x
    using that le d by (simp add: set_buf_run b2 splice_def slot_size_def)
  have ser: "serialize_tensor T key = Inr (?k, dtype_info T (t_dtype key))"
    "serialize_tensor T val = Inr (?v, dtype_info T (t_dtype val))"
    using assms(1-3,5,7,8) shape by (simp_all add: serialize_ok)
  show ?thesis
    using alloc dims w1 w2 w3 b3
    by (simp add: write_paged_block_def ser bindE_run slot_size_def Let_def split_def
        hdr add.assoc)
qed

section \<open>Blocks in the buffer\<close>

text \<open>The block of a key and a value is stored at an offset.\<close>

definition block_at ::
    "'d torch \<Rightarrow> memory_manager \<Rightarrow> nat \<Rightarrow> 'd tensor \<Rightarrow> 'd tensor \<Rightarrow> int \<Rightarrow> int \<Rightarrow> bool" where
  "block_at T m off key val l h \<longleftrightarrow>
     off + slot_size key val \<le> length (mm_buf m) \<and>
     take (slot_size key val) (drop off (mm_buf m)) = block_bytes T key val l h"

lemma header_at:
  assumes "block_at T m off key val l h"
  shows "from_bytes (drop off (mm_buf m)) = Inr (block_header T key val l h)"
proof -
  have "drop off (mm_buf m) = take (slot_size key val) (drop off (mm_buf m)) @ drop (slot_size key val) (drop off (mm_buf m))"
    by (metis append_take_drop_id)
  also have "\<dots> = to_bytes (block_header T key val l h) @ t_data key @ t_data val @ drop (slot_size key val) (drop off (mm_buf m))"
    using assms by (simp add: block_at_def block_bytes_def)
  finally show ?thesis by (simp add: from_to_bytes [OF well_formed_header])
qed

text \<open>A pair the reader can give back: same shape and element type, one the codec knows, not empty.\<close>

definition kv_pair :: "'d torch \<Rightarrow> 'd tensor \<Rightarrow> 'd tensor \<Rightarrow> bool" where
  "kv_pair T key val \<longleftrightarrow> tensor_ok T key \<and> tensor_ok T val \<and> length (t_shape key) = 3 \<and>
     t_shape val = t_shape key \<and> t_dtype val = t_dtype key \<and> registered T (t_dtype key) \<and>
     0 < prod_list (t_shape key)"

definition ring_ok :: "memory_manager \<Rightarrow> bool" where
  "ring_ok m \<longleftrightarrow> length (mm_buf m) = mm_pool_size_bytes m \<and> mm_write_head m \<le> mm_pool_size_bytes m"

lemma ring_ok_new: "KacheDBMemoryManager core mb = Inr m \<Longrightarrow> ring_ok m"
  by (auto simp: KacheDBMemoryManager_def ring_ok_def zeros_def Let_def split: if_splits)

lemma write_block_at:
  assumes T: "documented T" and kv: "kv_pair T key val" and ring: "ring_ok m"
    and fits: "slot_size key val \<le> mm_pool_size_bytes m"
  defines "off \<equiv> slot m (slot_size key val)"
  obtains m' where "write_paged_block T key val l h b m =
      (Inr (off, slot_size key val, block_header T key val l h), m')"
    and "ring_ok m'" "mm_pool_size_bytes m' = mm_pool_size_bytes m" "block_at T m' off key val l h"
    and "mm_write_head m' = off + slot_size key val" "off + slot_size key val \<le> mm_pool_size_bytes m"
    and "\<And>a n. a + n \<le> off \<or> off + slot_size key val \<le> a \<Longrightarrow>
      take n (drop a (mm_buf m')) = take n (drop a (mm_buf m))"
proof -
  let ?bs = "block_bytes T key val l h"
  let ?m = "m\<lparr>mm_buf := splice off ?bs (mm_buf m), mm_write_head := off + slot_size key val\<rparr>"
  have room: "off + slot_size key val \<le> mm_pool_size_bytes m" and le: "off \<le> length (mm_buf m)"
    using fits ring by (auto simp: off_def slot_def ring_ok_def)
  have run: "write_paged_block T key val l h b m = (Inr (off, slot_size key val, block_header T key val l h), ?m)"
    using kv ring unfolding off_def by (intro write_run [OF T]) (auto simp: kv_pair_def ring_ok_def)
  have len: "length (splice off ?bs (mm_buf m)) = length (mm_buf m)"
    using room ring by (intro length_splice) (simp add: length_block_bytes ring_ok_def)
  have "ring_ok ?m" using len ring room by (simp add: ring_ok_def)
  moreover have "block_at T ?m off key val l h"
    using len le room ring by (simp add: block_at_def drop_splice length_block_bytes ring_ok_def)
  ultimately show thesis
    using that [OF run] room splice_outside [OF le] by (simp add: length_block_bytes)
qed

lemma block_at_frame:
  assumes "block_at T m a key val l h" and "length (mm_buf m') = length (mm_buf m)"
    and "take (slot_size key val) (drop a (mm_buf m')) = take (slot_size key val) (drop a (mm_buf m))"
  shows "block_at T m' a key val l h"
  using assms by (simp add: block_at_def)

lemma read_block:
  assumes T: "documented T" and kv: "kv_pair T key val" and at: "block_at T m off key val l h" and dev: "device_ok T device"
  shows "read_paged_block T (int off) (t_shape key) device (Some (t_dtype key)) m = (Inr (key, val), m)"
proof -
  let ?n = "prod_list (t_shape key) * t_itemsize T (t_dtype key)"
  have len: "length (t_data key) = ?n" "length (t_data val) = ?n"
    using kv by (auto simp: kv_pair_def tensor_ok_def)
  have room: "off + 64 + ?n + ?n \<le> length (mm_buf m)"
    using at len by (simp add: block_at_def slot_size_def)
  have all: "take (64 + (?n + ?n)) (drop off (mm_buf m)) = block_bytes T key val l h"
    using at len by (simp add: block_at_def slot_size_def)
  have "take ?n (drop 64 (take (64 + (?n + ?n)) (drop off (mm_buf m)))) = t_data key"
    unfolding all by (simp add: block_bytes_def length_to_bytes [OF well_formed_header] len)
  then have k: "take ?n (drop (off + 64) (mm_buf m)) = t_data key"
    by (simp add: drop_take add.commute)
  have "take ?n (drop (64 + ?n) (take (64 + (?n + ?n)) (drop off (mm_buf m)))) = t_data val"
    unfolding all by (simp add: block_bytes_def length_to_bytes [OF well_formed_header] len)
  then have v: "take ?n (drop (off + 64 + ?n) (mm_buf m)) = t_data val"
    by (simp add: drop_take ac_simps)
  have size: "snd (dtype_info T (t_dtype key)) = t_itemsize T (t_dtype key)"
    using registered_size [OF T] kv by (simp add: kv_pair_def)
  obtain raw where e: "serialize_tensor T (t_empty T 1 (t_dtype key)) = Inr (raw, dtype_info T (t_dtype key))"
    using serialize_empty [OF T] kv unfolding kv_pair_def by blast
  have pos: "0 < prod_list (t_shape key)" using kv by (simp add: kv_pair_def)
  have dk: "deserialize_tensor T (mm_buf m) (int off + 64) (t_shape key) (t_dtype key) device = Inr key"
    using deserialize_ok [OF T dev pos, of "off + 64" "t_dtype key" "mm_buf m"] room k by simp
  have dv: "deserialize_tensor T (mm_buf m) (int off + 64 + int ?n) (t_shape key) (t_dtype key) device = Inr val"
    using deserialize_ok [OF T dev pos, of "off + 64 + ?n" "t_dtype key" "mm_buf m"] room v kv
    by (simp add: kv_pair_def)
  show ?thesis
    using e size dk dv by (simp add: read_paged_block_def bindE_run Let_def split_def)
qed

section \<open>Theorems about the ring buffer\<close>

text \<open>C15: Writing a key and a value that fit in the pool succeeds, and reading at the returned offset with
  their shape and element type gives both back, on the CPU or any device that is there. The descriptor is at that offset and is valid, every byte
  outside the block is as before, and the buffer keeps its size.\<close>

theorem written_block_reads_back:
  assumes "documented T" and "kv_pair T key val" and "ring_ok m"
    and "slot_size key val \<le> mm_pool_size_bytes m" and "device_ok T device"
  shows "\<exists>off d m'. write_paged_block T key val layer_idx h b m = (Inr (off, slot_size key val, d), m') \<and>
    read_paged_block T (int off) (t_shape key) device (Some (t_dtype key)) m' = (Inr (key, val), m') \<and>
    from_bytes (drop off (mm_buf m')) = Inr d \<and> is_valid d \<and> d_prefix_hash d = word_of_int h \<and>
    ring_ok m' \<and> mm_pool_size_bytes m' = mm_pool_size_bytes m \<and>
    (\<forall>a n. a + n \<le> off \<or> off + slot_size key val \<le> a \<longrightarrow>
      take n (drop a (mm_buf m')) = take n (drop a (mm_buf m)))"
proof -
  obtain m' where w: "write_paged_block T key val layer_idx h b m =
      (Inr (slot m (slot_size key val), slot_size key val, block_header T key val layer_idx h), m')"
    and m': "ring_ok m'" "mm_pool_size_bytes m' = mm_pool_size_bytes m"
      "block_at T m' (slot m (slot_size key val)) key val layer_idx h"
    and frame: "\<And>a n. a + n \<le> slot m (slot_size key val) \<or> slot m (slot_size key val) + slot_size key val \<le> a \<Longrightarrow>
      take n (drop a (mm_buf m')) = take n (drop a (mm_buf m))"
    using write_block_at [OF assms(1-4)] by metis
  have "d_prefix_hash (block_header T key val layer_idx h) = word_of_int h"
    by (simp add: block_header_def TensorBlockDescriptor_def)
  then show ?thesis
    using w m' frame read_block [OF assms(1,2) m'(3) assms(5)] header_at [OF m'(3)] header_valid by blast
qed

text \<open>A block larger than the pool is not refused: the buffer grows to hold it, everything stored before is
  gone, and the write head ends beyond the size of the pool.\<close>

theorem oversize_block_grows_pool:
  assumes "documented T" and "kv_pair T key val" and "ring_ok m"
    and "mm_pool_size_bytes m < slot_size key val"
  shows "\<exists>d m'. write_paged_block T key val layer_idx h b m = (Inr (0, slot_size key val, d), m') \<and>
    mm_buf m' = to_bytes d @ t_data key @ t_data val \<and>
    mm_pool_size_bytes m' < length (mm_buf m') \<and> mm_pool_size_bytes m' < mm_write_head m'"
proof -
  have off: "slot m (slot_size key val) = 0" using assms(4) by (simp add: slot_def)
  have run: "write_paged_block T key val layer_idx h b m =
      (Inr (0, slot_size key val, block_header T key val layer_idx h),
       m\<lparr>mm_buf := splice 0 (block_bytes T key val layer_idx h) (mm_buf m), mm_write_head := slot_size key val\<rparr>)"
    using write_run [OF assms(1), of key val m layer_idx h b] assms(2,3) off by (simp add: kv_pair_def ring_ok_def) force
  have "splice 0 (block_bytes T key val layer_idx h) (mm_buf m) = block_bytes T key val layer_idx h"
    using assms(3,4) by (intro splice_beyond) (simp add: length_block_bytes ring_ok_def)
  moreover have "length (block_bytes T key val layer_idx h) = slot_size key val" by (rule length_block_bytes)
  ultimately show ?thesis using run assms(4) by (simp add: block_bytes_def)
qed

definition small_tensor :: "bytes \<Rightarrow> nat tensor" where
  "small_tensor b = \<lparr>t_dtype = 3, t_shape = [1, length b, 1], t_data = b\<rparr>"

definition small_manager :: "nat \<Rightarrow> memory_manager" where
  "small_manager n = \<lparr>mm_core_id = 0, mm_pool_size_bytes = n, mm_shm_path = u ''/dev/shm/kachedb_0'',
     mm_buf = zeros n, mm_write_head = 0\<rparr>"

lemma small_pair: "length k = length v \<Longrightarrow> k \<noteq> [] \<Longrightarrow> kv_pair flat_torch (small_tensor k) (small_tensor v)"
  by (auto simp: kv_pair_def tensor_ok_def small_tensor_def flat_torch_def registered_def dtype_map_def flat_size_def)

lemma small_ring: "ring_ok (small_manager n)"
  by (simp add: ring_ok_def small_manager_def zeros_def)

lemma written_block_reads_back_witness:
  "\<exists>off d m'. write_paged_block flat_torch (small_tensor ''k'') (small_tensor ''v'') 0 7 0 (small_manager 100) = (Inr (off, 66, d), m') \<and>
    read_paged_block flat_torch (int off) [1, 1, 1] (u ''cpu'') (Some 3) m' = (Inr (small_tensor ''k'', small_tensor ''v''), m')"
  using written_block_reads_back [OF flat_torch_documented small_pair [of "''k''" "''v''"] small_ring [of 100], where layer_idx = 0
      and h = 7 and b = 0 and device = "u ''cpu''"]
  by (simp add: slot_size_def small_tensor_def small_manager_def device_ok_def) blast

lemma oversize_block_grows_pool_witness:
  "\<exists>d m'. write_paged_block flat_torch (small_tensor ''k'') (small_tensor ''v'') 0 7 0 (small_manager 10) = (Inr (0, 66, d), m') \<and>
    mm_buf m' = to_bytes d @ ''kv''"
  using oversize_block_grows_pool [OF flat_torch_documented small_pair small_ring, of "''k''" "''v''" 10 0 7 0]
  by (simp add: slot_size_def small_tensor_def small_manager_def) blast

end
