(* ===== verification/Layers.thy ===== *)
theory Layers
  imports Dma
begin

text \<open>
  The loop over the layers of a model that both connectors run: one block per layer is written to the ring
  buffer and its offset kept. Which tensors make up layer \<open>l\<close> is the connector's business (\<open>pick\<close>).
\<close>

primrec write_layers ::
    "'d torch \<Rightarrow> (nat \<Rightarrow> exc + 'd tensor \<times> 'd tensor) \<Rightarrow> int \<Rightarrow> int \<Rightarrow> nat \<Rightarrow> nat \<Rightarrow> int list mm_op" where
  "write_layers T pick h block_id l 0 = ret []"
| "write_layers T pick h block_id l (Suc n) =
     bindE (liftE (pick l)) (\<lambda>(k, v).
     bindE (write_paged_block T k v (int l) h block_id) (\<lambda>(offset, _, _).
     bindE (write_layers T pick h block_id (Suc l) n) (\<lambda>offs. ret (int offset # offs))))"

text \<open>The block of layer \<open>l\<close> is where the offsets say, below the write head.\<close>

definition stored_layer ::
    "'d torch \<Rightarrow> memory_manager \<Rightarrow> int \<Rightarrow> 'd tensor list \<Rightarrow> 'd tensor list \<Rightarrow> int list \<Rightarrow> nat \<Rightarrow> bool" where
  "stored_layer T m h ks vs offs l \<longleftrightarrow>
     (\<exists>off. offs ! l = int off \<and> kv_pair T (ks ! l) (vs ! l) \<and> block_at T m off (ks ! l) (vs ! l) (int l) h \<and>
       off + slot_size (ks ! l) (vs ! l) \<le> mm_write_head m)"

text \<open>What the layers of a block take up.\<close>

definition layers_size :: "'d tensor list \<Rightarrow> 'd tensor list \<Rightarrow> nat \<Rightarrow> nat \<Rightarrow> nat" where
  "layers_size ks vs l n = (\<Sum>i \<leftarrow> [l..<l + n]. slot_size (ks ! i) (vs ! i))"

lemma layers_size_Suc: "layers_size ks vs l (Suc n) = slot_size (ks ! l) (vs ! l) + layers_size ks vs (Suc l) n"
  by (simp add: layers_size_def upt_conv_Cons del: upt_Suc)

lemma stored_layer_mono:
  assumes "stored_layer T m h ks vs offs l" "length (mm_buf m') = length (mm_buf m)"
    and "mm_write_head m \<le> mm_write_head m'"
    and "\<And>a k. a + k \<le> mm_write_head m \<Longrightarrow> take k (drop a (mm_buf m')) = take k (drop a (mm_buf m))"
  shows "stored_layer T m' h ks vs offs l"
proof -
  obtain off where off: "offs ! l = int off" "kv_pair T (ks ! l) (vs ! l)"
      "block_at T m off (ks ! l) (vs ! l) (int l) h" "off + slot_size (ks ! l) (vs ! l) \<le> mm_write_head m"
    using assms(1) by (auto simp: stored_layer_def)
  then have "block_at T m' off (ks ! l) (vs ! l) (int l) h"
    using block_at_frame [OF off(3) assms(2)] assms(4) by blast
  then show ?thesis using off assms(3) by (auto simp: stored_layer_def)
qed

lemma write_layers_run:
  assumes T: "documented T" and "\<And>i. l \<le> i \<Longrightarrow> i < l + n \<Longrightarrow> pick i = Inr (ks ! i, vs ! i)"
    and "\<And>i. l \<le> i \<Longrightarrow> i < l + n \<Longrightarrow> kv_pair T (ks ! i) (vs ! i)"
    and "ring_ok m" "mm_write_head m + layers_size ks vs l n \<le> mm_pool_size_bytes m"
  shows "\<exists>offs m'. write_layers T pick h block_id l n m = (Inr offs, m') \<and> ring_ok m' \<and> length offs = n \<and>
    length (mm_buf m') = length (mm_buf m) \<and>
    mm_write_head m' = mm_write_head m + layers_size ks vs l n \<and> mm_pool_size_bytes m' = mm_pool_size_bytes m \<and>
    (\<forall>a k. a + k \<le> mm_write_head m \<longrightarrow> take k (drop a (mm_buf m')) = take k (drop a (mm_buf m))) \<and>
    (\<forall>i < n. \<exists>off. offs ! i = int off \<and> block_at T m' off (ks ! (l + i)) (vs ! (l + i)) (int (l + i)) h \<and>
      off + slot_size (ks ! (l + i)) (vs ! (l + i)) \<le> mm_write_head m')"
  using assms(2-5)
proof (induction n arbitrary: l m)
  case 0
  then show ?case by (simp add: layers_size_def)
next
  case (Suc n)
  let ?k = "ks ! l" and ?v = "vs ! l"
  have kv: "kv_pair T ?k ?v" using Suc.prems(2) by simp
  have size: "mm_write_head m + slot_size ?k ?v + layers_size ks vs (Suc l) n \<le> mm_pool_size_bytes m"
    using Suc.prems(4) by (simp add: layers_size_Suc)
  then have slot: "slot m (slot_size ?k ?v) = mm_write_head m" by (simp add: slot_def)
  obtain m1 where w: "write_paged_block T ?k ?v (int l) h block_id m =
      (Inr (mm_write_head m, slot_size ?k ?v, block_header T ?k ?v (int l) h), m1)"
    and m1: "ring_ok m1" "mm_pool_size_bytes m1 = mm_pool_size_bytes m" "block_at T m1 (mm_write_head m) ?k ?v (int l) h"
      "mm_write_head m1 = mm_write_head m + slot_size ?k ?v"
    and frame1: "\<And>a n. a + n \<le> mm_write_head m \<Longrightarrow> take n (drop a (mm_buf m1)) = take n (drop a (mm_buf m))"
    using write_block_at [OF T kv Suc.prems(3), where l = "int l" and h = h and b = block_id] size
    unfolding slot by (metis add_leD1 add_leD2)
  obtain offs m2 where r: "write_layers T pick h block_id (Suc l) n m1 = (Inr offs, m2)"
    and m2: "ring_ok m2" "length offs = n" "length (mm_buf m2) = length (mm_buf m1)"
      "mm_write_head m2 = mm_write_head m1 + layers_size ks vs (Suc l) n" "mm_pool_size_bytes m2 = mm_pool_size_bytes m1"
    and frame2: "\<forall>a k. a + k \<le> mm_write_head m1 \<longrightarrow> take k (drop a (mm_buf m2)) = take k (drop a (mm_buf m1))"
    and blocks: "\<forall>i < n. \<exists>off. offs ! i = int off \<and>
      block_at T m2 off (ks ! (Suc l + i)) (vs ! (Suc l + i)) (int (Suc l + i)) h \<and>
      off + slot_size (ks ! (Suc l + i)) (vs ! (Suc l + i)) \<le> mm_write_head m2"
    using Suc.IH [of "Suc l" m1] Suc.prems m1 size by (auto simp: add.assoc)
  have "length (mm_buf m1) = length (mm_buf m)"
    using m1(1,2) Suc.prems(3) by (simp add: ring_ok_def)
  moreover have at: "block_at T m2 (mm_write_head m) ?k ?v (int l) h"
    using block_at_frame [OF m1(3) m2(3)] frame2 m1(4) by simp
  moreover have "\<exists>off. (int (mm_write_head m) # offs) ! i = int off \<and>
      block_at T m2 off (ks ! (l + i)) (vs ! (l + i)) (int (l + i)) h \<and>
      off + slot_size (ks ! (l + i)) (vs ! (l + i)) \<le> mm_write_head m2" if "i < Suc n" for i
  proof (cases i)
    case 0
    then show ?thesis using at m1(4) m2(4) by auto
  next
    case (Suc j)
    then show ?thesis using blocks that by simp
  qed
  moreover have "write_layers T pick h block_id l (Suc n) m = (Inr (int (mm_write_head m) # offs), m2)"
    using w r Suc.prems(1) by (simp add: bindE_run)
  ultimately show ?case
    using m1 m2 frame1 frame2
    by (intro exI [of _ "int (mm_write_head m) # offs"] exI [of _ m2]) (simp add: layers_size_Suc add.assoc)
qed

end
