(* ===== verification/Prefix_Cache.thy ===== *)
theory Prefix_Cache
  imports Prelude
begin

text \<open>
  \<open>vllm/prefix_cache.py\<close>: chained 64-bit hashes of fixed-size token blocks and the index from a hash to a
  registered block. \<open>hashlib.blake2b(..., digest_size=8)\<close> is a parameter \<open>H\<close>. Metadata is a type variable;
  \<open>None\<close> stands for the empty dictionary.
\<close>

section \<open>Hashes\<close>

text \<open>\<open>struct.pack_into\<close> with the format letters \<open>Q\<close> (\<open>w = 8\<close>) and \<open>I\<close> (\<open>w = 4\<close>), little-endian, and
  \<open>struct.unpack("<Q", ...)\<close>.\<close>

definition pack_uint :: "nat \<Rightarrow> int \<Rightarrow> exc + bytes" where
  "pack_uint w n = (if 0 \<le> n \<and> n < 256 ^ w then Inr (le_bytes w (nat n)) else Inl BuiltinStructError)"

fun pack_tokens :: "int list \<Rightarrow> exc + bytes" where
  "pack_tokens [] = Inr []"
| "pack_tokens (t # ts) =
     (case pack_uint 4 t of Inl e \<Rightarrow> Inl e | Inr b \<Rightarrow> map_sumE (\<lambda>bs. b @ bs) (pack_tokens ts))"

definition unpack_u64 :: "bytes \<Rightarrow> exc + int" where
  "unpack_u64 b = (if length b = 8 then Inr (int (le_nat b)) else Inl BuiltinStructError)"

definition block_buffer :: "int list \<Rightarrow> int \<Rightarrow> exc + bytes" where
  "block_buffer token_ids parent_hash =
     (case pack_uint 8 parent_hash of Inl e \<Rightarrow> Inl e
      | Inr p \<Rightarrow> map_sumE (\<lambda>ts. p @ ts) (pack_tokens token_ids))"

definition compute_block_hash :: "(bytes \<Rightarrow> bytes) \<Rightarrow> int list \<Rightarrow> int \<Rightarrow> exc + int" where
  "compute_block_hash H token_ids parent_hash =
     (case block_buffer token_ids parent_hash of Inl e \<Rightarrow> Inl e | Inr buf \<Rightarrow> unpack_u64 (H buf))"

section \<open>The index\<close>

record 'm prefix_cache =
  pc_block_size :: int
  pc_index :: "int \<rightharpoonup> int \<times> int \<times> 'm option"

type_synonym ('m, 'a) pc_op = "('m prefix_cache, exc, 'a) py"

definition KacheDBPrefixCache :: "int \<Rightarrow> 'm prefix_cache" where
  "KacheDBPrefixCache block_size = \<lparr>pc_block_size = block_size, pc_index = Map.empty\<rparr>"

text \<open>The loop over \<open>range(num_blocks)\<close>, from block \<open>b\<close> on.\<close>

primrec hash_blocks :: "(bytes \<Rightarrow> bytes) \<Rightarrow> int \<Rightarrow> int list \<Rightarrow> nat \<Rightarrow> int \<Rightarrow> nat \<Rightarrow> exc + int list" where
  "hash_blocks H bs prompt_tokens b current_hash 0 = Inr []"
| "hash_blocks H bs prompt_tokens b current_hash (Suc n) =
     (case compute_block_hash H (slice (int b * bs) ((int b + 1) * bs) prompt_tokens) current_hash of
        Inl e \<Rightarrow> Inl e
      | Inr h \<Rightarrow> map_sumE (\<lambda>hs. h # hs) (hash_blocks H bs prompt_tokens (Suc b) h n))"

definition compute_sequence_hashes :: "(bytes \<Rightarrow> bytes) \<Rightarrow> int \<Rightarrow> int list \<Rightarrow> exc + int list" where
  "compute_sequence_hashes H bs prompt_tokens =
     (if bs = 0 then Inl BuiltinZeroDivisionError
      else hash_blocks H bs prompt_tokens 0 0 (nat (int (length prompt_tokens) div bs)))"

definition register_block :: "int \<Rightarrow> int \<Rightarrow> int \<Rightarrow> 'm option \<Rightarrow> ('m, unit) pc_op" where
  "register_block prefix_hash block_id num_tokens metadata =
     modifyE (\<lambda>c. c\<lparr>pc_index := (pc_index c)(prefix_hash \<mapsto> (block_id, num_tokens, metadata))\<rparr>)"

definition lookup_block :: "int \<Rightarrow> ('m, (int \<times> int \<times> 'm option) option) pc_op" where
  "lookup_block prefix_hash = getsE (\<lambda>c. pc_index c prefix_hash)"

primrec match_blocks :: "int list \<Rightarrow> ('m, int \<times> (int \<times> int \<times> 'm option) list) pc_op" where
  "match_blocks [] = ret (0, [])"
| "match_blocks (h # hs) = bindE (lookup_block h) (\<lambda>entry. case entry of
      None \<Rightarrow> ret (0, [])
    | Some e \<Rightarrow> bindE (getsE pc_block_size) (\<lambda>bs. bindE (match_blocks hs) (\<lambda>(n, es). ret (bs + n, e # es))))"

definition find_longest_prefix :: "(bytes \<Rightarrow> bytes) \<Rightarrow> int list \<Rightarrow> ('m, int \<times> (int \<times> int \<times> 'm option) list) pc_op" where
  "find_longest_prefix H prompt_tokens = bindE (getsE pc_block_size) (\<lambda>bs.
     bindE (liftE (compute_sequence_hashes H bs prompt_tokens)) match_blocks)"

section \<open>What a hash stands for\<close>

lemma pack_uint_inj: "pack_uint w m = Inr b \<Longrightarrow> pack_uint w n = Inr b \<Longrightarrow> m = n"
proof -
  assume "pack_uint w m = Inr b" "pack_uint w n = Inr b"
  then have "0 \<le> m" "m < 256 ^ w" "0 \<le> n" "n < 256 ^ w" "le_bytes w (nat m) = le_bytes w (nat n)"
    by (auto simp: pack_uint_def split: if_splits)
  moreover from this have "nat m mod 256 ^ w = nat n mod 256 ^ w" by (metis le_nat_le_bytes)
  moreover have "nat m < 256 ^ w" "nat n < 256 ^ w" using calculation(2,4) by (simp_all add: nat_less_iff)
  ultimately show "m = n" by (simp add: eq_nat_nat_iff)
qed

lemma pack_uint_length: "pack_uint w n = Inr b \<Longrightarrow> length b = w"
  by (auto simp: pack_uint_def split: if_splits)

lemma pack_tokens_inj: "pack_tokens xs = Inr b \<Longrightarrow> pack_tokens ys = Inr b \<Longrightarrow> xs = ys"
proof (induction xs arbitrary: ys b)
  case Nil
  then show ?case by (cases ys) (auto split: sum.splits dest: pack_uint_length)
next
  case (Cons x xs)
  then obtain bx bt where x: "pack_uint 4 x = Inr bx" "pack_tokens xs = Inr bt" "b = bx @ bt"
    by (auto split: sum.splits)
  show ?case
  proof (cases ys)
    case Nil
    then show ?thesis using Cons.prems x by (auto dest: pack_uint_length)
  next
    case (Cons y ys')
    then obtain by' bt' where y: "pack_uint 4 y = Inr by'" "pack_tokens ys' = Inr bt'" "b = by' @ bt'"
      using Cons.prems(2) by (auto split: sum.splits)
    then have "bx = by'" "bt = bt'" using x pack_uint_length by (metis append_eq_append_conv)+
    then show ?thesis using x y Cons pack_uint_inj Cons.IH by blast
  qed
qed

lemma block_buffer_inj:
  assumes "block_buffer ts p = Inr b" "block_buffer ts' p' = Inr b"
  shows "ts = ts' \<and> p = p'"
proof -
  obtain x y where x: "pack_uint 8 p = Inr x" "pack_tokens ts = Inr y" "b = x @ y"
    using assms(1) by (auto simp: block_buffer_def split: sum.splits)
  obtain x' y' where x': "pack_uint 8 p' = Inr x'" "pack_tokens ts' = Inr y'" "b = x' @ y'"
    using assms(2) by (auto simp: block_buffer_def split: sum.splits)
  have "x = x'" "y = y'" using x x' pack_uint_length by (metis append_eq_append_conv)+
  then show ?thesis using x x' pack_uint_inj pack_tokens_inj by metis
qed

lemma unpack_u64_inj: "unpack_u64 x = Inr h \<Longrightarrow> unpack_u64 y = Inr h \<Longrightarrow> x = y"
  by (metis (no_types, opaque_lifting) Inl_Inr_False Inr_inject le_bytes_le_nat of_nat_eq_iff unpack_u64_def)

text \<open>The \<open>k\<close>-th block of a prompt and the bytes hashed for it, given the hashes of the prompt.\<close>

definition chunk :: "int \<Rightarrow> int list \<Rightarrow> nat \<Rightarrow> int list" where
  "chunk bs prompt k = slice (int k * bs) ((int k + 1) * bs) prompt"

definition parent_of :: "int list \<Rightarrow> nat \<Rightarrow> int" where
  "parent_of hs k = (if k = 0 then 0 else hs ! (k - 1))"

definition hash_input :: "int \<Rightarrow> int list \<Rightarrow> int list \<Rightarrow> nat \<Rightarrow> exc + bytes" where
  "hash_input bs prompt hs k = block_buffer (chunk bs prompt k) (parent_of hs k)"

lemma hash_blocks_nth:
  assumes "hash_blocks H bs prompt b h n = Inr hs" and "k < n"
  shows "\<exists>buf. block_buffer (chunk bs prompt (b + k)) (if k = 0 then h else hs ! (k - 1)) = Inr buf \<and>
    unpack_u64 (H buf) = Inr (hs ! k)"
  using assms
proof (induction n arbitrary: b h hs k)
  case 0
  then show ?case by simp
next
  case (Suc n)
  then obtain h1 hs1 where hs: "hs = h1 # hs1" "hash_blocks H bs prompt (Suc b) h1 n = Inr hs1"
    and h1: "compute_block_hash H (chunk bs prompt b) h = Inr h1"
    by (auto simp: chunk_def split: sum.splits)
  show ?case
  proof (cases k)
    case 0
    then show ?thesis using h1 hs by (auto simp: compute_block_hash_def split: sum.splits)
  next
    case (Suc j)
    then show ?thesis using Suc.IH [OF hs(2), of j] Suc.prems(2) hs(1) by (auto simp: nth_Cons')
  qed
qed

lemma length_hash_blocks: "hash_blocks H bs prompt b h n = Inr hs \<Longrightarrow> length hs = n"
  by (induction n arbitrary: b h hs) (auto split: sum.splits)

lemma sequence_hash:
  assumes "compute_sequence_hashes H bs prompt = Inr hs" and "k < length hs"
  obtains buf where "hash_input bs prompt hs k = Inr buf" and "unpack_u64 (H buf) = Inr (hs ! k)"
  using assms hash_blocks_nth [of H bs prompt 0 0 _ hs k] length_hash_blocks
  by (fastforce simp: compute_sequence_hashes_def hash_input_def parent_of_def split: if_splits)

lemma sequence_blocks:
  assumes "compute_sequence_hashes H bs prompt = Inr hs" and "0 < bs"
  shows "length hs = length prompt div nat bs"
proof -
  have "length hs = nat (int (length prompt) div bs)"
    using assms length_hash_blocks by (auto simp: compute_sequence_hashes_def)
  also have "\<dots> = length prompt div nat bs"
    using assms(2) by (metis nat_div_distrib nat_int of_nat_0_le_iff)
  finally show ?thesis .
qed

lemma whole_blocks:
  assumes "compute_sequence_hashes H bs prompt = Inr hs" and "0 < bs" and "k \<le> length hs"
  shows "k * nat bs \<le> length prompt"
proof -
  have "k * nat bs \<le> (length prompt div nat bs) * nat bs"
    using assms sequence_blocks by (intro mult_le_mono1) auto
  also have "\<dots> \<le> length prompt" by simp
  finally show ?thesis .
qed

lemma chunk_take:
  assumes "0 < bs" "(k + 1) * nat bs \<le> length prompt"
  shows "chunk bs prompt k = take (nat bs) (drop (k * nat bs) prompt)"
proof -
  obtain n where bs: "bs = int n" using assms(1) by (metis zero_less_imp_eq_int)
  have "chunk bs prompt k = slice (int (k * n)) (int ((k + 1) * n)) prompt"
    unfolding chunk_def bs by (simp add: algebra_simps)
  also have "\<dots> = take (nat (int ((k + 1) * n) - int (k * n))) (drop (nat (int (k * n))) prompt)"
    using assms(2) unfolding bs by (intro slice_inside) (simp_all only: of_nat_le_iff of_nat_0_le_iff nat_int, simp_all)
  also have "nat (int ((k + 1) * n) - int (k * n)) = n" by (simp add: algebra_simps)
  finally show ?thesis unfolding nat_int bs .
qed

lemma take_chunks:
  assumes "0 < bs" "(k + 1) * nat bs \<le> length prompt"
  shows "take ((k + 1) * nat bs) prompt = take (k * nat bs) prompt @ chunk bs prompt k"
  unfolding chunk_take [OF assms] by (simp only: take_add add_mult_distrib nat_mult_1)

text \<open>No two of the inputs hashed for two prompts collide, and no hash is the root's zero.\<close>

definition no_collision :: "(bytes \<Rightarrow> bytes) \<Rightarrow> int \<Rightarrow> int list \<Rightarrow> int list \<Rightarrow> int list \<Rightarrow> int list \<Rightarrow> bool" where
  "no_collision H bs p hp q hq \<longleftrightarrow>
     (\<forall>i < length hp. \<forall>j < length hq.
        map_sumE H (hash_input bs p hp i) = map_sumE H (hash_input bs q hq j) \<longrightarrow>
        hash_input bs p hp i = hash_input bs q hq j) \<and> 0 \<notin> set hp \<union> set hq"

lemma equal_hash_equal_input:
  assumes "compute_sequence_hashes H bs p = Inr hp" "compute_sequence_hashes H bs q = Inr hq"
    and "no_collision H bs p hp q hq" "i < length hp" "j < length hq" "hp ! i = hq ! j"
  shows "chunk bs p i = chunk bs q j \<and> parent_of hp i = parent_of hq j"
proof -
  obtain x where x: "hash_input bs p hp i = Inr x" "unpack_u64 (H x) = Inr (hp ! i)"
    using sequence_hash assms(1,4) by blast
  obtain y where y: "hash_input bs q hq j = Inr y" "unpack_u64 (H y) = Inr (hq ! j)"
    using sequence_hash assms(2,5) by blast
  have "H x = H y" using x(2) y(2) assms(6) unpack_u64_inj by metis
  then have "map_sumE H (hash_input bs p hp i) = map_sumE H (hash_input bs q hq j)"
    by (simp add: x(1) y(1))
  then have "hash_input bs p hp i = hash_input bs q hq j"
    using assms(3-5) unfolding no_collision_def by blast
  then have "x = y" by (simp add: x(1) y(1))
  then show ?thesis using block_buffer_inj x(1) y(1) unfolding hash_input_def by blast
qed

lemma equal_hash_equal_prefix:
  assumes "0 < bs" "compute_sequence_hashes H bs p = Inr hp" "compute_sequence_hashes H bs q = Inr hq"
    and "no_collision H bs p hp q hq" "i < length hp" "j < length hq" "hp ! i = hq ! j"
  shows "i = j \<and> take ((i + 1) * nat bs) p = take ((j + 1) * nat bs) q"
  using assms(5-7)
proof (induction i arbitrary: j)
  case 0
  have eq: "chunk bs p 0 = chunk bs q j" "parent_of hp 0 = parent_of hq j"
    using equal_hash_equal_input [OF assms(2-4)] 0 by auto
  have "j = 0"
  proof (rule ccontr)
    assume "j \<noteq> 0"
    then have "hq ! (j - 1) = 0" using eq(2) by (simp add: parent_of_def)
    then have "0 \<in> set hq" using 0(2) by (metis less_imp_diff_less nth_mem)
    then show False using assms(4) by (simp add: no_collision_def)
  qed
  moreover have "(0 + 1) * nat bs \<le> length p" "(0 + 1) * nat bs \<le> length q"
    using whole_blocks [OF assms(2,1), of 1] whole_blocks [OF assms(3,1), of 1] 0 \<open>j = 0\<close> by auto
  ultimately show ?case using eq(1) take_chunks [OF assms(1), of 0] by simp
next
  case (Suc i)
  have eq: "chunk bs p (Suc i) = chunk bs q j" "hp ! i = parent_of hq j"
    using equal_hash_equal_input [OF assms(2-4) Suc.prems] by (simp_all add: parent_of_def)
  have "hp ! i \<in> set hp" using Suc.prems(1) by simp
  then have "hp ! i \<noteq> 0" using assms(4) unfolding no_collision_def by auto
  then obtain k where j: "j = Suc k" "hp ! i = hq ! k"
    using eq(2) by (cases j) (auto simp: parent_of_def)
  then have ih: "i = k" "take ((i + 1) * nat bs) p = take ((k + 1) * nat bs) q"
    using Suc.IH [of k] Suc.prems by auto
  have "(Suc i + 1) * nat bs \<le> length p" "(Suc k + 1) * nat bs \<le> length q"
    using whole_blocks [OF assms(2,1), of "Suc i + 1"] whole_blocks [OF assms(3,1), of "Suc k + 1"] Suc.prems j
    by auto
  then show ?case
    using take_chunks [OF assms(1), of "Suc i" p] take_chunks [OF assms(1), of "Suc k" q] ih eq(1) j(1)
    by simp
qed

lemma hash_blocks_cong:
  assumes "\<And>k. k < n \<Longrightarrow> chunk bs p (b + k) = chunk bs q (b + k)"
  shows "hash_blocks H bs p b h n = hash_blocks H bs q b h n"
  using assms
proof (induction n arbitrary: b h)
  case 0
  then show ?case by simp
next
  case (Suc n)
  have "chunk bs p b = chunk bs q b" using Suc.prems [of 0] by simp
  moreover have "hash_blocks H bs p (Suc b) h' n = hash_blocks H bs q (Suc b) h' n" for h'
    using Suc.prems [of "Suc k" for k] by (intro Suc.IH) simp
  ultimately show ?case by (simp add: chunk_def split: sum.split)
qed

lemma hash_blocks_take:
  "hash_blocks H bs p b h (n + m) = Inr hs \<Longrightarrow> hash_blocks H bs p b h n = Inr (take n hs)"
  by (induction n arbitrary: b h hs) (auto split: sum.splits)

lemma equal_prefix_equal_hashes:
  assumes "0 < bs" "compute_sequence_hashes H bs p = Inr hp" "compute_sequence_hashes H bs q = Inr hq"
    and "n \<le> length hp" "n \<le> length hq" "take (n * nat bs) p = take (n * nat bs) q"
  shows "take n hp = take n hq"
proof -
  have chunks: "chunk bs p k = chunk bs q k" if "k < n" for k
  proof -
    have "(k + 1) * nat bs \<le> n * nat bs" using that by (intro mult_le_mono1) simp
    moreover have "n * nat bs \<le> length p" "n * nat bs \<le> length q"
      using whole_blocks assms by blast+
    ultimately have "chunk bs p k = take (nat bs) (drop (k * nat bs) (take (n * nat bs) p))"
      "chunk bs q k = take (nat bs) (drop (k * nat bs) (take (n * nat bs) q))"
      using chunk_take [OF assms(1)] by (simp_all add: drop_take min_def algebra_simps)
    then show ?thesis using assms(6) by simp
  qed
  have "hash_blocks H bs p 0 0 n = Inr (take n hp)" "hash_blocks H bs q 0 0 n = Inr (take n hq)"
    using assms(1-5) hash_blocks_take [of H bs _ 0 0 n] length_hash_blocks
    by (metis compute_sequence_hashes_def le_add_diff_inverse less_irrefl)+
  then show ?thesis using hash_blocks_cong [of n bs p 0 q] chunks by simp
qed

lemma match_blocks_run:
  "\<exists>n \<le> length hs. match_blocks hs c =
     (Inr (int n * pc_block_size c, map (\<lambda>h. the (pc_index c h)) (take n hs)), c) \<and>
     (\<forall>i < n. pc_index c (hs ! i) \<noteq> None) \<and> (n < length hs \<longrightarrow> pc_index c (hs ! n) = None)"
proof (induction hs)
  case Nil
  then show ?case by simp
next
  case (Cons h hs)
  show ?case
  proof (cases "pc_index c h")
    case None
    then show ?thesis by (intro exI [of _ 0]) (simp add: lookup_block_def bindE_run)
  next
    case (Some e)
    obtain n where n: "n \<le> length hs" "match_blocks hs c =
        (Inr (int n * pc_block_size c, map (\<lambda>h. the (pc_index c h)) (take n hs)), c)"
      "\<forall>i < n. pc_index c (hs ! i) \<noteq> None" "n < length hs \<longrightarrow> pc_index c (hs ! n) = None"
      using Cons.IH by blast
    then show ?thesis using Some
      by (cases e, intro exI [of _ "Suc n"])
        (auto simp: lookup_block_def bindE_run algebra_simps less_Suc_eq_0_disj)
  qed
qed

section \<open>Theorems about the prefix cache\<close>

text \<open>C16: As long as the hashed inputs of two prompts do not collide and no hash is zero, a block hash of the one
  equals a block hash of the other exactly when the two prompts agree up to the end of these blocks.\<close>

theorem block_hash_identifies_prefix:
  assumes "0 < bs" and "compute_sequence_hashes H bs p = Inr hp" and "compute_sequence_hashes H bs q = Inr hq"
    and "no_collision H bs p hp q hq" and "i < length hp" and "j < length hq"
  shows "hp ! i = hq ! j \<longleftrightarrow> take ((i + 1) * nat bs) p = take ((j + 1) * nat bs) q"
proof
  assume "hp ! i = hq ! j"
  then show "take ((i + 1) * nat bs) p = take ((j + 1) * nat bs) q"
    using equal_hash_equal_prefix assms by blast
next
  assume eq: "take ((i + 1) * nat bs) p = take ((j + 1) * nat bs) q"
  have "(i + 1) * nat bs \<le> length p" "(j + 1) * nat bs \<le> length q"
    using whole_blocks [OF assms(2,1), of "i + 1"] whole_blocks [OF assms(3,1), of "j + 1"] assms(5,6) by auto
  then have "(i + 1) * nat bs = (j + 1) * nat bs" using arg_cong [OF eq, of length] by simp
  then have "i = j" using assms(1) by simp
  then have "take (i + 1) hp = take (i + 1) hq"
    using equal_prefix_equal_hashes [OF assms(1-3), of "i + 1"] eq assms(5,6) by simp
  then show "hp ! i = hq ! j" using \<open>i = j\<close> by (metis less_add_one nth_take)
qed

text \<open>The search stops at the first block whose hash is not registered: it returns the entries of all blocks
  before it and the number of their tokens, and leaves the index as it is.\<close>

theorem longest_prefix_found:
  assumes "compute_sequence_hashes H (pc_block_size c) prompt = Inr hs"
  shows "\<exists>n \<le> length hs. find_longest_prefix H prompt c =
      (Inr (int n * pc_block_size c, map (\<lambda>h. the (pc_index c h)) (take n hs)), c) \<and>
    (\<forall>i < n. pc_index c (hs ! i) \<noteq> None) \<and> (n < length hs \<longrightarrow> pc_index c (hs ! n) = None)"
  using match_blocks_run [of hs c] assms by (simp add: find_longest_prefix_def bindE_run)

text \<open>A hash that keeps the low byte of the first token and of the parent.\<close>

definition low_bytes :: "bytes \<Rightarrow> bytes" where
  "low_bytes b = [b ! 8, b ! 0, CHR 0x00, CHR 0x00, CHR 0x00, CHR 0x00, CHR 0x00, CHR 0x00]"

lemma low_bytes_prompt:
  "compute_sequence_hashes low_bytes 1 [5, 6] = Inr [5, 1286]"
  "compute_sequence_hashes low_bytes 1 [5, 7] = Inr [5, 1287]"
  by code_simp+

lemma block_hash_identifies_prefix_witness:
  "([5, 1286] :: int list) ! 0 = [5, 1287] ! 0 \<longleftrightarrow> take 1 [5, 6 :: int] = take 1 [5, 7]"
proof -
  have "no_collision low_bytes 1 [5, 6] [5, 1286] [5, 7] [5, 1287]" by code_simp
  then show ?thesis
    using block_hash_identifies_prefix [OF _ low_bytes_prompt, of 0 0] by simp
qed

lemma longest_prefix_found_witness:
  "find_longest_prefix low_bytes [5, 6] (KacheDBPrefixCache 1 :: unit prefix_cache) = (Inr (0, []), KacheDBPrefixCache 1)"
proof -
  obtain n where n: "find_longest_prefix low_bytes [5, 6] (KacheDBPrefixCache 1 :: unit prefix_cache) =
      (Inr (int n * 1, map (\<lambda>h. the None) (take n [5, 1286 :: int])), KacheDBPrefixCache 1)" "\<forall>i < n. False"
    using longest_prefix_found [of low_bytes "KacheDBPrefixCache 1 :: unit prefix_cache" "[5, 6]" "[5, 1286]"]
    by (auto simp: low_bytes_prompt KacheDBPrefixCache_def)
  then have "n = 0" by blast
  then show ?thesis using n(1) by simp
qed

end
