(* ===== verification/Radix.thy ===== *)
theory Radix
  imports Prefix_Cache "HOL-Library.AList"
begin

text \<open>
  \<open>sglang/radix_adapter.py\<close>: descriptors of evicted radix-tree nodes, indexed by a chained hash, and the walk
  that matches a prompt against them. The dictionary is an association list in insertion order, which the
  walk depends on. \<open>None\<close> stands for empty metadata.
\<close>

section \<open>Nodes\<close>

record 'm radix_node =
  rn_node_id :: int
  rn_parent_hash :: int
  rn_node_hash :: int
  rn_token_ids :: "int list"
  rn_num_tokens :: int
  rn_layer_offsets :: "int list"
  rn_metadata :: "'m option"

record 'm radix_adapter =
  ra_nodes :: "(int \<times> 'm radix_node) list"
  ra_root_hash :: int

type_synonym ('m, 'a) ra_op = "('m radix_adapter, exc, 'a) py"

definition KacheDBRadixAdapter :: "'m radix_adapter" where
  "KacheDBRadixAdapter = \<lparr>ra_nodes = [], ra_root_hash = 0\<rparr>"

definition node_buffer :: "int list \<Rightarrow> int \<Rightarrow> exc + bytes" where
  "node_buffer token_ids parent_hash =
     (case pack_uint 8 parent_hash of Inl e \<Rightarrow> Inl e
      | Inr p \<Rightarrow> (case pack_uint 4 (int (length token_ids)) of Inl e \<Rightarrow> Inl e
      | Inr n \<Rightarrow> map_sumE (\<lambda>ts. p @ n @ ts) (pack_tokens token_ids)))"

definition compute_node_hash :: "(bytes \<Rightarrow> bytes) \<Rightarrow> int list \<Rightarrow> int \<Rightarrow> exc + int" where
  "compute_node_hash H token_ids parent_hash =
     (case node_buffer token_ids parent_hash of Inl e \<Rightarrow> Inl e | Inr buf \<Rightarrow> unpack_u64 (H buf))"

definition register_node ::
    "(bytes \<Rightarrow> bytes) \<Rightarrow> int \<Rightarrow> int list \<Rightarrow> int \<Rightarrow> int list \<Rightarrow> 'm option \<Rightarrow> ('m, 'm radix_node) ra_op" where
  "register_node H node_id token_ids parent_hash layer_offsets metadata =
     bindE (liftE (compute_node_hash H token_ids parent_hash)) (\<lambda>node_hash.
     let desc = \<lparr>rn_node_id = node_id, rn_parent_hash = parent_hash, rn_node_hash = node_hash,
           rn_token_ids = token_ids, rn_num_tokens = int (length token_ids),
           rn_layer_offsets = layer_offsets, rn_metadata = metadata\<rparr> in
     bindE (modifyE (\<lambda>a. a\<lparr>ra_nodes := AList.update node_hash desc (ra_nodes a)\<rparr>)) (\<lambda>_. ret desc))"

definition lookup_node :: "int \<Rightarrow> ('m, 'm radix_node option) ra_op" where
  "lookup_node node_hash = getsE (\<lambda>a. map_of (ra_nodes a) node_hash)"

section \<open>The walk\<close>

definition extends :: "int list \<Rightarrow> int \<Rightarrow> int \<Rightarrow> 'm radix_node \<Rightarrow> bool" where
  "extends prompt cursor parent d \<longleftrightarrow>
     rn_parent_hash d = parent \<and> cursor + rn_num_tokens d \<le> int (length prompt) \<and>
     slice cursor (cursor + rn_num_tokens d) prompt = rn_token_ids d"

definition best_node :: "(int \<times> 'm radix_node) list \<Rightarrow> int list \<Rightarrow> int \<Rightarrow> int \<Rightarrow> 'm radix_node option" where
  "best_node nodes prompt cursor parent = List.find (extends prompt cursor parent) (map snd nodes)"

text \<open>The \<open>while\<close> loop from a cursor on; \<open>None\<close> is a loop that does not end.\<close>

partial_function (option) match_from ::
    "(int \<times> 'm radix_node) list \<Rightarrow> int list \<Rightarrow> int \<Rightarrow> int \<Rightarrow> int \<Rightarrow> (int \<times> 'm radix_node list) option" where
  "match_from nodes prompt limit cursor parent =
     (if cursor < limit then
        (case best_node nodes prompt cursor parent of
           None \<Rightarrow> Some (0, [])
         | Some d \<Rightarrow>
             Option.bind (match_from nodes prompt limit (cursor + rn_num_tokens d) (rn_node_hash d))
               (\<lambda>(n, ds). Some (rn_num_tokens d + n, d # ds)))
      else Some (0, []))"

definition find_matching_nodes ::
    "'m radix_adapter \<Rightarrow> int list \<Rightarrow> int option \<Rightarrow> (int \<times> 'm radix_node list) option" where
  "find_matching_nodes a prompt max_tokens =
     match_from (ra_nodes a) prompt
       (case max_tokens of None \<Rightarrow> int (length prompt) | Some m \<Rightarrow> m) 0 0"

section \<open>Invariant and specification\<close>

text \<open>Every node is filed under its own hash, which is that of its tokens under its parent, and is not empty.\<close>

definition node_ok :: "(bytes \<Rightarrow> bytes) \<Rightarrow> 'm radix_node \<Rightarrow> bool" where
  "node_ok H d \<longleftrightarrow> rn_num_tokens d = int (length (rn_token_ids d)) \<and> rn_token_ids d \<noteq> [] \<and>
     compute_node_hash H (rn_token_ids d) (rn_parent_hash d) = Inr (rn_node_hash d)"

definition nodes_ok :: "(bytes \<Rightarrow> bytes) \<Rightarrow> 'm radix_adapter \<Rightarrow> bool" where
  "nodes_ok H a \<longleftrightarrow> distinct (map fst (ra_nodes a)) \<and>
     (\<forall>(h, d) \<in> set (ra_nodes a). h = rn_node_hash d \<and> node_ok H d)"

text \<open>Each node is the child of the one before it, the first the child of \<open>p\<close>.\<close>

fun linked :: "int \<Rightarrow> 'm radix_node list \<Rightarrow> bool" where
  "linked p [] = True"
| "linked p (d # ds) \<longleftrightarrow> rn_parent_hash d = p \<and> linked (rn_node_hash d) ds"

fun last_hash :: "int \<Rightarrow> 'm radix_node list \<Rightarrow> int" where
  "last_hash p [] = p"
| "last_hash p (d # ds) = last_hash (rn_node_hash d) ds"

lemma nodes_ok_new: "nodes_ok H KacheDBRadixAdapter"
  by (simp add: nodes_ok_def KacheDBRadixAdapter_def)

lemma register_node_ok:
  assumes "nodes_ok H a" "token_ids \<noteq> []" "register_node H i token_ids p offs meta a = (Inr d, a')"
  shows "nodes_ok H a' \<and> node_ok H d \<and> map_of (ra_nodes a') (rn_node_hash d) = Some d \<and>
    rn_token_ids d = token_ids \<and> rn_parent_hash d = p \<and> rn_layer_offsets d = offs"
proof -
  obtain h where h: "compute_node_hash H token_ids p = Inr h"
    and d: "d = \<lparr>rn_node_id = i, rn_parent_hash = p, rn_node_hash = h, rn_token_ids = token_ids,
      rn_num_tokens = int (length token_ids), rn_layer_offsets = offs, rn_metadata = meta\<rparr>"
    and a': "a' = a\<lparr>ra_nodes := AList.update h d (ra_nodes a)\<rparr>"
    using assms(3) by (auto simp: register_node_def bindE_run Let_def split: sum.splits)
  have ok: "node_ok H d" using h d assms(2) by (simp add: node_ok_def)
  moreover have "distinct (map fst (AList.update h d (ra_nodes a)))"
    using assms(1) by (simp add: nodes_ok_def distinct_update)
  moreover have "k = rn_node_hash e \<and> node_ok H e" if "(k, e) \<in> set (AList.update h d (ra_nodes a))" for k e
  proof -
    have "map_of (AList.update h d (ra_nodes a)) k = Some e"
      using that assms(1) by (intro map_of_is_SomeI) (simp_all add: nodes_ok_def distinct_update)
    then have "(k, e) \<in> set (ra_nodes a) \<or> (k, e) = (h, d)"
      by (auto simp: update_conv dest: map_of_SomeD split: if_splits)
    then show ?thesis using assms(1) ok d by (auto simp: nodes_ok_def)
  qed
  ultimately show ?thesis using a' d by (auto simp: nodes_ok_def update_conv)
qed

lemma best_node_Some:
  "best_node nodes prompt cursor parent = Some d \<Longrightarrow> d \<in> snd ` set nodes \<and> extends prompt cursor parent d"
  by (auto simp: best_node_def find_Some_iff)

lemma best_node_None:
  "best_node nodes prompt cursor parent = None \<longleftrightarrow> (\<forall>d \<in> snd ` set nodes. \<not> extends prompt cursor parent d)"
  by (auto simp: best_node_def find_None_iff)

lemma match_from_spec:
  assumes "\<forall>d \<in> snd ` set nodes. node_ok H d" and "0 \<le> cursor" and "cursor \<le> int (length prompt)"
  shows "\<exists>n ds. match_from nodes prompt limit cursor parent = Some (n, ds) \<and>
    n = int (length (concat (map rn_token_ids ds))) \<and> cursor + n \<le> int (length prompt) \<and>
    concat (map rn_token_ids ds) = take (nat n) (drop (nat cursor) prompt) \<and>
    linked parent ds \<and> set ds \<subseteq> snd ` set nodes \<and>
    (cursor + n < limit \<longrightarrow> (\<forall>d \<in> snd ` set nodes. \<not> extends prompt (cursor + n) (last_hash parent ds) d))"
  using assms(2,3)
proof (induction "nat (int (length prompt) - cursor)" arbitrary: cursor parent rule: less_induct)
  case less
  show ?case
  proof (cases "cursor < limit \<and> best_node nodes prompt cursor parent \<noteq> None")
    case False
    then have "match_from nodes prompt limit cursor parent = Some (0, [])"
      by (subst match_from.simps) auto
    then show ?thesis using False less.prems by (auto simp: best_node_None)
  next
    case True
    then obtain d where d: "best_node nodes prompt cursor parent = Some d" by blast
    then have mem: "d \<in> snd ` set nodes" and ext: "extends prompt cursor parent d"
      using best_node_Some by blast+
    then have num: "rn_num_tokens d = int (length (rn_token_ids d))" "rn_token_ids d \<noteq> []"
      using assms(1) by (auto simp: node_ok_def)
    let ?l = "length (rn_token_ids d)"
    have room: "cursor + int ?l \<le> int (length prompt)" using ext num by (simp add: extends_def)
    have toks: "rn_token_ids d = take ?l (drop (nat cursor) prompt)"
      using ext num room less.prems slice_inside [of cursor "cursor + int ?l" prompt] by (auto simp: extends_def)
    have nonneg: "0 \<le> cursor + int ?l" using less.prems(1) by simp
    have dec: "nat (int (length prompt) - (cursor + int ?l)) < nat (int (length prompt) - cursor)"
    proof -
      have "0 < ?l" using num(2) by simp
      then show ?thesis using room by linarith
    qed
    obtain n ds where r: "match_from nodes prompt limit (cursor + int ?l) (rn_node_hash d) = Some (n, ds)"
      "n = int (length (concat (map rn_token_ids ds)))" "cursor + int ?l + n \<le> int (length prompt)"
      "concat (map rn_token_ids ds) = take (nat n) (drop (nat (cursor + int ?l)) prompt)"
      "linked (rn_node_hash d) ds" "set ds \<subseteq> snd ` set nodes"
      "cursor + int ?l + n < limit \<longrightarrow>
        (\<forall>e \<in> snd ` set nodes. \<not> extends prompt (cursor + int ?l + n) (last_hash (rn_node_hash d) ds) e)"
      using less.hyps [OF dec nonneg room, of "rn_node_hash d"] by (elim exE conjE) (rule that; assumption)
    have "match_from nodes prompt limit cursor parent = Some (int ?l + n, d # ds)"
      using True d r(1) num(1) by (subst match_from.simps) simp
    moreover have "rn_token_ids d @ concat (map rn_token_ids ds) = take (nat (int ?l + n)) (drop (nat cursor) prompt)"
    proof -
      have "take (nat (int ?l + n)) (drop (nat cursor) prompt) =
          take ?l (drop (nat cursor) prompt) @ take (nat n) (drop ?l (drop (nat cursor) prompt))"
        using r(2) by (simp add: nat_add_distrib take_add)
      also have "drop ?l (drop (nat cursor) prompt) = drop (nat (cursor + int ?l)) prompt"
        using less.prems by (simp add: nat_add_distrib add.commute)
      finally show ?thesis using toks r(4) by simp
    qed
    moreover have "rn_parent_hash d = parent" using ext by (simp add: extends_def)
    ultimately show ?thesis
    proof (intro exI conjI)
      show "match_from nodes prompt limit cursor parent = Some (int ?l + n, d # ds)" by fact
      show "int ?l + n = int (length (concat (map rn_token_ids (d # ds))))" using r(2) by simp
      show "cursor + (int ?l + n) \<le> int (length prompt)" using r(3) by simp
      show "set (d # ds) \<subseteq> snd ` set nodes" using mem r(6) by simp
      show "cursor + (int ?l + n) < limit \<longrightarrow> (\<forall>e \<in> snd ` set nodes.
          \<not> extends prompt (cursor + (int ?l + n)) (last_hash parent (d # ds)) e)"
        using r(7) by (simp add: add.assoc)
    qed (use r(5) in simp_all)
  qed
qed

lemma matched_nodes_of:
  assumes "nodes_ok H a"
  obtains n ds where "find_matching_nodes a prompt max_tokens = Some (n, ds)"
    and "n = int (length (concat (map rn_token_ids ds)))" and "n \<le> int (length prompt)"
    and "concat (map rn_token_ids ds) = take (nat n) prompt" and "linked 0 ds" and "set ds \<subseteq> snd ` set (ra_nodes a)"
    and "n < (case max_tokens of None \<Rightarrow> int (length prompt) | Some m \<Rightarrow> m) \<longrightarrow>
      (\<forall>d \<in> snd ` set (ra_nodes a). \<not> extends prompt n (last_hash 0 ds) d)"
proof -
  have ok: "\<forall>d \<in> snd ` set (ra_nodes a). node_ok H d" using assms by (auto simp: nodes_ok_def)
  show thesis
    using match_from_spec [OF ok order.refl of_nat_0_le_iff, where prompt = prompt and parent = 0 and
        limit = "case max_tokens of None \<Rightarrow> int (length prompt) | Some m \<Rightarrow> m"]
    unfolding find_matching_nodes_def [symmetric] add_0 nat_0 drop_0
    by (elim exE conjE) (rule that; assumption)
qed

section \<open>Theorems about the radix adapter\<close>

text \<open>C21: When every registered node is non-empty, the walk ends for every prompt and every limit. The nodes it
  returns form a path from the root, their tokens are exactly a prefix of the prompt, whose length is the count,
  and below the limit no registered node continues the path.\<close>

theorem matching_nodes_spell_prefix:
  assumes "nodes_ok H a"
  shows "\<exists>n ds. find_matching_nodes a prompt max_tokens = Some (n, ds) \<and>
    0 \<le> n \<and> n \<le> int (length prompt) \<and> concat (map rn_token_ids ds) = take (nat n) prompt \<and>
    linked 0 ds \<and> (\<forall>d \<in> set ds. map_of (ra_nodes a) (rn_node_hash d) = Some d) \<and>
    (n < (case max_tokens of None \<Rightarrow> int (length prompt) | Some m \<Rightarrow> m) \<longrightarrow>
      (\<forall>(h, d) \<in> set (ra_nodes a). \<not> extends prompt n (last_hash 0 ds) d))"
proof -
  obtain n ds where r: "find_matching_nodes a prompt max_tokens = Some (n, ds)"
    "n = int (length (concat (map rn_token_ids ds)))" "n \<le> int (length prompt)"
    "concat (map rn_token_ids ds) = take (nat n) prompt" "linked 0 ds" "set ds \<subseteq> snd ` set (ra_nodes a)"
    "n < (case max_tokens of None \<Rightarrow> int (length prompt) | Some m \<Rightarrow> m) \<longrightarrow>
      (\<forall>d \<in> snd ` set (ra_nodes a). \<not> extends prompt n (last_hash 0 ds) d)"
    using matched_nodes_of [OF assms] by metis
  have filed: "map_of (ra_nodes a) (rn_node_hash d) = Some d" if d: "d \<in> set ds" for d
  proof -
    obtain h where "(h, d) \<in> set (ra_nodes a)" using r(6) d by auto
    then show ?thesis using assms by (intro map_of_is_SomeI) (auto simp: nodes_ok_def)
  qed
  show ?thesis
  proof (intro exI conjI)
    show "0 \<le> n" using r(2) by simp
    show "\<forall>d \<in> set ds. map_of (ra_nodes a) (rn_node_hash d) = Some d" using filed by blast
    show "n < (case max_tokens of None \<Rightarrow> int (length prompt) | Some m \<Rightarrow> m) \<longrightarrow>
        (\<forall>(h, d) \<in> set (ra_nodes a). \<not> extends prompt n (last_hash 0 ds) d)"
      using r(7) by force
  qed (rule r)+
qed

definition sample_nodes :: "unit radix_adapter" where
  "sample_nodes = snd (register_node low_bytes 1 [5, 6] 0 [0] None KacheDBRadixAdapter)"

lemma sample_nodes_ok: "nodes_ok low_bytes sample_nodes"
proof -
  obtain d :: "unit radix_node" where "register_node low_bytes 1 [5, 6] 0 [0] None KacheDBRadixAdapter = (Inr d, sample_nodes)"
  proof -
    have "compute_node_hash low_bytes [5, 6] 0 = Inr 2" by code_simp
    then show thesis using that by (simp add: sample_nodes_def register_node_def bindE_run Let_def)
  qed
  then show ?thesis using register_node_ok [OF nodes_ok_new] by fastforce
qed

lemma matching_nodes_spell_prefix_witness:
  "\<exists>n ds. find_matching_nodes sample_nodes [5, 6, 7] None = Some (n, ds) \<and>
     concat (map rn_token_ids ds) = take (nat n) [5, 6, 7] \<and> linked 0 ds"
  using matching_nodes_spell_prefix [OF sample_nodes_ok, of "[5, 6, 7]" None] by blast

end
