(* ===== verification/Sglang.thy ===== *)
theory Sglang
  imports Layers Radix
begin

text \<open>
  \<open>sglang/connector.py\<close>: radix-tree nodes are written to the ring buffer, one block per layer, and a prompt's
  matching nodes are copied into the target buffers. Logging is left out. Target buffers are distinct tensors.
\<close>

section \<open>The connector\<close>

record 'm sglang =
  sg_rank :: int
  sg_local_rank :: int
  sg_host :: ustr
  sg_port :: int
  sg_pool_size_mb :: int
  sg_radix :: "'m radix_adapter"
  sg_memory :: memory_manager

definition KacheDBSGLangConnector :: "int \<Rightarrow> int \<Rightarrow> int \<Rightarrow> ustr \<Rightarrow> int \<Rightarrow> exc + 'm sglang" where
  "KacheDBSGLangConnector rank local_rank pool_size_mb host port =
     map_sumE (\<lambda>memory. \<lparr>sg_rank = rank, sg_local_rank = local_rank, sg_host = host, sg_port = port,
         sg_pool_size_mb = pool_size_mb, sg_radix = KacheDBRadixAdapter, sg_memory = memory\<rparr>)
       (KacheDBMemoryManager local_rank pool_size_mb)"

text \<open>The key and value of layer \<open>l\<close>.\<close>

definition layer_pair :: "'d tensor list \<Rightarrow> 'd tensor list \<Rightarrow> nat \<Rightarrow> exc + 'd tensor \<times> 'd tensor" where
  "layer_pair k_tensors v_tensors l =
     (case list_item k_tensors l of Inl e \<Rightarrow> Inl e | Inr k \<Rightarrow> map_sumE (Pair k) (list_item v_tensors l))"

definition offload_node :: "'d torch \<Rightarrow> (bytes \<Rightarrow> bytes) \<Rightarrow> int \<Rightarrow> int list \<Rightarrow> 'd tensor list \<Rightarrow> 'd tensor list \<Rightarrow>
    int \<Rightarrow> 'm option \<Rightarrow> ('m sglang, exc, 'm radix_node) py" where
  "offload_node T H node_id token_ids k_tensors v_tensors parent_hash metadata =
     bindE (liftE (compute_node_hash H token_ids parent_hash)) (\<lambda>node_hash.
     bindE (zoom sg_memory sg_memory_update
       (write_layers T (layer_pair k_tensors v_tensors) node_hash node_id 0 (length k_tensors))) (\<lambda>layer_offsets.
     zoom sg_radix sg_radix_update (register_node H node_id token_ids parent_hash layer_offsets metadata)))"

text \<open>The buffers that a restore fills.\<close>

record 'd targets =
  tg_k :: "'d tensor list"
  tg_v :: "'d tensor list"

type_synonym ('d, 'a) restore = "('d targets, exc, 'a) py"

definition restore_layer ::
    "'d torch \<Rightarrow> memory_manager \<Rightarrow> 'm radix_node \<Rightarrow> nat \<Rightarrow> nat \<Rightarrow> ('d, unit) restore" where
  "restore_layer T memory d token_offset l =
     (if l \<ge> length (rn_layer_offsets d) then ret ()
      else
        let n_tokens = nat (rn_num_tokens d) in
        bindE (getsE tg_k) (\<lambda>ks. bindE (liftE (list_item ks l)) (\<lambda>target_k.
        bindE (getsE tg_v) (\<lambda>vs. bindE (liftE (list_item vs l)) (\<lambda>target_v.
        bindE (liftE (dim target_k 0)) (\<lambda>heads. bindE (liftE (dim target_k 2)) (\<lambda>head_dim.
        bindE (liftE (fst (read_paged_block T (rn_layer_offsets d ! l) [heads, n_tokens, head_dim]
          (t_device T target_k) (Some (t_dtype target_k)) memory))) (\<lambda>(k_block, v_block).
        bindE (liftE (t_slice_put T token_offset (token_offset + n_tokens) k_block target_k)) (\<lambda>k'.
        bindE (modifyE (\<lambda>s. s\<lparr>tg_k := (tg_k s)[l := k']\<rparr>)) (\<lambda>_.
        bindE (liftE (t_slice_put T token_offset (token_offset + n_tokens) v_block target_v)) (\<lambda>v'.
        modifyE (\<lambda>s. s\<lparr>tg_v := (tg_v s)[l := v']\<rparr>))))))))))))"

primrec restore_nodes ::
    "'d torch \<Rightarrow> memory_manager \<Rightarrow> nat \<Rightarrow> nat \<Rightarrow> 'm radix_node list \<Rightarrow> ('d, unit) restore" where
  "restore_nodes T memory num_layers token_offset [] = ret ()"
| "restore_nodes T memory num_layers token_offset (d # ds) =
     bindE (for_range 0 num_layers (restore_layer T memory d token_offset)) (\<lambda>_.
     restore_nodes T memory num_layers (token_offset + nat (rn_num_tokens d)) ds)"

text \<open>\<open>None\<close> when the walk over the nodes does not end.\<close>

definition restore_prefix :: "'d torch \<Rightarrow> 'm sglang \<Rightarrow> int list \<Rightarrow> ('d, int \<times> bool) restore option" where
  "restore_prefix T sg prompt_tokens =
     map_option (\<lambda>(matched_tokens, matched_nodes).
       if matched_tokens = 0 \<or> matched_nodes = [] then ret (0, False)
       else bindE (getsE (\<lambda>s. length (tg_k s))) (\<lambda>num_layers.
            bindE (restore_nodes T (sg_memory sg) num_layers 0 matched_nodes) (\<lambda>_. ret (matched_tokens, True))))
     (find_matching_nodes (sg_radix sg) prompt_tokens None)"

section \<open>What is stored\<close>

text \<open>\<open>kv\<close> says which tensors were offloaded under each node hash: their blocks are where the node says, below
  the write head.\<close>

definition stored ::
    "'d torch \<Rightarrow> (int \<Rightarrow> 'd tensor list \<times> 'd tensor list) \<Rightarrow> 'm sglang \<Rightarrow> bool" where
  "stored T kv sg \<longleftrightarrow> ring_ok (sg_memory sg) \<and> (\<forall>(h, d) \<in> set (ra_nodes (sg_radix sg)).
     length (fst (kv h)) = length (rn_layer_offsets d) \<and> length (snd (kv h)) = length (rn_layer_offsets d) \<and>
     (\<forall>l < length (rn_layer_offsets d).
       stored_layer T (sg_memory sg) h (fst (kv h)) (snd (kv h)) (rn_layer_offsets d) l))"

lemma offload_stores:
  assumes T: "documented T" and nodes: "nodes_ok H (sg_radix sg)" and st: "stored T kv sg"
    and h: "compute_node_hash H token_ids parent = Inr h" and "token_ids \<noteq> []"
    and len: "length vs = length ks" and pairs: "\<And>l. l < length ks \<Longrightarrow> kv_pair T (ks ! l) (vs ! l)"
    and fits: "mm_write_head (sg_memory sg) + layers_size ks vs 0 (length ks) \<le> mm_pool_size_bytes (sg_memory sg)"
  obtains d sg' where "offload_node T H node_id token_ids ks vs parent meta sg = (Inr d, sg')"
    and "nodes_ok H (sg_radix sg')" and "stored T (kv(h := (ks, vs))) sg'"
    and "map_of (ra_nodes (sg_radix sg')) h = Some d" and "rn_token_ids d = token_ids" "rn_parent_hash d = parent"
    and "\<And>k. k \<noteq> h \<Longrightarrow> map_of (ra_nodes (sg_radix sg')) k = map_of (ra_nodes (sg_radix sg)) k"
proof -
  have ring: "ring_ok (sg_memory sg)" using st by (simp add: stored_def)
  have pick: "layer_pair ks vs i = Inr (ks ! i, vs ! i)" if "i < length ks" for i
    using that len by (simp add: layer_pair_def)
  obtain offs m' where off: "write_layers T (layer_pair ks vs) h node_id 0 (length ks) (sg_memory sg) = (Inr offs, m')"
    and m': "ring_ok m'" "length offs = length ks" "length (mm_buf m') = length (mm_buf (sg_memory sg))"
      "mm_write_head (sg_memory sg) \<le> mm_write_head m'"
    and frame: "\<And>a k. a + k \<le> mm_write_head (sg_memory sg) \<Longrightarrow>
      take k (drop a (mm_buf m')) = take k (drop a (mm_buf (sg_memory sg)))"
    and blocks: "\<And>i. i < length ks \<Longrightarrow> \<exists>off. offs ! i = int off \<and> block_at T m' off (ks ! i) (vs ! i) (int i) h \<and>
      off + slot_size (ks ! i) (vs ! i) \<le> mm_write_head m'"
    using write_layers_run [OF T, of 0 "length ks" "layer_pair ks vs" ks vs "sg_memory sg" h node_id]
      pick pairs ring fits by auto
  obtain d a' where reg: "register_node H node_id token_ids parent offs meta (sg_radix sg) = (Inr d, a')"
    using h by (auto simp: register_node_def bindE_run Let_def)
  note ok = register_node_ok [OF nodes \<open>token_ids \<noteq> []\<close> reg]
  have dh: "rn_node_hash d = h" using reg h by (auto simp: register_node_def bindE_run Let_def)
  have a': "a' = sg_radix sg\<lparr>ra_nodes := AList.update h d (ra_nodes (sg_radix sg))\<rparr>"
    using reg h by (auto simp: register_node_def bindE_run Let_def)
  let ?sg = "sg\<lparr>sg_memory := m', sg_radix := a'\<rparr>"
  have run: "offload_node T H node_id token_ids ks vs parent meta sg = (Inr d, ?sg)"
    using h off reg by (simp add: offload_node_def bindE_run)
  have "stored T (kv(h := (ks, vs))) ?sg"
    unfolding stored_def
  proof (intro conjI ballI, simp add: m', clarify)
    fix k e assume mem: "(k, e) \<in> set (ra_nodes (sg_radix ?sg))"
    show "length (fst ((kv(h := (ks, vs))) k)) = length (rn_layer_offsets e) \<and>
        length (snd ((kv(h := (ks, vs))) k)) = length (rn_layer_offsets e) \<and>
        (\<forall>l < length (rn_layer_offsets e). stored_layer T (sg_memory ?sg) k (fst ((kv(h := (ks, vs))) k))
          (snd ((kv(h := (ks, vs))) k)) (rn_layer_offsets e) l)"
    proof (cases "k = h")
      case True
      then have "map_of (ra_nodes a') k = Some e"
        using mem ok by (intro map_of_is_SomeI) (auto simp: nodes_ok_def)
      then have "e = d" using True dh ok by simp
      then show ?thesis using True ok m'(2) len blocks pairs by (auto simp: stored_layer_def)
    next
      case False
      have "(k, e) \<in> set (ra_nodes (sg_radix sg))"
      proof -
        have "map_of (ra_nodes a') k = Some e"
          using mem ok by (intro map_of_is_SomeI) (auto simp: nodes_ok_def)
        then show ?thesis using False a' by (auto simp: update_conv dest: map_of_SomeD)
      qed
      then show ?thesis
        using st False stored_layer_mono [OF _ m'(3,4) frame] by (fastforce simp: stored_def)
    qed
  qed
  then show thesis using that [OF run] ok dh a' by (simp add: update_conv)
qed

section \<open>What is restored\<close>

text \<open>Targets of given shapes: \<open>heads\<close>, positions and head dimension per layer, and the element type.\<close>

definition targets_ok ::
    "'d torch \<Rightarrow> nat \<Rightarrow> (nat \<Rightarrow> nat \<times> nat \<times> nat) \<Rightarrow> (nat \<Rightarrow> 'd) \<Rightarrow> 'd targets \<Rightarrow> bool" where
  "targets_ok T L dims dt tg \<longleftrightarrow> length (tg_k tg) = L \<and> length (tg_v tg) = L \<and>
     (\<forall>l < L. \<forall>t \<in> {tg_k tg ! l, tg_v tg ! l}. tensor_ok T t \<and> t_dtype t = dt l \<and>
       t_shape t = [fst (dims l), fst (snd (dims l)), snd (snd (dims l))])"

text \<open>Positions \<open>a\<close> to \<open>a + n\<close> of layer \<open>l\<close> hold a key and a value.\<close>

definition holds_slice ::
    "'d torch \<Rightarrow> 'd targets \<Rightarrow> nat \<Rightarrow> nat \<Rightarrow> nat \<Rightarrow> 'd tensor \<Rightarrow> 'd tensor \<Rightarrow> bool" where
  "holds_slice T tg l a n k v \<longleftrightarrow>
     t_slice T a (a + n) (tg_k tg ! l) = Inr k \<and> t_slice T a (a + n) (tg_v tg ! l) = Inr v"

text \<open>Before position \<open>a\<close> nothing has changed.\<close>

definition same_before :: "'d torch \<Rightarrow> nat \<Rightarrow> nat \<Rightarrow> 'd targets \<Rightarrow> 'd targets \<Rightarrow> bool" where
  "same_before T L a tg tg' \<longleftrightarrow> (\<forall>l < L. \<forall>b m. b + m \<le> a \<longrightarrow>
     t_slice T b (b + m) (tg_k tg' ! l) = t_slice T b (b + m) (tg_k tg ! l) \<and>
     t_slice T b (b + m) (tg_v tg' ! l) = t_slice T b (b + m) (tg_v tg ! l))"

definition slices_ok :: "'d torch \<Rightarrow> nat \<Rightarrow> (nat \<Rightarrow> nat \<times> nat \<times> nat) \<Rightarrow> bool" where
  "slices_ok T L dims \<longleftrightarrow> (\<forall>l < L. slices_documented T (fst (dims l)) (fst (snd (dims l))) (snd (snd (dims l))))"

text \<open>A node whose layers can be copied to such targets.\<close>

definition node_ready :: "'d torch \<Rightarrow> memory_manager \<Rightarrow> nat \<Rightarrow> (nat \<Rightarrow> nat \<times> nat \<times> nat) \<Rightarrow> (nat \<Rightarrow> 'd) \<Rightarrow>
    (int \<Rightarrow> 'd tensor list \<times> 'd tensor list) \<Rightarrow> 'm radix_node \<Rightarrow> bool" where
  "node_ready T m L dims dt kv d \<longleftrightarrow> length (rn_layer_offsets d) = L \<and>
     (\<forall>l < L. let ks = fst (kv (rn_node_hash d)); vs = snd (kv (rn_node_hash d)) in
       stored_layer T m (rn_node_hash d) ks vs (rn_layer_offsets d) l \<and> t_dtype (ks ! l) = dt l \<and>
       t_shape (ks ! l) = [fst (dims l), nat (rn_num_tokens d), snd (snd (dims l))])"

lemma put_slice:
  assumes "slices_documented T h s e" "tensor_ok T t" "t_shape t = [h, s, e]" "tensor_ok T x"
    and "t_shape x = [h, n, e]" "t_dtype x = t_dtype t" "a + n \<le> s"
  obtains t' where "t_slice_put T a (a + n) x t = Inr t'" "tensor_ok T t'" "t_shape t' = [h, s, e]"
    "t_dtype t' = t_dtype t" "t_slice T a (a + n) t' = Inr x"
    "\<And>b m. b + m \<le> a \<Longrightarrow> t_slice T b (b + m) t' = t_slice T b (b + m) t"
proof -
  obtain t' where t': "t_slice_put T a (a + n) x t = Inr t'" "tensor_ok T t'" "t_shape t' = [h, s, e]"
      "t_dtype t' = t_dtype t" "t_slice T a (a + n) t' = Inr x"
    and beside: "\<forall>b m. b + m \<le> s \<longrightarrow> b + m \<le> a \<or> a + n \<le> b \<longrightarrow> t_slice T b (b + m) t' = t_slice T b (b + m) t"
    using assms(1) [unfolded slices_documented_def, rule_format, OF assms(2-7)] by blast
  have "t_slice T b (b + m) t' = t_slice T b (b + m) t" if "b + m \<le> a" for b m
    using beside that assms(7) by simp
  then show thesis using that [OF t'] by blast
qed

lemma restore_layer_run:
  assumes T: "documented T" and slices: "slices_ok T L dims" and tg: "targets_ok T L dims dt tg" and l: "l < L"
    and ready: "node_ready T m L dims dt kv d" and room: "a + nat (rn_num_tokens d) \<le> fst (snd (dims l))"
  obtains tg' where "restore_layer T m d a l tg = (Inr (), tg')" and "targets_ok T L dims dt tg'"
    and "holds_slice T tg' l a (nat (rn_num_tokens d)) (fst (kv (rn_node_hash d)) ! l) (snd (kv (rn_node_hash d)) ! l)"
    and "same_before T L a tg tg'" and "\<And>i. i \<noteq> l \<Longrightarrow> tg_k tg' ! i = tg_k tg ! i \<and> tg_v tg' ! i = tg_v tg ! i"
proof -
  let ?n = "nat (rn_num_tokens d)"
  let ?k = "fst (kv (rn_node_hash d)) ! l" and ?v = "snd (kv (rn_node_hash d)) ! l"
  let ?h = "fst (dims l)" and ?s = "fst (snd (dims l))" and ?e = "snd (snd (dims l))"
  have sl: "stored_layer T m (rn_node_hash d) (fst (kv (rn_node_hash d))) (snd (kv (rn_node_hash d))) (rn_layer_offsets d) l"
    and k: "t_dtype ?k = dt l" "t_shape ?k = [?h, ?n, ?e]" and offs: "l < length (rn_layer_offsets d)"
    using ready l by (auto simp: node_ready_def Let_def)
  then obtain off where off: "rn_layer_offsets d ! l = int off" "kv_pair T ?k ?v"
      "block_at T m off ?k ?v (int l) (rn_node_hash d)"
    by (auto simp: stored_layer_def)
  then have v: "t_dtype ?v = dt l" "t_shape ?v = [?h, ?n, ?e]" "tensor_ok T ?k" "tensor_ok T ?v"
    using k by (auto simp: kv_pair_def)
  have len: "l < length (tg_k tg)" "l < length (tg_v tg)" using tg l by (auto simp: targets_ok_def)
  have tk: "tensor_ok T (tg_k tg ! l)" "t_shape (tg_k tg ! l) = [?h, ?s, ?e]" "t_dtype (tg_k tg ! l) = dt l"
    and tv: "tensor_ok T (tg_v tg ! l)" "t_shape (tg_v tg ! l) = [?h, ?s, ?e]" "t_dtype (tg_v tg ! l) = dt l"
    using tg l by (auto simp: targets_ok_def)
  have doc: "slices_documented T ?h ?s ?e" using slices l by (simp add: slices_ok_def)
  obtain k' where k': "t_slice_put T a (a + ?n) ?k (tg_k tg ! l) = Inr k'" "tensor_ok T k'" "t_shape k' = [?h, ?s, ?e]"
      "t_dtype k' = dt l" "t_slice T a (a + ?n) k' = Inr ?k"
      "\<And>b m. b + m \<le> a \<Longrightarrow> t_slice T b (b + m) k' = t_slice T b (b + m) (tg_k tg ! l)"
    using put_slice [OF doc tk(1,2) v(3) k(2) _ room] k(1) tk(3) by metis
  obtain v' where v': "t_slice_put T a (a + ?n) ?v (tg_v tg ! l) = Inr v'" "tensor_ok T v'" "t_shape v' = [?h, ?s, ?e]"
      "t_dtype v' = dt l" "t_slice T a (a + ?n) v' = Inr ?v"
      "\<And>b m. b + m \<le> a \<Longrightarrow> t_slice T b (b + m) v' = t_slice T b (b + m) (tg_v tg ! l)"
    using put_slice [OF doc tv(1,2) v(4,2) _ room] v(1) tv(3) by metis
  have rd: "fst (read_paged_block T (int off) [?h, ?n, ?e] (t_device T (tg_k tg ! l)) (Some (dt l)) m) = Inr (?k, ?v)"
    using read_block [OF T off(2,3) device_ok_own [OF T], of "tg_k tg ! l"] k by simp
  let ?tg = "tg\<lparr>tg_k := (tg_k tg)[l := k'], tg_v := (tg_v tg)[l := v']\<rparr>"
  have "restore_layer T m d a l tg = (Inr (), ?tg)"
    using offs len tk(2,3) rd off(1) k'(1) v'(1) by (simp add: restore_layer_def bindE_run dim_def Let_def)
  moreover have "targets_ok T L dims dt ?tg"
    using tg k'(2-4) v'(2-4) len by (auto simp: targets_ok_def nth_list_update)
  moreover have "holds_slice T ?tg l a ?n ?k ?v" using k'(5) v'(5) len by (simp add: holds_slice_def)
  moreover have "same_before T L a tg ?tg"
    using k'(6) v'(6) len by (auto simp: same_before_def nth_list_update)
  ultimately show thesis using that by simp
qed

lemma restore_node_run:
  assumes T: "documented T" and slices: "slices_ok T L dims" and tg: "targets_ok T L dims dt tg"
    and ready: "node_ready T m L dims dt kv d" and room: "\<And>l. l < L \<Longrightarrow> a + nat (rn_num_tokens d) \<le> fst (snd (dims l))"
  obtains tg' where "for_range 0 L (restore_layer T m d a) tg = (Inr (), tg')" and "targets_ok T L dims dt tg'"
    and "\<And>l. l < L \<Longrightarrow> holds_slice T tg' l a (nat (rn_num_tokens d)) (fst (kv (rn_node_hash d)) ! l) (snd (kv (rn_node_hash d)) ! l)"
    and "same_before T L a tg tg'"
proof -
  let ?I = "\<lambda>j s. targets_ok T L dims dt s \<and> same_before T L a tg s \<and> (\<forall>l < j. holds_slice T s l a
    (nat (rn_num_tokens d)) (fst (kv (rn_node_hash d)) ! l) (snd (kv (rn_node_hash d)) ! l))"
  have "\<exists>s'. for_range 0 L (restore_layer T m d a) tg = (Inr (), s') \<and> ?I (0 + L) s'"
  proof (rule for_range_run)
    fix l s assume l: "l < 0 + L" and I: "?I l s"
    have "l < L" using l by simp
    obtain s' where s': "restore_layer T m d a l s = (Inr (), s')" "targets_ok T L dims dt s'"
        "holds_slice T s' l a (nat (rn_num_tokens d)) (fst (kv (rn_node_hash d)) ! l) (snd (kv (rn_node_hash d)) ! l)"
        "same_before T L a s s'" "\<And>i. i \<noteq> l \<Longrightarrow> tg_k s' ! i = tg_k s ! i \<and> tg_v s' ! i = tg_v s ! i"
      using restore_layer_run [OF T slices conjunct1 [OF I] \<open>l < L\<close> ready room [OF \<open>l < L\<close>]] by metis
    have "same_before T L a tg s'" using I s'(4) by (simp add: same_before_def)
    moreover have "\<forall>i < Suc l. holds_slice T s' i a (nat (rn_num_tokens d)) (fst (kv (rn_node_hash d)) ! i)
        (snd (kv (rn_node_hash d)) ! i)"
      using I s'(3,5) by (auto simp: less_Suc_eq holds_slice_def)
    ultimately show "\<exists>s'. restore_layer T m d a l s = (Inr (), s') \<and> ?I (Suc l) s'" using s' by blast
  next
    show "?I 0 tg" using tg by (simp add: same_before_def)
  qed
  then show thesis using that by auto
qed

text \<open>Where the \<open>i\<close>-th node begins.\<close>

definition node_start :: "'m radix_node list \<Rightarrow> nat \<Rightarrow> nat" where
  "node_start ds i = (\<Sum>d \<leftarrow> take i ds. nat (rn_num_tokens d))"

lemma restore_nodes_run:
  assumes T: "documented T" and slices: "slices_ok T L dims" and "targets_ok T L dims dt tg"
    and "\<And>d. d \<in> set ds \<Longrightarrow> node_ready T m L dims dt kv d"
    and "\<And>l. l < L \<Longrightarrow> a + node_start ds (length ds) \<le> fst (snd (dims l))"
  shows "\<exists>tg'. restore_nodes T m L a ds tg = (Inr (), tg') \<and> targets_ok T L dims dt tg' \<and> same_before T L a tg tg' \<and>
    (\<forall>i < length ds. \<forall>l < L. holds_slice T tg' l (a + node_start ds i) (nat (rn_num_tokens (ds ! i)))
      (fst (kv (rn_node_hash (ds ! i))) ! l) (snd (kv (rn_node_hash (ds ! i))) ! l))"
  using assms(3-5)
proof (induction ds arbitrary: a tg)
  case Nil
  then show ?case by (simp add: same_before_def)
next
  case (Cons d ds)
  let ?n = "nat (rn_num_tokens d)"
  have start: "node_start (d # ds) (Suc i) = ?n + node_start ds i" for i by (simp add: node_start_def)
  have room: "a + ?n + node_start ds (length ds) \<le> fst (snd (dims l))" if "l < L" for l
    using Cons.prems(3) [OF that] start [of "length ds"] by simp
  obtain tg1 where tg1: "for_range 0 L (restore_layer T m d a) tg = (Inr (), tg1)" "targets_ok T L dims dt tg1"
      "\<And>l. l < L \<Longrightarrow> holds_slice T tg1 l a ?n (fst (kv (rn_node_hash d)) ! l) (snd (kv (rn_node_hash d)) ! l)"
      "same_before T L a tg tg1"
    using restore_node_run [OF T slices Cons.prems(1), of m kv d a] Cons.prems(2) room by (metis add_leD1 list.set_intros(1))
  obtain tg2 where tg2: "restore_nodes T m L (a + ?n) ds tg1 = (Inr (), tg2)" "targets_ok T L dims dt tg2"
      "same_before T L (a + ?n) tg1 tg2"
      "\<forall>i < length ds. \<forall>l < L. holds_slice T tg2 l (a + ?n + node_start ds i) (nat (rn_num_tokens (ds ! i)))
        (fst (kv (rn_node_hash (ds ! i))) ! l) (snd (kv (rn_node_hash (ds ! i))) ! l)"
    using Cons.IH [OF tg1(2), of "a + ?n"] Cons.prems(2) room by auto
  have "same_before T L a tg tg2" using tg1(4) tg2(3) by (simp add: same_before_def)
  moreover have "holds_slice T tg2 l (a + node_start (d # ds) i) (nat (rn_num_tokens ((d # ds) ! i)))
      (fst (kv (rn_node_hash ((d # ds) ! i))) ! l) (snd (kv (rn_node_hash ((d # ds) ! i))) ! l)"
    if "i < length (d # ds)" "l < L" for i l
  proof (cases i)
    case 0
    then show ?thesis
      using tg1(3) [OF that(2)] tg2(3) that(2) by (simp add: holds_slice_def same_before_def node_start_def)
  next
    case (Suc j)
    then show ?thesis using tg2(4) that by (simp add: start add.assoc)
  qed
  ultimately show ?case using tg1(1) tg2(1,2) by (simp add: bindE_run)
qed

section \<open>Theorems about the SGLang connector\<close>

text \<open>C19: As long as the layers of a node with tokens fit behind the write head, offloading it stores their blocks and
  registers the node under its hash. Every node registered before under another hash stays registered
  unchanged, with the tensors that were offloaded for it still in all its blocks.\<close>

theorem offload_keeps_stored_nodes:
  assumes "documented T" and "nodes_ok H (sg_radix sg)" and "stored T kv sg"
    and "compute_node_hash H token_ids parent = Inr h" and "token_ids \<noteq> []"
    and "length vs = length ks" and "\<forall>l < length ks. kv_pair T (ks ! l) (vs ! l)"
    and "mm_write_head (sg_memory sg) + layers_size ks vs 0 (length ks) \<le> mm_pool_size_bytes (sg_memory sg)"
  shows "\<exists>d sg'. offload_node T H node_id token_ids ks vs parent meta sg = (Inr d, sg') \<and>
    nodes_ok H (sg_radix sg') \<and> stored T (kv(h := (ks, vs))) sg' \<and>
    map_of (ra_nodes (sg_radix sg')) h = Some d \<and> rn_token_ids d = token_ids \<and> rn_parent_hash d = parent \<and>
    (\<forall>h'. h' \<noteq> h \<longrightarrow> map_of (ra_nodes (sg_radix sg')) h' = map_of (ra_nodes (sg_radix sg)) h')"
  using offload_stores [OF assms(1-6) assms(7) [rule_format] assms(8)] by metis

text \<open>C17: When every registered node is still stored in as many layers as the targets have, with the targets'
  element type, heads and head dimension, and the targets have a position for every token of the prompt, a
  restore ends and copies, for each node on the matched path and each layer, exactly the key and value offloaded
  under that node's hash to the positions of its tokens; it reports the number of matched tokens, and a hit when
  there are any.\<close>

theorem restore_copies_offloaded_tensors:
  assumes "documented T" and "nodes_ok H (sg_radix sg)" and "slices_ok T L dims" and "targets_ok T L dims dt tg"
    and "\<forall>(h, d) \<in> set (ra_nodes (sg_radix sg)). node_ready T (sg_memory sg) L dims dt kv d"
    and "\<forall>l < L. length prompt \<le> fst (snd (dims l))"
  shows "\<exists>n ds restore tg'. find_matching_nodes (sg_radix sg) prompt None = Some (n, ds) \<and>
    restore_prefix T sg prompt = Some restore \<and> restore tg = (Inr (n, ds \<noteq> []), tg') \<and>
    (\<forall>i < length ds. \<forall>l < L. holds_slice T tg' l (node_start ds i) (length (rn_token_ids (ds ! i)))
      (fst (kv (rn_node_hash (ds ! i))) ! l) (snd (kv (rn_node_hash (ds ! i))) ! l))"
proof -
  obtain n ds where find: "find_matching_nodes (sg_radix sg) prompt None = Some (n, ds)"
    and n: "n = int (length (concat (map rn_token_ids ds)))" "n \<le> int (length prompt)"
    and mem: "set ds \<subseteq> snd ` set (ra_nodes (sg_radix sg))"
    using matched_nodes_of [OF assms(2)] by metis
  have num: "rn_num_tokens d = int (length (rn_token_ids d))" "rn_token_ids d \<noteq> []" if "d \<in> set ds" for d
    using assms(2) mem that by (force simp: nodes_ok_def node_ok_def)+
  have "node_start ds (length ds) = length (concat (map rn_token_ids ds))"
    using num by (simp add: node_start_def length_concat comp_def cong: map_cong)
  then have room: "0 + node_start ds (length ds) \<le> fst (snd (dims l))" if "l < L" for l
    using assms(6) that n by force
  have L: "length (tg_k tg) = L" using assms(4) by (simp add: targets_ok_def)
  obtain tg' where tg': "restore_nodes T (sg_memory sg) L 0 ds tg = (Inr (), tg')"
    "\<forall>i < length ds. \<forall>l < L. holds_slice T tg' l (0 + node_start ds i) (nat (rn_num_tokens (ds ! i)))
      (fst (kv (rn_node_hash (ds ! i))) ! l) (snd (kv (rn_node_hash (ds ! i))) ! l)"
    using restore_nodes_run [OF assms(1,3,4), of ds "sg_memory sg" kv 0] room assms(5) mem by fastforce
  have holds: "\<forall>i < length ds. \<forall>l < L. holds_slice T tg' l (node_start ds i) (length (rn_token_ids (ds ! i)))
      (fst (kv (rn_node_hash (ds ! i))) ! l) (snd (kv (rn_node_hash (ds ! i))) ! l)"
    using tg'(2) num by simp
  have "n = 0 \<longleftrightarrow> concat (map rn_token_ids ds) = []" using n(1) by simp
  also have "\<dots> \<longleftrightarrow> ds = []" using num(2) by (cases ds) auto
  finally have n0: "n = 0 \<longleftrightarrow> ds = []" .
  show ?thesis
  proof (cases "ds = []")
    case True
    then show ?thesis using find n0 by (intro exI [of _ n] exI [of _ ds]) (simp add: restore_prefix_def)
  next
    case False
    then show ?thesis using find n0 tg'(1) holds L
      by (intro exI [of _ n] exI [of _ ds]) (simp add: restore_prefix_def bindE_run)
  qed
qed

text \<open>C40: When a layer does not fit behind the write head, it is written over the start of the ring, and the node
  whose block was there stays registered: reading at its offset returns the new node's key and value. Stated for
  nodes of one layer, the old one stored at offset 0.\<close>

theorem wrapped_offload_serves_other_tensors:
  assumes "documented T" and "ring_ok (sg_memory sg)" and "kv_pair T k v"
    and "slot_size k v \<le> mm_pool_size_bytes (sg_memory sg)"
    and "mm_pool_size_bytes (sg_memory sg) < mm_write_head (sg_memory sg) + slot_size k v"
    and "map_of (ra_nodes (sg_radix sg)) h = Some d" and "rn_layer_offsets d = [0]"
    and "compute_node_hash H token_ids parent = Inr h'" and "h' \<noteq> h" and "device_ok T device"
  shows "\<exists>d' sg'. offload_node T H node_id token_ids [k] [v] parent meta sg = (Inr d', sg') \<and>
    map_of (ra_nodes (sg_radix sg')) h = Some d \<and>
    fst (read_paged_block T (rn_layer_offsets d ! 0) (t_shape k) device (Some (t_dtype k)) (sg_memory sg')) = Inr (k, v)"
proof -
  have slot: "slot (sg_memory sg) (slot_size k v) = 0" using assms(5) by (simp add: slot_def)
  obtain m' where w: "write_paged_block T k v 0 h' node_id (sg_memory sg) = (Inr (0, slot_size k v, block_header T k v 0 h'), m')"
    and at: "block_at T m' 0 k v 0 h'"
    using write_block_at [OF assms(1,3,2,4), where l = 0 and h = h' and b = node_id] unfolding slot by metis
  obtain d' where reg: "register_node H node_id token_ids parent [0] meta (sg_radix sg) =
      (Inr d', sg_radix sg\<lparr>ra_nodes := AList.update h' d' (ra_nodes (sg_radix sg))\<rparr>)"
    using assms(8) by (auto simp: register_node_def bindE_run Let_def)
  have "offload_node T H node_id token_ids [k] [v] parent meta sg = (Inr d', sg\<lparr>sg_memory := m',
      sg_radix := sg_radix sg\<lparr>ra_nodes := AList.update h' d' (ra_nodes (sg_radix sg))\<rparr>\<rparr>)"
    using w reg assms(8) by (simp add: offload_node_def bindE_run layer_pair_def)
  moreover have "map_of (AList.update h' d' (ra_nodes (sg_radix sg))) h = Some d"
    using assms(6,9) by (simp add: update_conv)
  ultimately show ?thesis
    using read_block [OF assms(1,3) at assms(10)] assms(7) by simp
qed

definition small_sglang :: "nat \<Rightarrow> unit sglang" where
  "small_sglang n = \<lparr>sg_rank = 0, sg_local_rank = 0, sg_host = u ''127.0.0.1'', sg_port = 6379, sg_pool_size_mb = 0,
     sg_radix = KacheDBRadixAdapter, sg_memory = small_manager n\<rparr>"

lemma small_sglang_stored: "stored flat_torch kv (small_sglang n)"
  by (simp add: stored_def small_sglang_def small_ring KacheDBRadixAdapter_def)

text \<open>A connector with one node of two tokens.\<close>

definition one_node :: "unit radix_node" where
  "one_node = \<lparr>rn_node_id = 1, rn_parent_hash = 0, rn_node_hash = 2, rn_token_ids = [5, 6], rn_num_tokens = 2,
     rn_layer_offsets = [0], rn_metadata = None\<rparr>"

definition one_node_sglang :: "nat \<Rightarrow> unit sglang" where
  "one_node_sglang n = (small_sglang n)\<lparr>sg_radix := \<lparr>ra_nodes = [(2, one_node)], ra_root_hash = 0\<rparr>,
     sg_memory := snd (write_paged_block flat_torch (small_tensor ''kk'') (small_tensor ''vv'') 0 2 1 (small_manager n))\<rparr>"

lemma one_node_ok: "nodes_ok low_bytes (sg_radix (one_node_sglang n))"
proof -
  have "compute_node_hash low_bytes [5, 6] 0 = Inr 2" by code_simp
  then show ?thesis by (simp add: nodes_ok_def node_ok_def one_node_sglang_def one_node_def)
qed

lemma one_node_memory:
  assumes "68 \<le> n"
  shows "ring_ok (sg_memory (one_node_sglang n)) \<and> mm_pool_size_bytes (sg_memory (one_node_sglang n)) = n \<and>
   mm_write_head (sg_memory (one_node_sglang n)) = 68 \<and>
   block_at flat_torch (sg_memory (one_node_sglang n)) 0 (small_tensor ''kk'') (small_tensor ''vv'') 0 2"
proof -
  have size: "slot_size (small_tensor ''kk'') (small_tensor ''vv'') = 68" by (simp add: slot_size_def small_tensor_def)
  have slot: "slot (small_manager n) 68 = 0" using assms by (simp add: slot_def small_manager_def)
  have pool: "mm_pool_size_bytes (small_manager n) = n" by (simp add: small_manager_def)
  have kv: "kv_pair flat_torch (small_tensor ''kk'') (small_tensor ''vv'')" by (simp add: small_pair)
  have fit: "slot_size (small_tensor ''kk'') (small_tensor ''vv'') \<le> mm_pool_size_bytes (small_manager n)"
    using assms by (simp add: size pool)
  obtain m' where "write_paged_block flat_torch (small_tensor ''kk'') (small_tensor ''vv'') 0 2 1 (small_manager n) =
      (Inr (0, 68, block_header flat_torch (small_tensor ''kk'') (small_tensor ''vv'') 0 2), m')"
    "ring_ok m'" "mm_pool_size_bytes m' = n" "block_at flat_torch m' 0 (small_tensor ''kk'') (small_tensor ''vv'') 0 2"
    "mm_write_head m' = 68"
    by (rule write_block_at [OF flat_torch_documented kv small_ring fit, where l = 0 and h = 2 and b = 1,
          unfolded size slot pool add_0]) (rule that; assumption)
  then show ?thesis by (simp add: one_node_sglang_def)
qed

lemma one_node_stored: "68 \<le> n \<Longrightarrow> stored_layer flat_torch (sg_memory (one_node_sglang n)) 2 [small_tensor ''kk''] [small_tensor ''vv''] [0] 0"
  using one_node_memory [of n] small_pair [of "''kk''" "''vv''"]
  by (auto simp: stored_layer_def slot_size_def) (simp_all add: small_tensor_def)

lemma offload_keeps_stored_nodes_witness:
  "\<exists>d sg'. offload_node flat_torch low_bytes 2 [9] [small_tensor ''K''] [small_tensor ''V''] 0 None (one_node_sglang 200) = (Inr d, sg') \<and>
    stored flat_torch ((\<lambda>_. ([small_tensor ''kk''], [small_tensor ''vv'']))(1 := ([small_tensor ''K''], [small_tensor ''V'']))) sg' \<and>
    map_of (ra_nodes (sg_radix sg')) 1 = Some d \<and> map_of (ra_nodes (sg_radix sg')) 2 = Some one_node"
proof -
  let ?sg = "one_node_sglang 200"
  have h: "compute_node_hash low_bytes [9] 0 = Inr 1" by code_simp
  have mem: "ring_ok (sg_memory ?sg)" "mm_pool_size_bytes (sg_memory ?sg) = 200" "mm_write_head (sg_memory ?sg) = 68"
    using one_node_memory [of 200] by simp_all
  have nodes: "ra_nodes (sg_radix ?sg) = [(2, one_node)]" by (simp add: one_node_sglang_def)
  have "stored flat_torch (\<lambda>_. ([small_tensor ''kk''], [small_tensor ''vv''])) ?sg"
    using mem(1) one_node_stored [of 200] by (simp add: stored_def nodes one_node_def)
  moreover have "mm_write_head (sg_memory ?sg) + layers_size [small_tensor ''K''] [small_tensor ''V''] 0 (length [small_tensor ''K''])
      \<le> mm_pool_size_bytes (sg_memory ?sg)"
    by (simp add: mem layers_size_def slot_size_def small_tensor_def)
  moreover have "\<forall>l < length [small_tensor ''K'']. kv_pair flat_torch ([small_tensor ''K''] ! l) ([small_tensor ''V''] ! l)"
    by (simp add: small_pair)
  ultimately show ?thesis
    using offload_keeps_stored_nodes [OF flat_torch_documented one_node_ok [of 200] _ h, where ks = "[small_tensor ''K'']"
        and vs = "[small_tensor ''V'']" and node_id = 2 and meta = None] nodes
    by fastforce
qed

lemma restore_copies_offloaded_tensors_witness:
  "\<exists>n ds restore tg'. find_matching_nodes (sg_radix (one_node_sglang 100)) [5, 6, 7] None = Some (n, ds) \<and>
    restore_prefix flat_torch (one_node_sglang 100) [5, 6, 7] = Some restore \<and>
    restore \<lparr>tg_k = [small_tensor ''----''], tg_v = [small_tensor ''----'']\<rparr> = (Inr (n, ds \<noteq> []), tg') \<and>
    (\<forall>i < length ds. holds_slice flat_torch tg' 0 (node_start ds i) (length (rn_token_ids (ds ! i)))
      (small_tensor ''kk'') (small_tensor ''vv''))"
proof -
  let ?tg = "\<lparr>tg_k = [small_tensor ''----''], tg_v = [small_tensor ''----'']\<rparr>"
  let ?kv = "\<lambda>_. ([small_tensor ''kk''], [small_tensor ''vv''])"
  have tg: "targets_ok flat_torch 1 (\<lambda>_. (1, 4, 1)) (\<lambda>_. 3) ?tg"
    by (simp add: targets_ok_def tensor_ok_def small_tensor_def flat_torch_def flat_size_def)
  have slices: "slices_ok flat_torch 1 (\<lambda>_. (1, 4, 1))" using flat_torch_slices by (simp add: slices_ok_def)
  have ready: "\<forall>(h, d) \<in> set (ra_nodes (sg_radix (one_node_sglang 100))).
      node_ready flat_torch (sg_memory (one_node_sglang 100)) 1 (\<lambda>_. (1, 4, 1)) (\<lambda>_. 3) ?kv d"
    using one_node_stored [of 100] by (simp add: node_ready_def one_node_def one_node_sglang_def small_tensor_def)
  show ?thesis
    using restore_copies_offloaded_tensors [OF flat_torch_documented one_node_ok slices tg ready, of "[5, 6, 7]"] by simp
qed

lemma wrapped_offload_serves_other_tensors_witness:
  "\<exists>d' sg'. offload_node flat_torch low_bytes 2 [9] [small_tensor ''K''] [small_tensor ''V''] 0 None (one_node_sglang 100) = (Inr d', sg') \<and>
    map_of (ra_nodes (sg_radix sg')) 2 = Some one_node \<and>
    fst (read_paged_block flat_torch 0 [1, 1, 1] (u ''cpu'') (Some 3) (sg_memory sg')) = Inr (small_tensor ''K'', small_tensor ''V'')"
proof -
  have h: "compute_node_hash low_bytes [9] 0 = Inr 1" by code_simp
  have size: "slot_size (small_tensor ''K'') (small_tensor ''V'') = 66" by (simp add: slot_size_def small_tensor_def)
  have kv: "kv_pair flat_torch (small_tensor ''K'') (small_tensor ''V'')" by (simp add: small_pair)
  have d: "map_of (ra_nodes (sg_radix (one_node_sglang 100))) 2 = Some one_node" "rn_layer_offsets one_node = [0]"
    by (simp_all add: one_node_sglang_def one_node_def)
  have shape: "t_shape (small_tensor ''K'') = [1, 1, 1]" "t_dtype (small_tensor ''K'') = 3"
    by (simp_all add: small_tensor_def)
  show ?thesis
    using wrapped_offload_serves_other_tensors [OF flat_torch_documented _ kv _ _ d h, where
        node_id = 2 and meta = None and device = "u ''cpu''"] one_node_memory [of 100]
    by (simp add: size shape d(2) device_ok_def)
qed

end
