(* ===== verification/Vllm.thy ===== *)
theory Vllm
  imports Layers Prefix_Cache
begin

text \<open>
  \<open>vllm/connector.py\<close>: the blocks of a prompt's KV cache are written to the ring buffer and registered under
  their chained hashes; a later prompt's longest registered prefix is copied back into its caches. The vLLM base
  class only keeps the configuration and is left out, as is logging.
\<close>

section \<open>The connector\<close>

text \<open>One layer's cache is a tensor, or a list or tuple of tensors.\<close>

datatype 'd layer_kv = Tensor "'d tensor" | Tensors "'d tensor list"

text \<open>The metadata dictionary of a registered block.\<close>

record block_meta =
  bm_layer_offsets :: "int list"
  bm_num_layers :: int

record vllm =
  vl_rank :: int
  vl_local_rank :: int
  vl_block_size :: int
  vl_prefix :: "block_meta prefix_cache"
  vl_memory :: memory_manager

definition KacheDBConnector :: "int \<Rightarrow> int \<Rightarrow> int \<Rightarrow> int \<Rightarrow> exc + vllm" where
  "KacheDBConnector rank local_rank block_size pool_size_mb =
     map_sumE (\<lambda>memory. \<lparr>vl_rank = rank, vl_local_rank = local_rank, vl_block_size = block_size,
         vl_prefix = KacheDBPrefixCache block_size, vl_memory = memory\<rparr>)
       (KacheDBMemoryManager local_rank pool_size_mb)"

text \<open>\<open>input_tokens\<close> and \<open>seq_data.get_token_ids()\<close> of the model input, where it has them.\<close>

record model_input =
  mi_input_tokens :: "int list option"
  mi_seq_tokens :: "int list option"

definition prompt_tokens :: "model_input \<Rightarrow> int list" where
  "prompt_tokens mi = (case mi_input_tokens mi of
      Some (t # ts) \<Rightarrow> t # ts
    | _ \<Rightarrow> (case mi_seq_tokens mi of Some ids \<Rightarrow> ids | None \<Rightarrow> []))"

text \<open>The key and value of block \<open>b\<close> in a layer's cache.\<close>

definition block_pair :: "'d torch \<Rightarrow> int \<Rightarrow> nat \<Rightarrow> 'd layer_kv \<Rightarrow> exc + 'd tensor \<times> 'd tensor" where
  "block_pair T block_size b layer = (case layer of
      Tensor t \<Rightarrow>
        if length (t_shape t) = 5
        then bind_sum (t_get T [b, 0] t) (\<lambda>k. map_sumE (Pair k) (t_get T [b, 1] t))
        else bind_sum (t_get T [0, b] t) (\<lambda>k. map_sumE (Pair k) (t_get T [1, b] t))
    | Tensors ts \<Rightarrow>
        bind_sum (list_item ts 0) (\<lambda>k_t. bind_sum (list_item ts 1) (\<lambda>v_t.
        if length (t_shape k_t) = 3
        then let start_pos = nat (int b * block_size);
                 end_pos = nat (min (int (t_shape k_t ! 1)) ((int b + 1) * block_size))
             in bind_sum (t_slice T start_pos end_pos k_t) (\<lambda>k. map_sumE (Pair k) (t_slice T start_pos end_pos v_t))
        else bind_sum (t_get T [b] k_t) (\<lambda>k. map_sumE (Pair k) (t_get T [b] v_t)))))"

definition send_block :: "'d torch \<Rightarrow> 'd layer_kv list \<Rightarrow> nat \<Rightarrow> int \<Rightarrow> (vllm, exc, unit) py" where
  "send_block T kv_caches b h =
     bindE (zoom vl_prefix vl_prefix_update (lookup_block h)) (\<lambda>found.
     if found \<noteq> None then ret ()
     else bindE (getsE vl_block_size) (\<lambda>bs.
          bindE (zoom vl_memory vl_memory_update
            (write_layers T (\<lambda>l. block_pair T bs b (kv_caches ! l)) h (int b) 0 (length kv_caches))) (\<lambda>offs.
          zoom vl_prefix vl_prefix_update (register_block h (int b) bs
            (Some \<lparr>bm_layer_offsets = offs, bm_num_layers = int (length kv_caches)\<rparr>)))))"

primrec send_blocks :: "'d torch \<Rightarrow> 'd layer_kv list \<Rightarrow> nat \<Rightarrow> int list \<Rightarrow> (vllm, exc, unit) py" where
  "send_blocks T kv_caches b [] = ret ()"
| "send_blocks T kv_caches b (h # hs) =
     bindE (send_block T kv_caches b h) (\<lambda>_. send_blocks T kv_caches (Suc b) hs)"

definition send_kv_caches ::
    "'d torch \<Rightarrow> (bytes \<Rightarrow> bytes) \<Rightarrow> model_input \<Rightarrow> 'd layer_kv list \<Rightarrow> (vllm, exc, unit) py" where
  "send_kv_caches T H mi kv_caches =
     (if prompt_tokens mi = [] then ret ()
      else bindE (getsE (\<lambda>c. pc_block_size (vl_prefix c))) (\<lambda>bs.
           bindE (liftE (compute_sequence_hashes H bs (prompt_tokens mi))) (send_blocks T kv_caches 0)))"

text \<open>Receiving changes the caches only.\<close>

type_synonym ('d, 'a) recv = "('d layer_kv list, exc, 'a) py"

definition put_pair :: "'d torch \<Rightarrow> nat \<Rightarrow> nat list \<Rightarrow> nat list \<Rightarrow> 'd tensor \<Rightarrow> 'd tensor \<Rightarrow> 'd tensor \<Rightarrow> ('d, unit) recv" where
  "put_pair T l ki vi k v t =
     bindE (liftE (t_put T ki k t)) (\<lambda>t1. bindE (modifyE (\<lambda>s. s[l := Tensor t1])) (\<lambda>_.
     bindE (liftE (t_put T vi v t1)) (\<lambda>t2. modifyE (\<lambda>s. s[l := Tensor t2]))))"

definition recv_layer :: "'d torch \<Rightarrow> memory_manager \<Rightarrow> int list \<Rightarrow> nat \<Rightarrow> nat \<Rightarrow> ('d, unit) recv" where
  "recv_layer T memory layer_offsets b l =
     (if l \<ge> length layer_offsets then ret ()
      else bindE (getsE (\<lambda>s. s ! l)) (\<lambda>layer. case layer of
          Tensors _ \<Rightarrow> raise BuiltinAttributeError
        | Tensor t \<Rightarrow>
            bindE (liftE (dim t 2)) (\<lambda>heads. bindE (liftE (dim t 3)) (\<lambda>size. bindE (liftE (dim t 4)) (\<lambda>head_dim.
            bindE (liftE (fst (read_paged_block T (layer_offsets ! l) [heads, size, head_dim] (t_device T t) None memory)))
              (\<lambda>(k, v). if length (t_shape t) = 5 then put_pair T l [b, 0] [b, 1] k v t
                         else put_pair T l [0, b] [1, b] k v t))))))"

primrec recv_blocks ::
    "'d torch \<Rightarrow> memory_manager \<Rightarrow> nat \<Rightarrow> nat \<Rightarrow> (int \<times> int \<times> block_meta option) list \<Rightarrow> ('d, unit) recv" where
  "recv_blocks T memory num_layers b [] = ret ()"
| "recv_blocks T memory num_layers b (e # es) =
     bindE (for_range 0 num_layers (recv_layer T memory
       (case snd (snd e) of None \<Rightarrow> [] | Some meta \<Rightarrow> bm_layer_offsets meta) b)) (\<lambda>_.
     recv_blocks T memory num_layers (Suc b) es)"

text \<open>The flag of the result; its first component is always \<open>None\<close>.\<close>

definition recv_kv_caches :: "'d torch \<Rightarrow> (bytes \<Rightarrow> bytes) \<Rightarrow> vllm \<Rightarrow> model_input \<Rightarrow> ('d, bool) recv" where
  "recv_kv_caches T H c mi =
     (if prompt_tokens mi = [] then ret False
      else bindE (liftE (fst (find_longest_prefix H (prompt_tokens mi) (vl_prefix c)))) (\<lambda>(matched, blocks).
           if matched = 0 then ret False
           else bindE (getsE length) (\<lambda>num_layers.
                bindE (recv_blocks T (vl_memory c) num_layers 0 blocks) (\<lambda>_. ret True))))"

section \<open>What is stored\<close>

text \<open>Caches of \<open>nb\<close> half-precision blocks of a given shape, and what block \<open>b\<close> of layer \<open>l\<close> holds.\<close>

definition cache_ok :: "'d torch \<Rightarrow> nat \<Rightarrow> nat list \<Rightarrow> 'd tensor \<Rightarrow> bool" where
  "cache_ok T nb shape t \<longleftrightarrow> tensor_ok T t \<and> t_shape t = nb # 2 # shape \<and> t_dtype t = t_float16 T"

definition tens :: "'d layer_kv list \<Rightarrow> nat \<Rightarrow> 'd tensor" where
  "tens s l = (case s ! l of Tensor t \<Rightarrow> t | Tensors ts \<Rightarrow> ts ! 0)"

definition caches_ok :: "'d torch \<Rightarrow> nat \<Rightarrow> nat \<Rightarrow> nat list \<Rightarrow> 'd layer_kv list \<Rightarrow> bool" where
  "caches_ok T L nb shape s \<longleftrightarrow> length s = L \<and> (\<forall>l < L. s ! l = Tensor (tens s l) \<and> cache_ok T nb shape (tens s l))"

definition holds_block :: "'d torch \<Rightarrow> 'd layer_kv list \<Rightarrow> nat \<Rightarrow> nat \<Rightarrow> 'd tensor \<Rightarrow> 'd tensor \<Rightarrow> bool" where
  "holds_block T s l b k v \<longleftrightarrow> t_get T [b, 0] (tens s l) = Inr k \<and> t_get T [b, 1] (tens s l) = Inr v"

definition same_blocks :: "'d torch \<Rightarrow> nat \<Rightarrow> nat \<Rightarrow> (nat \<Rightarrow> bool) \<Rightarrow> 'd layer_kv list \<Rightarrow> 'd layer_kv list \<Rightarrow> bool" where
  "same_blocks T L nb keep s s' \<longleftrightarrow> (\<forall>l < L. \<forall>b < nb. keep b \<longrightarrow> (\<forall>j < 2.
     t_get T [b, j] (tens s' l) = t_get T [b, j] (tens s l)))"

text \<open>Tensors that fill a block of such a cache.\<close>

definition fills :: "'d torch \<Rightarrow> nat list \<Rightarrow> 'd tensor \<Rightarrow> bool" where
  "fills T shape k \<longleftrightarrow> t_shape k = shape \<and> t_dtype k = t_float16 T"

text \<open>\<open>kv\<close> says which tensors were sent under each hash: every registered block is stored in all \<open>L\<close> layers.\<close>

definition index_stored ::
    "'d torch \<Rightarrow> nat \<Rightarrow> nat list \<Rightarrow> (int \<Rightarrow> 'd tensor list \<times> 'd tensor list) \<Rightarrow> vllm \<Rightarrow> bool" where
  "index_stored T L shape kv c \<longleftrightarrow> ring_ok (vl_memory c) \<and>
     (\<forall>h e. pc_index (vl_prefix c) h = Some e \<longrightarrow>
       (\<exists>meta. snd (snd e) = Some meta \<and> length (bm_layer_offsets meta) = L \<and>
         (\<forall>l < L. fills T shape (fst (kv h) ! l) \<and>
           stored_layer T (vl_memory c) h (fst (kv h)) (snd (kv h)) (bm_layer_offsets meta) l)))"

lemma index_storedE:
  assumes "index_stored T L shape kv c" "pc_index (vl_prefix c) h = Some e"
  obtains meta where "snd (snd e) = Some meta" "length (bm_layer_offsets meta) = L"
    "\<forall>l < L. fills T shape (fst (kv h) ! l) \<and>
      stored_layer T (vl_memory c) h (fst (kv h)) (snd (kv h)) (bm_layer_offsets meta) l"
  using conjunct2 [OF assms(1) [unfolded index_stored_def], THEN spec, THEN spec, THEN mp, OF assms(2)] by blast

lemma tens_update: "l < length s \<Longrightarrow> tens (s[l := Tensor t]) i = (if i = l then t else tens s i)"
  by (simp add: tens_def)

lemma caches_ok_update:
  "caches_ok T L nb shape s \<Longrightarrow> l < L \<Longrightarrow> cache_ok T nb shape t \<Longrightarrow> caches_ok T L nb shape (s[l := Tensor t])"
  by (simp add: caches_ok_def tens_update nth_list_update)

lemma put_block:
  assumes "blocks_documented T nb shape" "cache_ok T nb shape t" "tensor_ok T x" "fills T shape x" "b < nb" "j < 2"
  obtains t' where "t_put T [b, j] x t = Inr t'" "cache_ok T nb shape t'" "t_get T [b, j] t' = Inr x"
    "\<And>b' j'. b' < nb \<Longrightarrow> j' < 2 \<Longrightarrow> (b', j') \<noteq> (b, j) \<Longrightarrow> t_get T [b', j'] t' = t_get T [b', j'] t"
proof -
  have t: "tensor_ok T t" "t_shape t = nb # 2 # shape" "t_shape x = shape" "t_dtype x = t_dtype t"
    using assms(2,4) by (simp_all add: cache_ok_def fills_def)
  obtain t' where t': "t_put T [b, j] x t = Inr t'" "tensor_ok T t'" "t_shape t' = nb # 2 # shape"
      "t_dtype t' = t_dtype t" "t_get T [b, j] t' = Inr x"
    and beside: "\<forall>b' j'. b' < nb \<longrightarrow> j' < 2 \<longrightarrow> (b', j') \<noteq> (b, j) \<longrightarrow> t_get T [b', j'] t' = t_get T [b', j'] t"
    using conjunct1 [OF assms(1) [unfolded blocks_documented_def], rule_format, OF t(1,2) assms(3) t(3,4) assms(5,6)] by blast
  show thesis using that [OF t'(1) _ t'(5)] t' beside assms(2) by (simp add: cache_ok_def)
qed

lemma recv_layer_run:
  assumes T: "documented T" and blocks: "blocks_documented T nb shape" and s: "caches_ok T L nb shape s"
    and l: "l < L" and b: "b < nb" and len: "length offs = L"
    and st: "stored_layer T m h ks vs offs l" and k: "fills T shape (ks ! l)"
  obtains s' where "recv_layer T m offs b l s = (Inr (), s')" and "caches_ok T L nb shape s'"
    and "holds_block T s' l b (ks ! l) (vs ! l)" and "same_blocks T L nb (\<lambda>i. i \<noteq> b) s s'"
    and "\<And>i. i \<noteq> l \<Longrightarrow> tens s' i = tens s i"
proof -
  obtain off where off: "offs ! l = int off" "kv_pair T (ks ! l) (vs ! l)" "block_at T m off (ks ! l) (vs ! l) (int l) h"
    using st by (auto simp: stored_layer_def)
  have v: "fills T shape (vs ! l)" "tensor_ok T (ks ! l)" "tensor_ok T (vs ! l)"
    using off(2) k by (auto simp: kv_pair_def fills_def)
  have sl: "s ! l = Tensor (tens s l)" "cache_ok T nb shape (tens s l)" "l < length s"
    using s l by (auto simp: caches_ok_def)
  obtain x y z where shape: "shape = [x, y, z]"
    using off(2) k by (auto simp: kv_pair_def fills_def numeral_3_eq_3 length_Suc_conv)
  obtain t1 where t1: "t_put T [b, 0] (ks ! l) (tens s l) = Inr t1" "cache_ok T nb shape t1" "t_get T [b, 0] t1 = Inr (ks ! l)"
    "\<And>b' j'. b' < nb \<Longrightarrow> j' < 2 \<Longrightarrow> (b', j') \<noteq> (b, 0) \<Longrightarrow> t_get T [b', j'] t1 = t_get T [b', j'] (tens s l)"
    using put_block [OF blocks sl(2) v(2) k b, of 0] by auto
  obtain t2 where t2: "t_put T [b, 1] (vs ! l) t1 = Inr t2" "cache_ok T nb shape t2" "t_get T [b, 1] t2 = Inr (vs ! l)"
    "\<And>b' j'. b' < nb \<Longrightarrow> j' < 2 \<Longrightarrow> (b', j') \<noteq> (b, 1) \<Longrightarrow> t_get T [b', j'] t2 = t_get T [b', j'] t1"
    using put_block [OF blocks t1(2) v(3,1) b, of 1] by auto
  have dims: "dim (tens s l) 2 = Inr x" "dim (tens s l) 3 = Inr y" "dim (tens s l) 4 = Inr z" "length (t_shape (tens s l)) = 5"
    using sl(2) shape by (simp_all add: cache_ok_def dim_def numeral_eq_Suc)
  have rd: "fst (read_paged_block T (int off) [x, y, z] (t_device T (tens s l)) None m) = Inr (ks ! l, vs ! l)"
  proof -
    have "read_paged_block T (int off) [x, y, z] dev None m = read_paged_block T (int off) (t_shape (ks ! l)) dev (Some (t_dtype (ks ! l))) m" for dev
      using k shape by (simp add: read_paged_block_def fills_def)
    then show ?thesis using read_block [OF T off(2,3) device_ok_own [OF T]] by simp
  qed
  let ?s = "s[l := Tensor t2]"
  have "recv_layer T m offs b l s = (Inr (), ?s)"
    using l len sl(1) dims rd off(1) t1(1) t2(1) by (simp add: recv_layer_def put_pair_def bindE_run)
  moreover have "caches_ok T L nb shape ?s" by (rule caches_ok_update [OF s l t2(2)])
  moreover have "holds_block T ?s l b (ks ! l) (vs ! l)"
    using t1(3) t2(3) t2(4) [OF b, of 0] sl(3) by (simp add: holds_block_def tens_update)
  moreover have "same_blocks T L nb (\<lambda>i. i \<noteq> b) s ?s"
    using t1(4) t2(4) sl(3) by (simp add: same_blocks_def tens_update)
  ultimately show thesis using that sl(3) by (simp add: tens_update)
qed

lemma recv_block_run:
  assumes T: "documented T" and blocks: "blocks_documented T nb shape" and s: "caches_ok T L nb shape s"
    and b: "b < nb" and len: "length offs = L"
    and st: "\<And>l. l < L \<Longrightarrow> stored_layer T m h ks vs offs l \<and> fills T shape (ks ! l)"
  obtains s' where "for_range 0 L (recv_layer T m offs b) s = (Inr (), s')" and "caches_ok T L nb shape s'"
    and "\<And>l. l < L \<Longrightarrow> holds_block T s' l b (ks ! l) (vs ! l)" and "same_blocks T L nb (\<lambda>i. i \<noteq> b) s s'"
proof -
  let ?I = "\<lambda>j r. caches_ok T L nb shape r \<and> same_blocks T L nb (\<lambda>i. i \<noteq> b) s r \<and>
    (\<forall>l < j. holds_block T r l b (ks ! l) (vs ! l))"
  have "\<exists>s'. for_range 0 L (recv_layer T m offs b) s = (Inr (), s') \<and> ?I (0 + L) s'"
  proof (rule for_range_run)
    fix l r assume l: "l < 0 + L" and I: "?I l r"
    have "l < L" using l by simp
    obtain r' where r': "recv_layer T m offs b l r = (Inr (), r')" "caches_ok T L nb shape r'"
        "holds_block T r' l b (ks ! l) (vs ! l)" "same_blocks T L nb (\<lambda>i. i \<noteq> b) r r'" "\<And>i. i \<noteq> l \<Longrightarrow> tens r' i = tens r i"
      using recv_layer_run [OF T blocks conjunct1 [OF I] \<open>l < L\<close> b len] st [OF \<open>l < L\<close>] by metis
    have "\<forall>i < Suc l. holds_block T r' i b (ks ! i) (vs ! i)"
      using I r'(3,5) by (auto simp: less_Suc_eq holds_block_def)
    moreover have "same_blocks T L nb (\<lambda>i. i \<noteq> b) s r'" using I r'(4) by (simp add: same_blocks_def)
    ultimately show "\<exists>r'. recv_layer T m offs b l r = (Inr (), r') \<and> ?I (Suc l) r'" using r' by blast
  next
    show "?I 0 s" using s by (simp add: same_blocks_def)
  qed
  then show thesis using that by auto
qed

lemma recv_blocks_run:
  assumes T: "documented T" and blocks: "blocks_documented T nb shape" and st: "index_stored T L shape kv c"
    and "caches_ok T L nb shape s" "b + length hs \<le> nb" "\<And>h. h \<in> set hs \<Longrightarrow> pc_index (vl_prefix c) h \<noteq> None"
  shows "\<exists>s'. recv_blocks T (vl_memory c) L b (map (\<lambda>h. the (pc_index (vl_prefix c) h)) hs) s = (Inr (), s') \<and>
    caches_ok T L nb shape s' \<and> same_blocks T L nb (\<lambda>i. i < b \<or> b + length hs \<le> i) s s' \<and>
    (\<forall>i < length hs. \<forall>l < L. holds_block T s' l (b + i) (fst (kv (hs ! i)) ! l) (snd (kv (hs ! i)) ! l))"
  using assms(4-6)
proof (induction hs arbitrary: b s)
  case Nil
  then show ?case by (simp add: same_blocks_def)
next
  case (Cons h hs)
  obtain e where e: "pc_index (vl_prefix c) h = Some e" using Cons.prems(3) by fastforce
  then obtain meta where meta: "snd (snd e) = Some meta" "length (bm_layer_offsets meta) = L"
    "\<And>l. l < L \<Longrightarrow> stored_layer T (vl_memory c) h (fst (kv h)) (snd (kv h)) (bm_layer_offsets meta) l \<and>
       fills T shape (fst (kv h) ! l)"
    using index_storedE [OF st e] by metis
  have b: "b < nb" using Cons.prems(2) by simp
  obtain s1 where s1: "for_range 0 L (recv_layer T (vl_memory c) (bm_layer_offsets meta) b) s = (Inr (), s1)"
      "caches_ok T L nb shape s1" "same_blocks T L nb (\<lambda>i. i \<noteq> b) s s1"
    and held: "\<And>l. l < L \<Longrightarrow> holds_block T s1 l b (fst (kv h) ! l) (snd (kv h) ! l)"
    using recv_block_run [OF T blocks Cons.prems(1) b meta(2,3)] by metis
  obtain s2 where s2: "recv_blocks T (vl_memory c) L (Suc b) (map (\<lambda>h. the (pc_index (vl_prefix c) h)) hs) s1 = (Inr (), s2)"
      "caches_ok T L nb shape s2" "same_blocks T L nb (\<lambda>i. i < Suc b \<or> Suc b + length hs \<le> i) s1 s2"
      "\<forall>i < length hs. \<forall>l < L. holds_block T s2 l (Suc b + i) (fst (kv (hs ! i)) ! l) (snd (kv (hs ! i)) ! l)"
    using Cons.IH [OF s1(2), of "Suc b"] Cons.prems(2,3) by auto
  have "recv_blocks T (vl_memory c) L b (map (\<lambda>h. the (pc_index (vl_prefix c) h)) (h # hs)) s = (Inr (), s2)"
    using e meta(1) s1(1) s2(1) by (simp add: bindE_run)
  moreover have "same_blocks T L nb (\<lambda>i. i < b \<or> b + length (h # hs) \<le> i) s s2"
    using s1(3) s2(3) by (auto simp: same_blocks_def)
  moreover have "holds_block T s2 l (b + i) (fst (kv ((h # hs) ! i)) ! l) (snd (kv ((h # hs) ! i)) ! l)"
    if "i < length (h # hs)" "l < L" for i l
  proof (cases i)
    case 0
    then show ?thesis using held [OF that(2)] s2(3) that(2) b by (simp add: holds_block_def same_blocks_def)
  next
    case (Suc j)
    then show ?thesis using s2(4) that by simp
  qed
  ultimately show ?case using s2(2) by blast
qed

section \<open>What a send stores\<close>

definition block_of :: "'d torch \<Rightarrow> 'd layer_kv list \<Rightarrow> nat \<Rightarrow> nat \<Rightarrow> nat \<Rightarrow> 'd tensor" where
  "block_of T s b j l = (case t_get T [b, j] (tens s l) of Inr x \<Rightarrow> x | Inl _ \<Rightarrow> tens s l)"

definition blocks_of :: "'d torch \<Rightarrow> nat \<Rightarrow> 'd layer_kv list \<Rightarrow> nat \<Rightarrow> 'd tensor list \<times> 'd tensor list" where
  "blocks_of T L s b = (map (block_of T s b 0) [0..<L], map (block_of T s b 1) [0..<L])"

lemma block_of_cache:
  assumes "documented T" "blocks_documented T nb shape" "caches_ok T L nb shape s" "b < nb" "l < L" "j < 2"
  shows "t_get T [b, j] (tens s l) = Inr (block_of T s b j l)" "tensor_ok T (block_of T s b j l)"
    "fills T shape (block_of T s b j l)" "length (t_data (block_of T s b j l)) = 2 * prod_list shape"
proof -
  have t: "tensor_ok T (tens s l)" "t_shape (tens s l) = nb # 2 # shape" "t_dtype (tens s l) = t_float16 T"
    using assms(3,5) by (auto simp: caches_ok_def cache_ok_def)
  obtain x where x: "t_get T [b, j] (tens s l) = Inr x" "tensor_ok T x" "t_shape x = shape" "t_dtype x = t_float16 T"
    using conjunct2 [OF assms(2) [unfolded blocks_documented_def], rule_format, OF t(1,2) assms(4,6)] t(3) by metis
  then have "block_of T s b j l = x" by (simp add: block_of_def)
  moreover have "length (t_data x) = 2 * prod_list shape"
    using x assms(1) by (simp add: tensor_ok_def documented_def)
  ultimately show "t_get T [b, j] (tens s l) = Inr (block_of T s b j l)" "tensor_ok T (block_of T s b j l)"
    "fills T shape (block_of T s b j l)" "length (t_data (block_of T s b j l)) = 2 * prod_list shape"
    using x by (simp_all add: fills_def)
qed

lemma block_pair_tensor:
  "length (t_shape t) = 5 \<Longrightarrow> t_get T [b, 0] t = Inr k \<Longrightarrow> t_get T [b, 1] t = Inr v \<Longrightarrow>
   block_pair T bs b (Tensor t) = Inr (k, v)"
  by (simp add: block_pair_def)

lemma block_pair_of_cache:
  assumes T: "documented T" and blocks: "blocks_documented T nb shape" and s: "caches_ok T L nb shape s"
    and b: "b < nb" and l: "l < L" and shape: "length shape = 3" "0 < prod_list shape"
  shows "block_pair T bs b (s ! l) = Inr (block_of T s b 0 l, block_of T s b 1 l)"
    and "kv_pair T (block_of T s b 0 l) (block_of T s b 1 l)"
    and "slot_size (block_of T s b 0 l) (block_of T s b 1 l) = 64 + 4 * prod_list shape"
proof -
  note block = block_of_cache [OF T blocks s b l]
  have "s ! l = Tensor (tens s l)" "length (t_shape (tens s l)) = 5"
    using s l shape(1) by (auto simp: caches_ok_def cache_ok_def)
  then show "block_pair T bs b (s ! l) = Inr (block_of T s b 0 l, block_of T s b 1 l)"
    using block_pair_tensor [OF _ block(1) [of 0] block(1) [of 1]] by simp
  show "kv_pair T (block_of T s b 0 l) (block_of T s b 1 l)"
    using block(2,3) shape by (simp add: kv_pair_def fills_def registered_def dtype_map_def)
  show "slot_size (block_of T s b 0 l) (block_of T s b 1 l) = 64 + 4 * prod_list shape"
    using block(4) by (simp add: slot_size_def)
qed

lemma send_block_run:
  assumes T: "documented T" and blocks: "blocks_documented T nb shape" and st: "index_stored T L shape kv c"
    and s: "caches_ok T L nb shape s" and b: "b < nb" and shape: "length shape = 3" "0 < prod_list shape"
    and new: "pc_index (vl_prefix c) h = None"
    and fits: "mm_write_head (vl_memory c) + L * (64 + 4 * prod_list shape) \<le> mm_pool_size_bytes (vl_memory c)"
  obtains c' e where "send_block T s b h c = (Inr (), c')" and "index_stored T L shape (kv(h := blocks_of T L s b)) c'"
    and "pc_index (vl_prefix c') = (pc_index (vl_prefix c))(h \<mapsto> e)"
    and "mm_write_head (vl_memory c') = mm_write_head (vl_memory c) + L * (64 + 4 * prod_list shape)"
    and "mm_pool_size_bytes (vl_memory c') = mm_pool_size_bytes (vl_memory c)"
proof -
  let ?ks = "fst (blocks_of T L s b)" and ?vs = "snd (blocks_of T L s b)"
  note block = block_of_cache [OF T blocks s b]
  have ks: "?ks ! l = block_of T s b 0 l" "?vs ! l = block_of T s b 1 l" if "l < L" for l
    using that by (simp_all add: blocks_of_def)
  have pick: "block_pair T (vl_block_size c) b (s ! l) = Inr (?ks ! l, ?vs ! l)"
    and pair: "kv_pair T (?ks ! l) (?vs ! l)"
    and size: "slot_size (?ks ! l) (?vs ! l) = 64 + 4 * prod_list shape" if "l < L" for l
    using block_pair_of_cache [OF T blocks s b that shape] ks [OF that] by simp_all
  have total: "layers_size ?ks ?vs 0 L = L * (64 + 4 * prod_list shape)"
  proof -
    have "map (\<lambda>l. slot_size (?ks ! l) (?vs ! l)) [0..<L] = map (\<lambda>_. 64 + 4 * prod_list shape) [0..<L]"
      using size by (intro map_cong) simp_all
    then show ?thesis by (simp only: layers_size_def add_0 sum_list_triv length_upt diff_zero) simp
  qed
  obtain offs m' where w: "write_layers T (\<lambda>l. block_pair T (vl_block_size c) b (s ! l)) h (int b) 0 L (vl_memory c) = (Inr offs, m')"
    and m': "ring_ok m'" "length offs = L" "length (mm_buf m') = length (mm_buf (vl_memory c))"
      "mm_write_head m' = mm_write_head (vl_memory c) + L * (64 + 4 * prod_list shape)"
      "mm_pool_size_bytes m' = mm_pool_size_bytes (vl_memory c)"
    and frame: "\<And>a k. a + k \<le> mm_write_head (vl_memory c) \<Longrightarrow>
      take k (drop a (mm_buf m')) = take k (drop a (mm_buf (vl_memory c)))"
    and stored: "\<And>i. i < L \<Longrightarrow> \<exists>off. offs ! i = int off \<and> block_at T m' off (?ks ! i) (?vs ! i) (int i) h \<and>
      off + slot_size (?ks ! i) (?vs ! i) \<le> mm_write_head m'"
    using write_layers_run [OF T, of 0 L "\<lambda>l. block_pair T (vl_block_size c) b (s ! l)" ?ks ?vs "vl_memory c" h "int b"]
      pick pair st fits total by (auto simp: index_stored_def)
  let ?meta = "\<lparr>bm_layer_offsets = offs, bm_num_layers = int L\<rparr>"
  let ?e = "(int b, vl_block_size c, Some ?meta)"
  let ?c = "c\<lparr>vl_memory := m', vl_prefix := vl_prefix c\<lparr>pc_index := (pc_index (vl_prefix c))(h \<mapsto> ?e)\<rparr>\<rparr>"
  have "length s = L" using s by (simp add: caches_ok_def)
  then have run: "send_block T s b h c = (Inr (), ?c)"
    using new w by (simp add: send_block_def lookup_block_def register_block_def bindE_run)
  have "index_stored T L shape (kv(h := blocks_of T L s b)) ?c"
    unfolding index_stored_def
  proof (intro conjI allI impI)
    show "ring_ok (vl_memory ?c)" using m'(1) by simp
    fix k e assume e: "pc_index (vl_prefix ?c) k = Some e"
    show "\<exists>meta. snd (snd e) = Some meta \<and> length (bm_layer_offsets meta) = L \<and>
      (\<forall>l < L. fills T shape (fst ((kv(h := blocks_of T L s b)) k) ! l) \<and>
        stored_layer T (vl_memory ?c) k (fst ((kv(h := blocks_of T L s b)) k)) (snd ((kv(h := blocks_of T L s b)) k))
          (bm_layer_offsets meta) l)"
    proof (cases "k = h")
      case True
      then have "e = ?e" using e by simp
      then show ?thesis using True m'(2) stored pair block(3) ks by (auto simp: stored_layer_def)
    next
      case False
      then obtain meta where "snd (snd e) = Some meta" "length (bm_layer_offsets meta) = L"
        "\<forall>l < L. fills T shape (fst (kv k) ! l) \<and> stored_layer T (vl_memory c) k (fst (kv k)) (snd (kv k)) (bm_layer_offsets meta) l"
        using index_storedE [OF st, of k e] e by auto
      moreover have "stored_layer T m' k ks vs offs l" if "stored_layer T (vl_memory c) k ks vs offs l" for ks vs offs l
        by (rule stored_layer_mono [OF that m'(3) _ frame]) (simp_all add: m'(4))
      ultimately show ?thesis using False by (intro exI [of _ meta]) auto
    qed
  qed
  then show thesis using that [OF run] m' by simp
qed

lemma send_blocks_run:
  assumes T: "documented T" and blocks: "blocks_documented T nb shape" and s: "caches_ok T L nb shape s"
    and shape: "length shape = 3" "0 < prod_list shape"
    and "index_stored T L shape kv c" "b + length hs \<le> nb"
    and "mm_write_head (vl_memory c) + length hs * (L * (64 + 4 * prod_list shape)) \<le> mm_pool_size_bytes (vl_memory c)"
  shows "\<exists>kv' c'. send_blocks T s b hs c = (Inr (), c') \<and> index_stored T L shape kv' c' \<and>
    (\<forall>h. pc_index (vl_prefix c) h \<noteq> None \<longrightarrow> pc_index (vl_prefix c') h = pc_index (vl_prefix c) h \<and> kv' h = kv h) \<and>
    (\<forall>i < length hs. pc_index (vl_prefix c') (hs ! i) \<noteq> None \<and>
      (pc_index (vl_prefix c) (hs ! i) = None \<longrightarrow> hs ! i \<notin> set (take i hs) \<longrightarrow> kv' (hs ! i) = blocks_of T L s (b + i)))"
  using assms(6-8)
proof (induction hs arbitrary: b kv c)
  case Nil
  then show ?case by auto
next
  case (Cons h hs)
  let ?sz = "L * (64 + 4 * prod_list shape)"
  have b: "b < nb" and b': "Suc b + length hs \<le> nb" using Cons.prems(2) by simp_all
  show ?case
  proof (cases "pc_index (vl_prefix c) h")
    case None
    have fit: "mm_write_head (vl_memory c) + ?sz \<le> mm_pool_size_bytes (vl_memory c)"
      using Cons.prems(3) by simp
    obtain c1 e where c1: "send_block T s b h c = (Inr (), c1)" "index_stored T L shape (kv(h := blocks_of T L s b)) c1"
        "pc_index (vl_prefix c1) = (pc_index (vl_prefix c))(h \<mapsto> e)"
        "mm_write_head (vl_memory c1) = mm_write_head (vl_memory c) + ?sz"
        "mm_pool_size_bytes (vl_memory c1) = mm_pool_size_bytes (vl_memory c)"
      using send_block_run [OF T blocks Cons.prems(1) s b shape None fit] by metis
    obtain kv' c' where r: "send_blocks T s (Suc b) hs c1 = (Inr (), c')" "index_stored T L shape kv' c'"
        "\<forall>k. pc_index (vl_prefix c1) k \<noteq> None \<longrightarrow> pc_index (vl_prefix c') k = pc_index (vl_prefix c1) k \<and>
          kv' k = (kv(h := blocks_of T L s b)) k"
        "\<forall>i < length hs. pc_index (vl_prefix c') (hs ! i) \<noteq> None \<and>
          (pc_index (vl_prefix c1) (hs ! i) = None \<longrightarrow> hs ! i \<notin> set (take i hs) \<longrightarrow> kv' (hs ! i) = blocks_of T L s (Suc b + i))"
      using Cons.IH [OF c1(2) b'] Cons.prems(3) c1(4,5) by auto
    have "pc_index (vl_prefix c') k = pc_index (vl_prefix c) k \<and> kv' k = kv k" if "pc_index (vl_prefix c) k \<noteq> None" for k
    proof -
      have "k \<noteq> h" using that None by auto
      then show ?thesis using r(3) [THEN spec, of k] c1(3) that by (simp del: not_None_eq)
    qed
    moreover have "pc_index (vl_prefix c') ((h # hs) ! i) \<noteq> None \<and>
        (pc_index (vl_prefix c) ((h # hs) ! i) = None \<longrightarrow> (h # hs) ! i \<notin> set (take i (h # hs)) \<longrightarrow>
          kv' ((h # hs) ! i) = blocks_of T L s (b + i))" if "i < length (h # hs)" for i
    proof (cases i)
      case 0
      then show ?thesis using r(3) [THEN spec, of h] c1(3) None by simp
    next
      case (Suc j)
      then show ?thesis using r(4) c1(3) that by auto
    qed
    ultimately show ?thesis using c1(1) r(1,2) by (intro exI [of _ kv'] exI [of _ c']) (simp add: bindE_run)
  next
    case (Some e)
    then have run: "send_block T s b h c = (Inr (), c)"
      by (cases e) (simp add: send_block_def lookup_block_def bindE_run)
    obtain kv' c' where r: "send_blocks T s (Suc b) hs c = (Inr (), c')" "index_stored T L shape kv' c'"
        "\<forall>k. pc_index (vl_prefix c) k \<noteq> None \<longrightarrow> pc_index (vl_prefix c') k = pc_index (vl_prefix c) k \<and> kv' k = kv k"
        "\<forall>i < length hs. pc_index (vl_prefix c') (hs ! i) \<noteq> None \<and>
          (pc_index (vl_prefix c) (hs ! i) = None \<longrightarrow> hs ! i \<notin> set (take i hs) \<longrightarrow> kv' (hs ! i) = blocks_of T L s (Suc b + i))"
      using Cons.IH [OF Cons.prems(1) b'] Cons.prems(3) by auto
    have "pc_index (vl_prefix c') ((h # hs) ! i) \<noteq> None \<and>
        (pc_index (vl_prefix c) ((h # hs) ! i) = None \<longrightarrow> (h # hs) ! i \<notin> set (take i (h # hs)) \<longrightarrow>
          kv' ((h # hs) ! i) = blocks_of T L s (b + i))" if "i < length (h # hs)" for i
    proof (cases i)
      case 0
      then show ?thesis using r(3) [THEN spec, of h] Some by (simp del: not_None_eq)
    next
      case (Suc j)
      then show ?thesis using r(4) that by auto
    qed
    then show ?thesis using run r(1-3) by (intro exI [of _ kv'] exI [of _ c']) (simp add: bindE_run)
  qed
qed

lemma send_blocks_block_size:
  "send_blocks T s b hs c = (Inr (), c') \<Longrightarrow> pc_block_size (vl_prefix c') = pc_block_size (vl_prefix c)"
proof (induction hs arbitrary: b c)
  case Nil
  then show ?case by simp
next
  case (Cons h hs)
  then obtain c1 where "send_block T s b h c = (Inr (), c1)" "send_blocks T s (Suc b) hs c1 = (Inr (), c')"
    by (auto simp: bindE_run split: prod.splits sum.splits)
  then show ?case using Cons.IH
    by (auto simp: send_block_def bindE_run lookup_block_def register_block_def split: prod.splits sum.splits if_splits)
qed

section \<open>Theorems about the vLLM connector\<close>

text \<open>C20: While the blocks of a prompt fit behind the write head and every registered block is intact in the ring,
  sending half-precision caches that hold the blocks of a prompt registers every block hash of the prompt and keeps
  all registered blocks intact; a hash that was registered keeps its entry and its stored tensors, and a new one
  stands for the key and value blocks of the caches at its position, in every layer.\<close>

theorem send_registers_prompt_blocks:
  assumes "documented T" and "blocks_documented T nb shape" and "caches_ok T L nb shape s"
    and "length shape = 3" and "0 < prod_list shape" and "index_stored T L shape kv c"
    and "prompt_tokens mi \<noteq> []" and "compute_sequence_hashes H (pc_block_size (vl_prefix c)) (prompt_tokens mi) = Inr hs"
    and "length hs \<le> nb"
    and "mm_write_head (vl_memory c) + length hs * (L * (64 + 4 * prod_list shape)) \<le> mm_pool_size_bytes (vl_memory c)"
  shows "\<exists>kv' c'. send_kv_caches T H mi s c = (Inr (), c') \<and> index_stored T L shape kv' c' \<and>
    (\<forall>h. pc_index (vl_prefix c) h \<noteq> None \<longrightarrow> pc_index (vl_prefix c') h = pc_index (vl_prefix c) h \<and> kv' h = kv h) \<and>
    (\<forall>i < length hs. pc_index (vl_prefix c') (hs ! i) \<noteq> None \<and>
      (pc_index (vl_prefix c) (hs ! i) = None \<longrightarrow> hs ! i \<notin> set (take i hs) \<longrightarrow> kv' (hs ! i) = blocks_of T L s i))"
  using send_blocks_run [OF assms(1-6), of 0 hs] assms(7-10) by (simp add: send_kv_caches_def bindE_run)

text \<open>C18: As long as every registered block is still intact in the ring (\<open>index_stored\<close>: half precision, the same
  number of layers and the shape of the caches), receiving into half-precision caches with room for the blocks of
  the prompt reports a hit exactly when the
  first block of the prompt is registered; it fills, up to the first unregistered block, every layer with the
  stored tensors of that block's hash, and leaves the later blocks of the caches as they were. The code never
  checks that the blocks are intact: \<open>wrapped_send_serves_other_tensors\<close> shows what a wrap of the ring does.\<close>

theorem recv_restores_stored_blocks:
  assumes "documented T" and "blocks_documented T nb shape" and "caches_ok T L nb shape s"
    and "index_stored T L shape kv c" and "0 < pc_block_size (vl_prefix c)"
    and "compute_sequence_hashes H (pc_block_size (vl_prefix c)) (prompt_tokens mi) = Inr hs" and "length hs \<le> nb"
  shows "\<exists>n s'. recv_kv_caches T H c mi s = (Inr (0 < n), s') \<and> n \<le> length hs \<and>
    (\<forall>i < n. pc_index (vl_prefix c) (hs ! i) \<noteq> None) \<and> (n < length hs \<longrightarrow> pc_index (vl_prefix c) (hs ! n) = None) \<and>
    (\<forall>i < n. \<forall>l < L. holds_block T s' l i (fst (kv (hs ! i)) ! l) (snd (kv (hs ! i)) ! l)) \<and>
    same_blocks T L nb (\<lambda>i. n \<le> i) s s'"
proof (cases "prompt_tokens mi = []")
  case True
  then have "hs = []" using assms(5,6) by (simp add: compute_sequence_hashes_def)
  then show ?thesis using True by (intro exI [of _ 0] exI [of _ s]) (simp add: recv_kv_caches_def same_blocks_def)
next
  case False
  let ?p = "vl_prefix c"
  obtain n where n: "n \<le> length hs" "find_longest_prefix H (prompt_tokens mi) ?p =
      (Inr (int n * pc_block_size ?p, map (\<lambda>h. the (pc_index ?p h)) (take n hs)), ?p)"
    "\<forall>i < n. pc_index ?p (hs ! i) \<noteq> None" "n < length hs \<longrightarrow> pc_index ?p (hs ! n) = None"
    using match_blocks_run [of hs ?p] assms(6) by (auto simp: find_longest_prefix_def bindE_run)
  have len: "length s = L" using assms(3) by (simp add: caches_ok_def)
  have "pc_index ?p h \<noteq> None" if "h \<in> set (take n hs)" for h
    using that n(1,3) by (auto simp: in_set_conv_nth)
  then obtain s' where s': "recv_blocks T (vl_memory c) L 0 (map (\<lambda>h. the (pc_index ?p h)) (take n hs)) s = (Inr (), s')"
    "same_blocks T L nb (\<lambda>i. i < 0 \<or> 0 + length (take n hs) \<le> i) s s'"
    "\<forall>i < length (take n hs). \<forall>l < L. holds_block T s' l (0 + i) (fst (kv (take n hs ! i)) ! l) (snd (kv (take n hs ! i)) ! l)"
    using recv_blocks_run [OF assms(1,2,4,3), of 0 "take n hs"] n(1) assms(7) by auto
  show ?thesis
  proof (cases "n = 0")
    case True
    then show ?thesis using False n
      by (intro exI [of _ 0] exI [of _ s]) (simp add: recv_kv_caches_def bindE_run same_blocks_def)
  next
    case pos: False
    then have "int n * pc_block_size ?p \<noteq> 0" using assms(5) by simp
    then have "recv_kv_caches T H c mi s = (Inr True, s')"
      using False n(2) s'(1) len by (simp add: recv_kv_caches_def bindE_run)
    then show ?thesis using pos n s'(2,3)
      by (intro exI [of _ n] exI [of _ s']) (simp add: same_blocks_def)
  qed
qed

text \<open>A receive reads every block as half precision, whatever the element type of the cache: for single
  precision both tensors it copies come from the stored key, the first from its first half and the second from
  its second half, and the stored value is not used.\<close>

theorem recv_takes_key_for_value:
  assumes "documented T" and "kv_pair T k v" and "t_dtype k = t_float32 T" and "t_shape k = [x, y, z]"
    and "block_at T m off k v j h" and "offs ! l = int off" and "l < length offs"
    and "s ! l = Tensor t" and "t_shape t = [nb, 2, x, y, z]"
  shows "recv_layer T m offs b l s =
    put_pair T l [b, 0] [b, 1]
      \<lparr>t_dtype = t_float16 T, t_shape = [x, y, z], t_data = take (2 * (x * y * z)) (t_data k)\<rparr>
      \<lparr>t_dtype = t_float16 T, t_shape = [x, y, z], t_data = drop (2 * (x * y * z)) (t_data k)\<rparr> t s"
proof -
  let ?n = "2 * (x * y * z)"
  have isz: "t_itemsize T (t_float32 T) = 4" "t_itemsize T (t_float16 T) = 2" "registered T (t_float16 T)"
    using assms(1) by (auto simp: documented_def registered_def dtype_map_def)
  have lk: "length (t_data k) = ?n + ?n" "length (t_data v) = ?n + ?n" and pos: "0 < prod_list [x, y, z]"
    using assms(2-4) isz by (auto simp: kv_pair_def tensor_ok_def)
  let ?all = "take (64 + (length (t_data k) + length (t_data v))) (drop off (mm_buf m))"
  have room: "off + 64 + ?n + ?n \<le> length (mm_buf m)" and all: "?all = block_bytes T k v j h"
    using assms(5) lk by (simp_all add: block_at_def slot_size_def)
  have "take (?n + ?n) (drop 64 ?all) = t_data k"
    unfolding all by (simp add: block_bytes_def length_to_bytes [OF well_formed_header] lk)
  then have key: "take (?n + ?n) (drop (off + 64) (mm_buf m)) = t_data k"
    using lk by (simp add: drop_take min_def add.commute)
  have first: "take ?n (drop (off + 64) (mm_buf m)) = take ?n (t_data k)"
    unfolding key [symmetric] by (simp add: min_def)
  have second: "take ?n (drop (off + 64 + ?n) (mm_buf m)) = drop ?n (t_data k)"
    unfolding key [symmetric] by (simp add: drop_take add.commute mult.assoc)
  have eq: "prod_list [x, y, z] * t_itemsize T (t_float16 T) = ?n" by (simp add: isz(2))
  note read = deserialize_ok [OF assms(1) device_ok_own [OF assms(1)] pos, where d = "t_float16 T" and buf = "mm_buf m", unfolded eq]
  have dk: "deserialize_tensor T (mm_buf m) (int off + 64) [x, y, z] (t_float16 T) (t_device T t) =
      Inr \<lparr>t_dtype = t_float16 T, t_shape = [x, y, z], t_data = take ?n (t_data k)\<rparr>"
    using read [of "off + 64" t] room unfolding first by simp
  have dv: "deserialize_tensor T (mm_buf m) (int off + 64 + int ?n) [x, y, z] (t_float16 T) (t_device T t) =
      Inr \<lparr>t_dtype = t_float16 T, t_shape = [x, y, z], t_data = drop ?n (t_data k)\<rparr>"
    using read [of "off + 64 + ?n" t] room unfolding second by simp
  obtain raw where e: "serialize_tensor T (t_empty T 1 (t_float16 T)) = Inr (raw, dtype_info T (t_float16 T))"
    using serialize_empty [OF assms(1) isz(3)] by blast
  have size: "snd (dtype_info T (t_float16 T)) = 2" by (simp add: dtype_info_def dtype_map_def)
  have "fst (read_paged_block T (int off) [x, y, z] (t_device T t) None m) =
      Inr (\<lparr>t_dtype = t_float16 T, t_shape = [x, y, z], t_data = take ?n (t_data k)\<rparr>,
           \<lparr>t_dtype = t_float16 T, t_shape = [x, y, z], t_data = drop ?n (t_data k)\<rparr>)"
    using e size dk dv
    by (simp add: read_paged_block_def bindE_run Let_def split_def algebra_simps)
  then show ?thesis
    using assms(6-9) by (simp add: recv_layer_def bindE_run dim_def numeral_eq_Suc)
qed

text \<open>When a block of one layer does not fit behind the write head, it is written over the start of the ring, and
  the block that was there stays registered: a receive for the old block's prompt reports a hit and fills the
  cache with the new block's key and value.\<close>

theorem wrapped_send_serves_other_tensors:
  assumes "documented T" and "blocks_documented T nb shape" and "length shape = 3" and "0 < prod_list shape"
    and "caches_ok T 1 nb shape s" and "b < nb" and "caches_ok T 1 nb shape r" and "ring_ok (vl_memory c)"
    and "64 + 4 * prod_list shape \<le> mm_pool_size_bytes (vl_memory c)"
    and "mm_pool_size_bytes (vl_memory c) < mm_write_head (vl_memory c) + (64 + 4 * prod_list shape)"
    and "pc_index (vl_prefix c) h = Some (i, n, Some \<lparr>bm_layer_offsets = [0], bm_num_layers = 1\<rparr>)"
    and "pc_index (vl_prefix c) h' = None" and "prompt_tokens mi \<noteq> []" and "0 < pc_block_size (vl_prefix c)"
    and "compute_sequence_hashes H (pc_block_size (vl_prefix c)) (prompt_tokens mi) = Inr [h]"
  shows "\<exists>c' r'. send_block T s b h' c = (Inr (), c') \<and>
    pc_index (vl_prefix c') h = pc_index (vl_prefix c) h \<and>
    recv_kv_caches T H c' mi r = (Inr True, r') \<and>
    holds_block T r' 0 0 (block_of T s b 0 0) (block_of T s b 1 0)"
proof -
  let ?k = "block_of T s b 0 0" and ?v = "block_of T s b 1 0"
  note pair = block_pair_of_cache [OF assms(1,2,5,6) zero_less_one assms(3,4)]
  have slot: "slot (vl_memory c) (slot_size ?k ?v) = 0" using assms(10) unfolding pair(3) by (simp add: slot_def)
  have fit: "slot_size ?k ?v \<le> mm_pool_size_bytes (vl_memory c)" using assms(9) unfolding pair(3) .
  obtain m' where w: "write_paged_block T ?k ?v 0 h' (int b) (vl_memory c) =
      (Inr (0, slot_size ?k ?v, block_header T ?k ?v 0 h'), m')"
    and at: "block_at T m' 0 ?k ?v 0 h'" and head: "mm_write_head m' = slot_size ?k ?v"
    using write_block_at [OF assms(1) pair(2) assms(8) fit, where l = 0 and h = h' and b = "int b"]
    unfolding slot by (metis add_0)
  let ?e' = "(int b, vl_block_size c, Some \<lparr>bm_layer_offsets = [0], bm_num_layers = 1\<rparr>)"
  let ?c' = "c\<lparr>vl_memory := m', vl_prefix := vl_prefix c\<lparr>pc_index := (pc_index (vl_prefix c))(h' \<mapsto> ?e')\<rparr>\<rparr>"
  have "length s = 1" using assms(5) by (simp add: caches_ok_def)
  then have send: "send_block T s b h' c = (Inr (), ?c')"
    using assms(12) w pair(1) by (simp add: send_block_def lookup_block_def register_block_def bindE_run)
  have old: "pc_index (vl_prefix ?c') h = Some (i, n, Some \<lparr>bm_layer_offsets = [0], bm_num_layers = 1\<rparr>)"
    using assms(11,12) by auto
  have "stored_layer T m' h' [?k] [?v] [0] l \<and> fills T shape ([?k] ! l)" if "l < 1" for l
    using that at head pair(2) block_of_cache(3) [OF assms(1,2,5,6), of 0 0] by (simp add: stored_layer_def)
  moreover have "0 < nb" using assms(6) by simp
  ultimately obtain r' where r': "for_range 0 1 (recv_layer T m' [0] 0) r = (Inr (), r')"
    "holds_block T r' 0 0 ?k ?v"
    using recv_block_run [OF assms(1,2,7), of 0 "[0]" m' h' "[?k]" "[?v]"] by auto
  have "length r = 1" using assms(7) by (simp add: caches_ok_def)
  then have "recv_kv_caches T H ?c' mi r = (Inr True, r')"
    using assms(13-15) old r'(1) by (simp add: recv_kv_caches_def find_longest_prefix_def lookup_block_def bindE_run)
  then show ?thesis using send old assms(11) r'(2) by (intro exI [of _ ?c'] exI [of _ r']) simp
qed

section \<open>Witnesses\<close>

definition small_vllm :: vllm where
  "small_vllm = \<lparr>vl_rank = 0, vl_local_rank = 0, vl_block_size = 1, vl_prefix = KacheDBPrefixCache 1,
     vl_memory = small_manager 200\<rparr>"

definition small_cache :: "bytes \<Rightarrow> nat layer_kv list" where
  "small_cache b = [Tensor \<lparr>t_dtype = 0, t_shape = [2, 2, 1, 1, 1], t_data = b\<rparr>]"

definition small_input :: model_input where
  "small_input = \<lparr>mi_input_tokens = Some [5, 6], mi_seq_tokens = None\<rparr>"

lemma small_cache_ok: "length b = 8 \<Longrightarrow> caches_ok flat_torch 1 2 [1, 1, 1] (small_cache b)"
  by (simp add: caches_ok_def cache_ok_def tens_def small_cache_def tensor_ok_def flat_torch_def flat_size_def)

lemma small_vllm_stored: "index_stored flat_torch 1 [1, 1, 1] kv small_vllm"
  by (simp add: index_stored_def small_vllm_def small_ring KacheDBPrefixCache_def)

lemma small_hashes:
  "compute_sequence_hashes low_bytes (pc_block_size (vl_prefix small_vllm)) (prompt_tokens small_input) = Inr [5, 1286]"
  by (simp add: small_vllm_def small_input_def prompt_tokens_def KacheDBPrefixCache_def low_bytes_prompt)

lemma send_registers_prompt_blocks_witness:
  "\<exists>kv' c'. send_kv_caches flat_torch low_bytes small_input (small_cache ''KkVvKkVv'') small_vllm = (Inr (), c') \<and>
    index_stored flat_torch 1 [1, 1, 1] kv' c' \<and> pc_index (vl_prefix c') 5 \<noteq> None \<and>
    kv' 5 = blocks_of flat_torch 1 (small_cache ''KkVvKkVv'') 0"
proof -
  have "prompt_tokens small_input \<noteq> []" by (simp add: small_input_def prompt_tokens_def)
  moreover have "mm_write_head (vl_memory small_vllm) + length [5, 1286 :: int] * (1 * (64 + 4 * prod_list [1, 1, 1]))
      \<le> mm_pool_size_bytes (vl_memory small_vllm)" by (simp add: small_vllm_def small_manager_def)
  moreover have "pc_index (vl_prefix small_vllm) h = None" for h by (simp add: small_vllm_def KacheDBPrefixCache_def)
  ultimately have "\<exists>kv' c'. send_kv_caches flat_torch low_bytes small_input (small_cache ''KkVvKkVv'') small_vllm = (Inr (), c') \<and>
      index_stored flat_torch 1 [1, 1, 1] kv' c' \<and>
      (\<forall>i < length [5, 1286 :: int]. pc_index (vl_prefix c') ([5, 1286] ! i) \<noteq> None \<and>
        ([5, 1286] ! i \<notin> set (take i [5, 1286 :: int]) \<longrightarrow>
          kv' ([5, 1286] ! i) = blocks_of flat_torch 1 (small_cache ''KkVvKkVv'') i))"
    using send_registers_prompt_blocks [OF flat_torch_documented flat_torch_blocks small_cache_ok _ _ small_vllm_stored _ small_hashes,
        of "''KkVvKkVv''" "\<lambda>_. ([], [])"] by simp
  then obtain kv' c' where r: "send_kv_caches flat_torch low_bytes small_input (small_cache ''KkVvKkVv'') small_vllm = (Inr (), c')"
      "index_stored flat_torch 1 [1, 1, 1] kv' c'"
      "\<forall>i < length [5, 1286 :: int]. pc_index (vl_prefix c') ([5, 1286] ! i) \<noteq> None \<and>
        ([5, 1286] ! i \<notin> set (take i [5, 1286 :: int]) \<longrightarrow>
          kv' ([5, 1286] ! i) = blocks_of flat_torch 1 (small_cache ''KkVvKkVv'') i)"
    by blast
  then show ?thesis using r(3) [THEN spec, of 0] by auto
qed

lemma recv_restores_stored_blocks_witness:
  "\<exists>c' s'. send_blocks flat_torch (small_cache ''KkVvKkVv'') 0 [5, 1286] small_vllm = (Inr (), c') \<and>
    recv_kv_caches flat_torch low_bytes c' small_input (small_cache ''--------'') = (Inr True, s') \<and>
    holds_block flat_torch s' 0 0 (block_of flat_torch (small_cache ''KkVvKkVv'') 0 0 0)
      (block_of flat_torch (small_cache ''KkVvKkVv'') 0 1 0)"
proof -
  have s: "caches_ok flat_torch 1 2 [1, 1, 1] (small_cache ''KkVvKkVv'')" "caches_ok flat_torch 1 2 [1, 1, 1] (small_cache ''--------'')"
    by (rule small_cache_ok, simp)+
  have fits: "mm_write_head (vl_memory small_vllm) + length [5, 1286 :: int] * (1 * (64 + 4 * prod_list [1, 1, 1]))
      \<le> mm_pool_size_bytes (vl_memory small_vllm)" by (simp add: small_vllm_def small_manager_def)
  have new: "pc_index (vl_prefix small_vllm) h = None" for h by (simp add: small_vllm_def KacheDBPrefixCache_def)
  obtain kv' c' where r: "send_blocks flat_torch (small_cache ''KkVvKkVv'') 0 [5, 1286] small_vllm = (Inr (), c')"
      "index_stored flat_torch 1 [1, 1, 1] kv' c'"
      "\<forall>i < length [5, 1286 :: int]. pc_index (vl_prefix c') ([5, 1286] ! i) \<noteq> None \<and>
        ([5, 1286] ! i \<notin> set (take i [5, 1286 :: int]) \<longrightarrow>
          kv' ([5, 1286] ! i) = blocks_of flat_torch 1 (small_cache ''KkVvKkVv'') (0 + i))"
    using send_blocks_run [OF flat_torch_documented flat_torch_blocks s(1) _ _ small_vllm_stored _ fits, of 0 "\<lambda>_. ([], [])"] new
    by auto
  have bs: "pc_block_size (vl_prefix c') = 1"
    using send_blocks_block_size [OF r(1)] by (simp add: small_vllm_def KacheDBPrefixCache_def)
  have hs: "compute_sequence_hashes low_bytes (pc_block_size (vl_prefix c')) (prompt_tokens small_input) = Inr [5, 1286]"
    using bs small_hashes by (simp add: small_vllm_def KacheDBPrefixCache_def)
  have pos: "0 < pc_block_size (vl_prefix c')" by (simp add: bs)
  have two: "length [5, 1286 :: int] \<le> 2" by simp
  obtain n s' where n: "recv_kv_caches flat_torch low_bytes c' small_input (small_cache ''--------'') = (Inr (0 < n), s')"
      "n < length [5, 1286 :: int] \<longrightarrow> pc_index (vl_prefix c') ([5, 1286] ! n) = None"
      "\<forall>i < n. \<forall>l < 1. holds_block flat_torch s' l i (fst (kv' ([5, 1286] ! i)) ! l) (snd (kv' ([5, 1286] ! i)) ! l)"
    using recv_restores_stored_blocks [OF flat_torch_documented flat_torch_blocks s(2) r(2) pos hs two]
    by (elim exE conjE) (rule that; assumption)
  have first: "pc_index (vl_prefix c') 5 \<noteq> None" using r(3) [THEN spec, of 0] by simp
  have "0 < n"
  proof (rule ccontr)
    assume "\<not> 0 < n"
    then show False using n(2) first by simp
  qed
  moreover have "kv' 5 = blocks_of flat_torch 1 (small_cache ''KkVvKkVv'') 0" using r(3) [THEN spec, of 0] by simp
  moreover have "holds_block flat_torch s' 0 0 (fst (kv' 5) ! 0) (snd (kv' 5) ! 0)"
    using n(3) [THEN spec, of 0] \<open>0 < n\<close> by simp
  ultimately show ?thesis using r(1) n(1)
    by (intro exI [of _ c'] exI [of _ s']) (simp add: blocks_of_def)
qed

text \<open>A connector whose ring of 100 bytes holds the block of hash 5 at its start.\<close>

definition full_vllm :: vllm where
  "full_vllm = \<lparr>vl_rank = 0, vl_local_rank = 0, vl_block_size = 1,
     vl_prefix = (KacheDBPrefixCache 1)\<lparr>pc_index := [5 \<mapsto> (0, 1, Some \<lparr>bm_layer_offsets = [0], bm_num_layers = 1\<rparr>)]\<rparr>,
     vl_memory = (small_manager 100)\<lparr>mm_write_head := 68\<rparr>\<rparr>"

lemma wrapped_send_serves_other_tensors_witness:
  "\<exists>c' r'. send_block flat_torch (small_cache ''KkVvKkVv'') 0 6 full_vllm = (Inr (), c') \<and>
    pc_index (vl_prefix c') 5 = pc_index (vl_prefix full_vllm) 5 \<and>
    recv_kv_caches flat_torch low_bytes c' \<lparr>mi_input_tokens = Some [5], mi_seq_tokens = None\<rparr> (small_cache ''--------'') = (Inr True, r') \<and>
    holds_block flat_torch r' 0 0 (block_of flat_torch (small_cache ''KkVvKkVv'') 0 0 0)
      (block_of flat_torch (small_cache ''KkVvKkVv'') 0 1 0)"
proof -
  have s: "caches_ok flat_torch 1 2 [1, 1, 1] (small_cache ''KkVvKkVv'')" "caches_ok flat_torch 1 2 [1, 1, 1] (small_cache ''--------'')"
    by (rule small_cache_ok, simp)+
  have ring: "ring_ok (vl_memory full_vllm)" by (simp add: full_vllm_def ring_ok_def small_manager_def zeros_def)
  have size: "mm_pool_size_bytes (vl_memory full_vllm) = 100" "mm_write_head (vl_memory full_vllm) = 68"
    by (simp_all add: full_vllm_def small_manager_def)
  have index: "pc_index (vl_prefix full_vllm) 5 = Some (0, 1, Some \<lparr>bm_layer_offsets = [0], bm_num_layers = 1\<rparr>)"
      "pc_index (vl_prefix full_vllm) 6 = None" and bs: "pc_block_size (vl_prefix full_vllm) = 1"
    by (simp_all add: full_vllm_def KacheDBPrefixCache_def)
  have "compute_sequence_hashes low_bytes 1 [5] = Inr [5]" by code_simp
  then have hs: "compute_sequence_hashes low_bytes (pc_block_size (vl_prefix full_vllm))
      (prompt_tokens \<lparr>mi_input_tokens = Some [5], mi_seq_tokens = None\<rparr>) = Inr [5]"
    by (simp add: bs prompt_tokens_def)
  show ?thesis
    by (rule wrapped_send_serves_other_tensors [OF flat_torch_documented flat_torch_blocks _ _ s(1) _ s(2) ring _ _ index _ _ hs])
      (simp_all add: size bs prompt_tokens_def)
qed

definition single_tensor :: "bytes \<Rightarrow> nat tensor" where
  "single_tensor b = \<lparr>t_dtype = 2, t_shape = [1, 1, 1], t_data = b\<rparr>"

lemma recv_takes_key_for_value_witness:
  "\<exists>m. recv_layer flat_torch m [0] 0 0 [Tensor \<lparr>t_dtype = 2, t_shape = [1, 2, 1, 1, 1], t_data = ''--------''\<rparr>] =
    put_pair flat_torch 0 [0, 0] [0, 1] \<lparr>t_dtype = 0, t_shape = [1, 1, 1], t_data = ''ke''\<rparr>
      \<lparr>t_dtype = 0, t_shape = [1, 1, 1], t_data = ''yK''\<rparr>
      \<lparr>t_dtype = 2, t_shape = [1, 2, 1, 1, 1], t_data = ''--------''\<rparr>
      [Tensor \<lparr>t_dtype = 2, t_shape = [1, 2, 1, 1, 1], t_data = ''--------''\<rparr>]"
proof -
  have kv: "kv_pair flat_torch (single_tensor ''keyK'') (single_tensor ''valV'')"
    by (simp add: kv_pair_def tensor_ok_def single_tensor_def flat_torch_def flat_size_def registered_def dtype_map_def)
  have fit: "slot_size (single_tensor ''keyK'') (single_tensor ''valV'') \<le> mm_pool_size_bytes (small_manager 100)"
    by (simp add: slot_size_def single_tensor_def small_manager_def)
  have slot: "slot (small_manager 100) (slot_size (single_tensor ''keyK'') (single_tensor ''valV'')) = 0"
    by (simp add: slot_def small_manager_def)
  obtain m where at: "block_at flat_torch m 0 (single_tensor ''keyK'') (single_tensor ''valV'') (int 0) 7"
    by (rule write_block_at [OF flat_torch_documented kv small_ring fit, where l = "int 0" and h = 7 and b = 0, unfolded slot])
      (rule that; assumption)
  have dt: "t_dtype (single_tensor ''keyK'') = t_float32 flat_torch" "t_shape (single_tensor ''keyK'') = [1, 1, 1]"
    by (simp_all add: single_tensor_def flat_torch_def)
  have "t_float16 flat_torch = 0" by (simp add: flat_torch_def)
  then show ?thesis
    using recv_takes_key_for_value [OF flat_torch_documented kv dt at, of "[0]" 0
        "[Tensor \<lparr>t_dtype = 2, t_shape = [1, 2, 1, 1, 1], t_data = ''--------''\<rparr>]"
        "\<lparr>t_dtype = 2, t_shape = [1, 2, 1, 1, 1], t_data = ''--------''\<rparr>" 1 0]
    by (intro exI [of _ m]) (simp add: single_tensor_def numeral_2_eq_2)
qed

end
