(* ===== verification/Json.thy ===== *)
theory Json
  imports Values
begin

text \<open>
  \<open>json.dumps(v)\<close> and \<open>json.loads(s)\<close> of Python's standard library with their default arguments, as the integrations
  use them: ASCII output, \<open>", "\<close> and \<open>": "\<close> as separators, and a strict decoder. What \<open>float\<close> prints and reads
  are parameters. Every failure of the decoder is a \<open>ValueError\<close> (\<open>json.JSONDecodeError\<close>); nesting beyond the
  recursion limit, the argument \<open>depth\<close>, is a \<open>RecursionError\<close> on either side.
\<close>

section \<open>Values\<close>

datatype 'f json = JNull | JBool bool | JInt int | JFloat 'f | JStr ustr | JList "'f json list" | JDict "(ustr \<times> 'f json) list"

fun json_depth :: "'f json \<Rightarrow> nat" where
  "json_depth (JList xs) = Suc (foldr (\<lambda>x m. max (json_depth x) m) xs 0)"
| "json_depth (JDict kvs) = Suc (foldr (\<lambda>kv m. max (json_depth (snd kv)) m) kvs 0)"
| "json_depth _ = 0"

section \<open>Writing\<close>

definition hex4 :: "nat \<Rightarrow> ustr" where
  "hex4 n = map (\<lambda>d. if d < 10 then 48 + d else 87 + d) [n div 4096 mod 16, n div 256 mod 16, n div 16 mod 16, n mod 16]"

definition escape_char :: "nat \<Rightarrow> ustr" where
  "escape_char c =
     (if c = 34 then [92, 34] else if c = 92 then [92, 92] else if c = 10 then [92, 110] else if c = 13 then [92, 114]
      else if c = 9 then [92, 116] else if c = 12 then [92, 102] else if c = 8 then [92, 98]
      else if 32 \<le> c \<and> c \<le> 126 then [c]
      else if c < 65536 then [92, 117] @ hex4 c
      else [92, 117] @ hex4 (55296 + (c - 65536) div 1024) @ [92, 117] @ hex4 (56320 + (c - 65536) mod 1024))"

definition quoted :: "ustr \<Rightarrow> ustr" where
  "quoted s = [34] @ concat (map escape_char s) @ [34]"

definition float_json :: "'f env \<Rightarrow> 'f \<Rightarrow> ustr" where
  "float_json env f =
     (if e_str env f = u ''nan'' then u ''NaN'' else if e_str env f = u ''inf'' then u ''Infinity''
      else if e_str env f = u ''-inf'' then u ''-Infinity'' else e_str env f)"

fun commas :: "ustr list \<Rightarrow> ustr" where
  "commas [] = []"
| "commas [x] = x"
| "commas (x # y # ys) = x @ [44, 32] @ commas (y # ys)"

fun render :: "'f env \<Rightarrow> 'f json \<Rightarrow> ustr" where
  "render env JNull = u ''null''"
| "render env (JBool b) = (if b then u ''true'' else u ''false'')"
| "render env (JInt i) = u (py_str_int i)"
| "render env (JFloat f) = float_json env f"
| "render env (JStr s) = quoted s"
| "render env (JList xs) = [91] @ commas (map (render env) xs) @ [93]"
| "render env (JDict kvs) = [123] @ commas (map (\<lambda>kv. quoted (fst kv) @ [58, 32] @ render env (snd kv)) kvs) @ [125]"

definition json_dumps :: "'f env \<Rightarrow> nat \<Rightarrow> 'f json \<Rightarrow> exc + ustr" where
  "json_dumps env depth v = (if json_depth v \<le> depth then Inr (render env v) else Inl BuiltinRecursionError)"

section \<open>Reading\<close>

definition json_space :: "nat \<Rightarrow> bool" where
  "json_space c \<longleftrightarrow> c = 32 \<or> c = 9 \<or> c = 10 \<or> c = 13"

definition skip_ws :: "ustr \<Rightarrow> ustr" where
  "skip_ws s = dropWhile json_space s"

definition unhex :: "nat \<Rightarrow> nat option" where
  "unhex c = (if 48 \<le> c \<and> c \<le> 57 then Some (c - 48) else if 97 \<le> c \<and> c \<le> 102 then Some (c - 87)
     else if 65 \<le> c \<and> c \<le> 70 then Some (c - 55) else None)"

fun unhex4 :: "ustr \<Rightarrow> (nat \<times> ustr) option" where
  "unhex4 (a # b # c # d # s) = (case (unhex a, unhex b, unhex c, unhex d) of
      (Some i, Some j, Some k, Some l) \<Rightarrow> Some (i * 4096 + j * 256 + k * 16 + l, s)
    | _ \<Rightarrow> None)"
| "unhex4 _ = None"

text \<open>A high surrogate is joined with the escaped low surrogate behind it.\<close>

definition join_surrogate :: "nat \<Rightarrow> ustr \<Rightarrow> exc + nat \<times> ustr" where
  "join_surrogate n s =
     (if 55296 \<le> n \<and> n \<le> 56319 \<and> take 2 s = [92, 117] then
        (case unhex4 (drop 2 s) of
           None \<Rightarrow> Inl BuiltinValueError
         | Some (m, r) \<Rightarrow> if 56320 \<le> m \<and> m \<le> 57343 then Inr (65536 + (n - 55296) * 1024 + (m - 56320), r) else Inr (n, s))
      else Inr (n, s))"

definition unescape :: "nat \<Rightarrow> nat option" where
  "unescape c = map_of [(34, 34), (92, 92), (47, 47), (98, 8), (102, 12), (110, 10), (114, 13), (116, 9)] c"

text \<open>The rest of a string after its opening quote.\<close>

lemma length_unhex4: "unhex4 s = Some (n, r) \<Longrightarrow> length r < length s"
  by (cases s rule: unhex4.cases) (auto split: option.splits)

lemma length_join_surrogate: "join_surrogate n s = Inr (m, r) \<Longrightarrow> length r \<le> length s"
  by (auto simp: join_surrogate_def dest!: length_unhex4 split: if_splits option.splits)

function scan_string :: "ustr \<Rightarrow> exc + ustr \<times> ustr" where
  "scan_string [] = Inl BuiltinValueError"
| "scan_string (c # s) =
     (if c = 34 then Inr ([], s)
      else if c < 32 then Inl BuiltinValueError
      else if c \<noteq> 92 then map_sumE (\<lambda>(t, r). (c # t, r)) (scan_string s)
      else (case s of
          [] \<Rightarrow> Inl BuiltinValueError
        | e # s1 \<Rightarrow>
            if e = 117 then
              (case unhex4 s1 of
                 None \<Rightarrow> Inl BuiltinValueError
               | Some (n, s2) \<Rightarrow>
                   (case join_surrogate n s2 of
                      Inl ex \<Rightarrow> Inl ex
                    | Inr (m, s3) \<Rightarrow> map_sumE (\<lambda>(t, r). (m # t, r)) (scan_string s3)))
            else (case unescape e of
                 None \<Rightarrow> Inl BuiltinValueError
               | Some d \<Rightarrow> map_sumE (\<lambda>(t, r). (d # t, r)) (scan_string s1))))"
  by pat_completeness auto
termination
  by (relation "measure length") (auto dest!: length_unhex4 length_join_surrogate)

text \<open>A number: its text, whether it has a fraction or an exponent, and what follows. \<open>None\<close> when there is none.\<close>

definition dig :: "nat \<Rightarrow> bool" where
  "dig c \<longleftrightarrow> 48 \<le> c \<and> c \<le> 57"

definition lex_int :: "ustr \<Rightarrow> (ustr \<times> ustr) option" where
  "lex_int s = (case s of
      [] \<Rightarrow> None
    | c # r \<Rightarrow> if c = 48 then Some ([48], r) else if dig c then Some (takeWhile dig s, dropWhile dig s) else None)"

definition lex_frac :: "ustr \<Rightarrow> ustr \<times> ustr" where
  "lex_frac s = (case s of
      c # d # r \<Rightarrow> if c = 46 \<and> dig d then (46 # takeWhile dig (d # r), dropWhile dig (d # r)) else ([], s)
    | _ \<Rightarrow> ([], s))"

definition lex_exp :: "ustr \<Rightarrow> ustr \<times> ustr" where
  "lex_exp s = (case s of
      [] \<Rightarrow> ([], s)
    | c # r \<Rightarrow>
        (let (sg, ds) = (case r of [] \<Rightarrow> ([], r) | d # r' \<Rightarrow> if d = 43 \<or> d = 45 then ([d], r') else ([], r)) in
         if (c = 69 \<or> c = 101) \<and> takeWhile dig ds \<noteq> [] then (c # sg @ takeWhile dig ds, dropWhile dig ds) else ([], s)))"

definition lex_number :: "ustr \<Rightarrow> (ustr \<times> bool \<times> ustr) option" where
  "lex_number s =
     (let (sg, s1) = (case s of [] \<Rightarrow> ([], s) | c # r \<Rightarrow> if c = 45 then ([45], r) else ([], s)) in
      case lex_int s1 of
        None \<Rightarrow> None
      | Some (ip, s2) \<Rightarrow> (case lex_frac s2 of (fp, s3) \<Rightarrow> (case lex_exp s3 of (ep, s4) \<Rightarrow>
          Some (sg @ ip @ fp @ ep, fp \<noteq> [] \<or> ep \<noteq> [], s4))))"

definition scan_number :: "'f env \<Rightarrow> ustr \<Rightarrow> exc + 'f json \<times> ustr" where
  "scan_number env s = (case lex_number s of
      None \<Rightarrow> Inl BuiltinValueError
    | Some (t, is_float, r) \<Rightarrow>
        if is_float then map_sumE (\<lambda>f. (JFloat f, r)) (e_float_text env t)
        else map_sumE (\<lambda>i. (JInt i, r)) (py_int (map char_of t)))"

text \<open>A constant word at the start of the text.\<close>

definition after_word :: "string \<Rightarrow> ustr \<Rightarrow> ustr option" where
  "after_word w s = (if take (length w) s = u w then Some (drop (length w) s) else None)"

definition scan_atom :: "'f env \<Rightarrow> ustr \<Rightarrow> exc + 'f json \<times> ustr" where
  "scan_atom env s =
     (case after_word ''null'' s of Some r \<Rightarrow> Inr (JNull, r) | None \<Rightarrow>
     (case after_word ''true'' s of Some r \<Rightarrow> Inr (JBool True, r) | None \<Rightarrow>
     (case after_word ''false'' s of Some r \<Rightarrow> Inr (JBool False, r) | None \<Rightarrow>
     (case after_word ''NaN'' s of Some r \<Rightarrow> map_sumE (\<lambda>f. (JFloat f, r)) (e_float_text env (u ''nan'')) | None \<Rightarrow>
     (case after_word ''Infinity'' s of Some r \<Rightarrow> map_sumE (\<lambda>f. (JFloat f, r)) (e_float_text env (u ''inf'')) | None \<Rightarrow>
     (case after_word ''-Infinity'' s of Some r \<Rightarrow> map_sumE (\<lambda>f. (JFloat f, r)) (e_float_text env (u ''-inf'')) | None \<Rightarrow>
      scan_number env s))))))"

text \<open>A value at the start of the text. \<open>scan_items\<close> and \<open>scan_members\<close> read what is left of an array or object
  with at least one entry; every entry takes a character, so the length of the text bounds their loops.\<close>

fun scan_value :: "'f env \<Rightarrow> nat \<Rightarrow> ustr \<Rightarrow> exc + 'f json \<times> ustr"
  and scan_items :: "'f env \<Rightarrow> nat \<Rightarrow> nat \<Rightarrow> ustr \<Rightarrow> exc + 'f json list \<times> ustr"
  and scan_members :: "'f env \<Rightarrow> nat \<Rightarrow> nat \<Rightarrow> (ustr \<times> 'f json) list \<Rightarrow> ustr \<Rightarrow> exc + (ustr \<times> 'f json) list \<times> ustr" where
  "scan_value env depth [] = Inl BuiltinValueError"
| "scan_value env depth (c # s) =
     (if c = 34 then map_sumE (\<lambda>(t, r). (JStr t, r)) (scan_string s)
      else if c = 91 then
        (case depth of 0 \<Rightarrow> Inl BuiltinRecursionError
         | Suc d \<Rightarrow>
             (case skip_ws s of
                x # r \<Rightarrow> if x = 93 then Inr (JList [], r)
                         else map_sumE (\<lambda>(xs, r). (JList xs, r)) (scan_items env d (length s) (x # r))
              | [] \<Rightarrow> Inl BuiltinValueError))
      else if c = 123 then
        (case depth of 0 \<Rightarrow> Inl BuiltinRecursionError
         | Suc d \<Rightarrow>
             (case skip_ws s of
                x # r \<Rightarrow> if x = 125 then Inr (JDict [], r)
                         else map_sumE (\<lambda>(kvs, r). (JDict kvs, r)) (scan_members env d (length s) [] (x # r))
              | [] \<Rightarrow> Inl BuiltinValueError))
      else scan_atom env (c # s))"
| "scan_items env depth 0 s = Inl BuiltinValueError"
| "scan_items env depth (Suc n) s =
     (case scan_value env depth s of
        Inl e \<Rightarrow> Inl e
      | Inr (x, s1) \<Rightarrow>
          (case skip_ws s1 of
             [] \<Rightarrow> Inl BuiltinValueError
           | c # s2 \<Rightarrow>
               if c = 93 then Inr ([x], s2)
               else if c = 44 then map_sumE (\<lambda>(xs, r). (x # xs, r)) (scan_items env depth n (skip_ws s2))
               else Inl BuiltinValueError))"
| "scan_members env depth 0 d s = Inl BuiltinValueError"
| "scan_members env depth (Suc n) d s =
     (case s of
        [] \<Rightarrow> Inl BuiltinValueError
      | q # s0 \<Rightarrow>
          if q \<noteq> 34 then Inl BuiltinValueError
          else (case scan_string s0 of
             Inl e \<Rightarrow> Inl e
           | Inr (k, s1) \<Rightarrow>
               (case skip_ws s1 of
                  [] \<Rightarrow> Inl BuiltinValueError
                | c # s2 \<Rightarrow>
                    if c \<noteq> 58 then Inl BuiltinValueError
                    else (case scan_value env depth (skip_ws s2) of
                       Inl e \<Rightarrow> Inl e
                     | Inr (v, s3) \<Rightarrow>
                         (case skip_ws s3 of
                            [] \<Rightarrow> Inl BuiltinValueError
                          | e # s4 \<Rightarrow>
                              if e = 125 then Inr (dict_put k v d, s4)
                              else if e = 44 then scan_members env depth n (dict_put k v d) (skip_ws s4)
                              else Inl BuiltinValueError)))))"

text \<open>A text with a byte order mark is refused; nothing but blanks may follow the value.\<close>

definition json_loads :: "'f env \<Rightarrow> nat \<Rightarrow> ustr \<Rightarrow> exc + 'f json" where
  "json_loads env depth s =
     (if take 1 s = [65279] then Inl BuiltinValueError
      else bind_sum (scan_value env depth (skip_ws s)) (\<lambda>(v, r).
        if skip_ws r = [] then Inr v else Inl BuiltinValueError))"

section \<open>Which values are written and read back\<close>

text \<open>Text without surrogates; a number as \<open>repr\<close> of a finite \<open>float\<close> writes it, with a fraction or an exponent, or
  one of the three words for the others.\<close>

definition text_ok :: "ustr \<Rightarrow> bool" where
  "text_ok s \<longleftrightarrow> (\<forall>c \<in> set s. c < 55296 \<or> (57343 < c \<and> c < 1114112))"

definition float_ok :: "'f env \<Rightarrow> 'f \<Rightarrow> bool" where
  "float_ok env f \<longleftrightarrow> e_float_text env (e_str env f) = Inr f \<and>
     (e_str env f \<in> {u ''nan'', u ''inf'', u ''-inf''} \<or> lex_number (e_str env f) = Some (e_str env f, True, []))"

fun json_ok :: "'f env \<Rightarrow> 'f json \<Rightarrow> bool" where
  "json_ok env (JFloat f) = float_ok env f"
| "json_ok env (JStr s) = text_ok s"
| "json_ok env (JList xs) = list_all (json_ok env) xs"
| "json_ok env (JDict kvs) = (distinct (map fst kvs) \<and> list_all (\<lambda>kv. text_ok (fst kv) \<and> json_ok env (snd kv)) kvs)"
| "json_ok env _ = True"

section \<open>Strings\<close>

lemma unhex_digit: "d < 16 \<Longrightarrow> unhex (if d < 10 then 48 + d else 87 + d) = Some d"
  by (auto simp: unhex_def)

lemma unhex4_hex4: "n < 65536 \<Longrightarrow> unhex4 (hex4 n @ r) = Some (n, r)"
proof -
  assume n: "n < 65536"
  have "n div 4096 < 16" using n by (simp add: less_mult_imp_div_less)
  moreover have "n div 4096 * 4096 + n div 256 mod 16 * 256 + n div 16 mod 16 * 16 + n mod 16 = n"
  proof -
    have "n div 256 = n div 4096 * 16 + n div 256 mod 16"
      using div_mult_mod_eq [of "n div 256" 16] by (simp add: div_mult2_eq [symmetric])
    moreover have "n div 16 = n div 256 * 16 + n div 16 mod 16"
      using div_mult_mod_eq [of "n div 16" 16] by (simp add: div_mult2_eq [symmetric])
    moreover have "n = n div 16 * 16 + n mod 16" by simp
    ultimately show ?thesis by linarith
  qed
  ultimately show ?thesis by (simp add: hex4_def unhex_digit del: if_split)
qed

lemma scan_escaped:
  assumes "c < 55296 \<or> (57343 < c \<and> c < 1114112)"
  shows "scan_string (escape_char c @ r) = map_sumE (\<lambda>(t, r). (c # t, r)) (scan_string r)"
proof -
  consider "c \<in> {34, 92, 10, 13, 9, 12, 8}" | "c \<notin> {34, 92, 10, 13, 9, 12, 8}" "32 \<le> c" "c \<le> 126"
    | "c \<notin> {34, 92, 10, 13, 9, 12, 8}" "\<not> (32 \<le> c \<and> c \<le> 126)" "c < 65536" | "65536 \<le> c" by linarith
  then show ?thesis
  proof cases
    case 1
    then show ?thesis by (auto simp: escape_char_def unescape_def)
  next
    case 2
    then show ?thesis by (simp add: escape_char_def)
  next
    case 3
    have "join_surrogate c r = Inr (c, r)" using assms by (auto simp: join_surrogate_def)
    then show ?thesis using 3 unhex4_hex4 [of c r] by (simp add: escape_char_def)
  next
    case 4
    let ?hi = "55296 + (c - 65536) div 1024" and ?lo = "56320 + (c - 65536) mod 1024"
    have "(c - 65536) div 1024 < 1024" using assms 4 by (simp add: less_mult_imp_div_less)
    then have hi: "?hi \<le> 56319" by simp
    have lo: "?lo \<le> 57343" using mod_less_divisor [of 1024 "c - 65536"] by simp
    have "join_surrogate ?hi ([92, 117] @ hex4 ?lo @ r) = Inr (65536 + (?hi - 55296) * 1024 + (?lo - 56320), r)"
      using hi lo unhex4_hex4 [of ?lo r] by (simp add: join_surrogate_def)
    moreover have "65536 + (?hi - 55296) * 1024 + (?lo - 56320) = c"
      using 4 div_mult_mod_eq [of "c - 65536" 1024] by simp
    ultimately show ?thesis
      using 4 hi unhex4_hex4 [of ?hi "[92, 117] @ hex4 ?lo @ r"] by (simp add: escape_char_def)
  qed
qed

lemma scan_quoted: "text_ok s \<Longrightarrow> scan_string (concat (map escape_char s) @ 34 # r) = Inr (s, r)"
  by (induction s) (auto simp: text_ok_def scan_escaped)

section \<open>Numbers\<close>

text \<open>What follows a value does not continue a number.\<close>

definition number_ends :: "ustr \<Rightarrow> bool" where
  "number_ends r \<longleftrightarrow> (case r of [] \<Rightarrow> True | c # _ \<Rightarrow> \<not> dig c \<and> c \<noteq> 46 \<and> c \<noteq> 69 \<and> c \<noteq> 101 \<and> c \<noteq> 43 \<and> c \<noteq> 45)"

lemma number_ends_dig:
  "number_ends r \<Longrightarrow> takeWhile dig (s @ r) = takeWhile dig s"
  "number_ends r \<Longrightarrow> dropWhile dig (s @ r) = dropWhile dig s @ r"
  by (induction s) (auto simp: number_ends_def split: list.splits)

lemma lex_int_append:
  "lex_int s = Some (t, s') \<Longrightarrow> number_ends r \<Longrightarrow> lex_int (s @ r) = Some (t, s' @ r)"
  using number_ends_dig [of r] by (cases s) (auto simp: lex_int_def split: if_splits)

lemma lex_exp_Nil: "number_ends r \<Longrightarrow> lex_exp r = ([], r)"
  by (cases r) (auto simp: lex_exp_def number_ends_def Let_def split: prod.split)

lemma lex_frac_Nil: "number_ends r \<Longrightarrow> lex_frac r = ([], r)"
  by (cases r) (auto simp: lex_frac_def number_ends_def split: list.split)

lemma lex_number_int:
  assumes "lex_int t = Some (t, [])" and "number_ends r" and "sg = [] \<and> hd t \<noteq> 45 \<or> sg = [45]"
  shows "lex_number (sg @ t @ r) = Some (sg @ t, False, r)"
proof -
  obtain c t' where "t = c # t'" using assms(1) by (cases t) (auto simp: lex_int_def)
  then show ?thesis
    using lex_int_append [OF assms(1,2)] assms(3) lex_frac_Nil [OF assms(2)] lex_exp_Nil [OF assms(2)]
    by (auto simp: lex_number_def)
qed

lemma lex_frac_append:
  "number_ends r \<Longrightarrow> lex_frac (s @ r) = (fst (lex_frac s), snd (lex_frac s) @ r)"
  using number_ends_dig [of r "tl s"] lex_frac_Nil [of r]
  by (cases s; cases "tl s"; cases r) (auto simp: lex_frac_def number_ends_def)

lemma lex_exp_append:
  assumes "number_ends r"
  shows "lex_exp (s @ r) = (fst (lex_exp s), snd (lex_exp s) @ r)"
proof -
  have r: "takeWhile dig r = []" "\<And>c x. r = c # x \<Longrightarrow> c \<noteq> 43 \<and> c \<noteq> 45"
    using assms by (auto simp: number_ends_def split: list.splits)
  consider "s = []" | c where "s = [c]" | c d s' where "s = c # d # s'"
    by (cases s rule: remdups_adj.cases) auto
  then show ?thesis
  proof cases
    case 1
    then show ?thesis using lex_exp_Nil [OF assms] by (simp add: lex_exp_def)
  next
    case 2
    then show ?thesis using r by (cases r) (auto simp: lex_exp_def Let_def)
  next
    case 3
    then show ?thesis
      using number_ends_dig [OF assms, of s'] number_ends_dig [OF assms, of "d # s'"]
      by (auto simp: lex_exp_def Let_def)
  qed
qed

lemma lex_number_append:
  assumes "lex_number t = Some (t', b, s)" and "number_ends r"
  shows "lex_number (t @ r) = Some (t', b, s @ r)"
proof (cases t)
  case Nil
  then show ?thesis using assms(1) by (simp add: lex_number_def lex_int_def)
next
  case (Cons c t0)
  let ?s1 = "if c = 45 then t0 else t"
  obtain ip s2 where ip: "lex_int ?s1 = Some (ip, s2)"
    using assms(1) Cons by (cases "lex_int ?s1") (auto simp: lex_number_def split: if_splits)
  then have "lex_int (?s1 @ r) = Some (ip, s2 @ r)" by (rule lex_int_append [OF _ assms(2)])
  moreover have "lex_frac (s2 @ r) = (fst (lex_frac s2), snd (lex_frac s2) @ r)"
    "lex_exp (snd (lex_frac s2) @ r) = (fst (lex_exp (snd (lex_frac s2))), snd (lex_exp (snd (lex_frac s2))) @ r)"
    by (rule lex_frac_append [OF assms(2)], rule lex_exp_append [OF assms(2)])
  ultimately show ?thesis
    using ip assms(1) Cons by (cases "c = 45") (auto simp: lex_number_def split: prod.splits)
qed

lemma dec_leading: "dec n = c # cs \<Longrightarrow> c = CHR ''0'' \<Longrightarrow> cs = []"
proof (induction n arbitrary: c cs rule: dec.induct)
  case (1 n)
  show ?case
  proof (cases "n < 10")
    case True
    then show ?thesis using 1(2) by (simp add: dec_small)
  next
    case False
    then have step: "dec n = dec (n div 10) @ [digit_char (n mod 10)]" by (simp add: dec_step)
    obtain d ds where d: "dec (n div 10) = d # ds" by (cases "dec (n div 10)") auto
    then have "d = c" using step 1(2) by simp
    then have "ds = []" using 1(1) [OF False d] 1(3) by simp
    then have "n div 10 = digit_val c" using d \<open>d = c\<close> digits_value_dec [of "n div 10"] by simp
    then show ?thesis using 1(3) False by (simp add: digit_val_def)
  qed
qed

lemma lex_int_dec: "lex_int (map of_char (dec n)) = Some (map of_char (dec n), [])"
proof (cases "dec n")
  case Nil
  then show ?thesis by simp
next
  case (Cons c cs)
  have "dig (of_char x)" if "x \<in> set (dec n)" for x
    using dec_digits [OF that] by (simp add: dig_def is_digit_def)
  then have all: "takeWhile dig (map of_char (dec n)) = map of_char (dec n)" "dropWhile dig (map of_char (dec n)) = []"
    by (auto simp: takeWhile_eq_all_conv dropWhile_eq_Nil_conv)
  show ?thesis
  proof (cases "c = CHR ''0''")
    case True
    then show ?thesis using dec_leading [OF Cons] Cons by (simp add: lex_int_def)
  next
    case False
    have "(of_char c :: nat) \<noteq> of_char CHR ''0''" using False by (subst of_char_eq_iff)
    then have "(of_char c :: nat) \<noteq> 48" by simp
    moreover have "dig (of_char c)" using dec_Cons_digit [OF Cons] by (simp add: dig_def is_digit_def)
    ultimately have "lex_int (of_char c # map of_char cs) =
        Some (takeWhile dig (of_char c # map of_char cs), dropWhile dig (of_char c # map of_char cs))"
      by (simp only: lex_int_def list.case if_True if_False simp_thms)
    then show ?thesis using all unfolding Cons by simp
  qed
qed

lemma scan_number_int: "number_ends r \<Longrightarrow> scan_number env (u (py_str_int i) @ r) = Inr (JInt i, r)"
proof -
  assume r: "number_ends r"
  have dec: "lex_number (map of_char (dec n)) = Some (map of_char (dec n), False, [])"
    "lex_number (45 # map of_char (dec n)) = Some (45 # map of_char (dec n), False, [])" for n
  proof -
    have "hd (map of_char (dec n)) \<noteq> (45 :: nat)"
      using dec_digits [of "hd (dec n)" n] by (simp add: hd_map is_digit_def)
    then show "lex_number (map of_char (dec n)) = Some (map of_char (dec n), False, [])"
      using lex_number_int [OF lex_int_dec [of n], of "[]" "[]"] by (simp add: number_ends_def)
    show "lex_number (45 # map of_char (dec n)) = Some (45 # map of_char (dec n), False, [])"
      using lex_number_int [OF lex_int_dec [of n], of "[]" "[45]"] by (simp add: number_ends_def)
  qed
  have "lex_number (u (py_str_int i)) = Some (u (py_str_int i), False, [])"
    using dec by (simp add: u_def py_str_int_def)
  from lex_number_append [OF this r] show ?thesis
    by (simp add: scan_number_def u_def map_char_of_of_char del: map_map)
qed

section \<open>Values\<close>

text \<open>A text that starts with a number starts with a digit, or a minus sign and a digit.\<close>

lemma lex_number_start:
  assumes "lex_number s = Some x"
  shows "\<exists>c t. s = c # t \<and> (dig c \<or> (c = 45 \<and> (\<exists>d t'. t = d # t' \<and> dig d)))"
proof -
  have int: "\<exists>c t. s' = c # t \<and> dig c" if "lex_int s' = Some y" for s' y
    using that by (cases s') (auto simp: lex_int_def dig_def split: if_splits)
  show ?thesis
  proof (cases s)
    case Nil
    then show ?thesis using assms by (simp add: lex_number_def lex_int_def)
  next
    case (Cons c t)
    then show ?thesis
      using assms int [of "if c = 45 then t else s"]
      by (cases "lex_int (if c = 45 then t else s)") (auto simp: lex_number_def split: if_splits)
  qed
qed

lemma after_word_None: "s = c # t \<Longrightarrow> c \<noteq> of_char a \<Longrightarrow> after_word (a # w) s = None"
  by (simp add: after_word_def u_def)

lemma after_word_None2: "s = c # d # t \<Longrightarrow> d \<noteq> of_char b \<Longrightarrow> after_word (a # b # w) s = None"
  by (simp add: after_word_def u_def)

lemma scan_value_number:
  assumes "lex_number s = Some x"
  shows "scan_value env depth s = scan_number env s"
proof -
  obtain c t where c: "s = c # t" "dig c \<or> (c = 45 \<and> (\<exists>d t'. t = d # t' \<and> dig d))"
    using lex_number_start [OF assms] by blast
  then have "c \<noteq> 34" "c \<noteq> 91" "c \<noteq> 123" "c \<noteq> 110" "c \<noteq> 116" "c \<noteq> 102" "c \<noteq> 78" "c \<noteq> 73"
    by (auto simp: dig_def)
  moreover have "after_word ''-Infinity'' s = None"
  proof (cases "c = 45")
    case True
    then obtain d t' where "s = c # d # t'" "d \<noteq> 73" using c by (auto simp: dig_def)
    then show ?thesis by (simp add: after_word_None2)
  next
    case False
    then show ?thesis using c(1) by (simp add: after_word_None)
  qed
  ultimately show ?thesis
    using c(1) by (simp add: scan_atom_def after_word_None [OF refl])
qed

lemma scan_value_int: "number_ends r \<Longrightarrow> scan_value env depth (u (py_str_int i) @ r) = Inr (JInt i, r)"
proof -
  assume r: "number_ends r"
  have "\<exists>x. lex_number (u (py_str_int i) @ r) = Some x"
    using scan_number_int [OF r, of undefined i] by (auto simp: scan_number_def split: option.splits)
  then show ?thesis using scan_value_number scan_number_int [OF r] by metis
qed

lemma scan_value_float:
  assumes "float_ok env f" and "number_ends r"
  shows "scan_value env depth (float_json env f @ r) = Inr (JFloat f, r)"
proof -
  have read: "e_float_text env (e_str env f) = Inr f" using assms(1) by (simp add: float_ok_def)
  consider "e_str env f = u ''nan''" | "e_str env f = u ''inf''" | "e_str env f = u ''-inf''"
    | "e_str env f \<notin> {u ''nan'', u ''inf'', u ''-inf''}" "lex_number (e_str env f) = Some (e_str env f, True, [])"
    using assms(1) by (auto simp: float_ok_def)
  then show ?thesis
  proof cases
    case 4
    then have lex: "lex_number (e_str env f @ r) = Some (e_str env f, True, r)"
      using lex_number_append [OF _ assms(2)] by fastforce
    have "float_json env f = e_str env f" using 4(1) by (simp add: float_json_def)
    then show ?thesis using scan_value_number [OF lex, of env depth] lex read by (simp add: scan_number_def)
  qed (use read in \<open>simp_all add: float_json_def scan_atom_def after_word_def u_def\<close>)
qed

lemma render_start:
  assumes "json_ok env v"
  shows "\<exists>c t. render env v = c # t \<and> \<not> json_space c \<and> c \<noteq> 93"
proof (cases v)
  case (JInt i)
  have "\<exists>x. lex_number (u (py_str_int i)) = Some x"
    using scan_number_int [of "[]" undefined i] by (auto simp: scan_number_def number_ends_def split: option.splits)
  then show ?thesis using JInt lex_number_start by (fastforce simp: dig_def json_space_def)
next
  case (JFloat f)
  then show ?thesis
    using assms lex_number_start [of "e_str env f"]
    by (fastforce simp: float_ok_def float_json_def dig_def json_space_def u_def)
qed (auto simp: json_space_def quoted_def u_def)

lemma skip_ws_start: "\<not> json_space c \<Longrightarrow> skip_ws (c # t) = c # t"
  by (simp add: skip_ws_def)

lemma skip_ws_render: "json_ok env v \<Longrightarrow> skip_ws (render env v @ r) = render env v @ r"
  using render_start [of env v] by (auto simp: skip_ws_def)

lemma skip_ws_blank [simp]: "skip_ws (32 # s) = skip_ws s"
  by (simp add: skip_ws_def json_space_def)

lemma skip_ws_mark [simp]:
  "skip_ws (44 # s) = 44 # s" "skip_ws (93 # s) = 93 # s" "skip_ws (125 # s) = 125 # s" "skip_ws (58 # s) = 58 # s"
  "skip_ws (34 # s) = 34 # s" "skip_ws [] = []"
  by (simp_all add: skip_ws_def json_space_def)

lemma number_ends_mark [simp]: "number_ends (44 # s)" "number_ends (93 # s)" "number_ends (125 # s)" "number_ends []"
  by (simp_all add: number_ends_def dig_def)

lemma commas_Cons: "commas (x # xs) = x @ (if xs = [] then [] else [44, 32] @ commas xs)"
  by (cases xs) auto

lemma scan_items_render:
  assumes "xs \<noteq> []" and "length xs \<le> n" and "\<And>x. x \<in> set xs \<Longrightarrow> json_ok env x"
    and "\<And>x r. x \<in> set xs \<Longrightarrow> number_ends r \<Longrightarrow> scan_value env d (render env x @ r) = Inr (x, r)"
  shows "scan_items env d n (commas (map (render env) xs) @ 93 # r) = Inr (xs, r)"
  using assms
proof (induction xs arbitrary: n)
  case Nil
  then show ?case by simp
next
  case (Cons x xs)
  then obtain m where m: "n = Suc m" by (cases n) auto
  show ?case
  proof (cases "xs = []")
    case True
    then show ?thesis using m Cons.prems(4) by simp
  next
    case False
    have "skip_ws (commas (map (render env) xs) @ 93 # r) = commas (map (render env) xs) @ 93 # r"
      using False Cons.prems(3) by (cases xs) (simp_all add: commas_Cons skip_ws_render)
    then show ?thesis
      using False m Cons by (simp add: commas_Cons)
  qed
qed

lemma dict_put_new: "k \<notin> fst ` set d \<Longrightarrow> dict_put k v d = d @ [(k, v)]"
  by (induction d) auto

lemma scan_members_render:
  assumes "kvs \<noteq> []" and "length kvs \<le> n" and "distinct (map fst (d0 @ kvs))"
    and "\<And>k v. (k, v) \<in> set kvs \<Longrightarrow> text_ok k \<and> json_ok env v"
    and "\<And>k v r. (k, v) \<in> set kvs \<Longrightarrow> number_ends r \<Longrightarrow> scan_value env d (render env v @ r) = Inr (v, r)"
  shows "scan_members env d n d0 (commas (map (\<lambda>kv. quoted (fst kv) @ [58, 32] @ render env (snd kv)) kvs) @ 125 # r) =
    Inr (d0 @ kvs, r)"
  using assms
proof (induction kvs arbitrary: n d0)
  case Nil
  then show ?case by simp
next
  case (Cons kv kvs)
  obtain k v where kv: "kv = (k, v)" by (cases kv)
  obtain m where m: "n = Suc m" using Cons.prems(2) by (cases n) auto
  have put: "dict_put k v d0 = d0 @ [(k, v)]" using Cons.prems(3) kv by (simp add: dict_put_new)
  have ok: "text_ok k" "json_ok env v" using Cons.prems(4) kv by auto
  have read: "scan_value env d (render env v @ r') = Inr (v, r')" if "number_ends r'" for r'
    using Cons.prems(5) [of k v r'] kv that by simp
  show ?case
  proof (cases "kvs = []")
    case True
    then show ?thesis using m kv put ok read by (simp add: quoted_def scan_quoted skip_ws_render)
  next
    case False
    let ?rest = "commas (map (\<lambda>kv. quoted (fst kv) @ [58, 32] @ render env (snd kv)) kvs) @ 125 # r"
    have "skip_ws ?rest = ?rest" using False by (cases kvs) (simp_all add: commas_Cons quoted_def)
    moreover have "scan_members env d m (d0 @ [(k, v)]) ?rest = Inr ((d0 @ [(k, v)]) @ kvs, r)"
    proof (rule Cons.IH [OF False])
      show "scan_value env d (render env v' @ r') = Inr (v', r')" if "(k', v') \<in> set kvs" "number_ends r'" for k' v' r'
        using Cons.prems(5) [of k' v' r'] that by simp
    qed (use Cons.prems m kv in auto)
    ultimately show ?thesis using False m kv put ok read
      by (simp add: commas_Cons quoted_def scan_quoted skip_ws_render)
  qed
qed

lemma length_commas: "list_all (\<lambda>x. x \<noteq> []) xs \<Longrightarrow> length xs \<le> length (commas xs)"
proof (induction xs rule: commas.induct)
  case (3 x y ys)
  then have "x \<noteq> []" by simp
  then have "1 \<le> length x" by (cases x) auto
  then show ?case using 3 by simp
qed (auto simp: Suc_leI)

lemma foldr_max_le: "x \<in> set xs \<Longrightarrow> f x \<le> foldr (\<lambda>x m. max (f x) m) xs (0 :: nat)"
  by (induction xs) auto

lemma scan_value_render:
  "json_ok env v \<Longrightarrow> json_depth v \<le> d \<Longrightarrow> number_ends r \<Longrightarrow> scan_value env d (render env v @ r) = Inr (v, r)"
proof (induction v arbitrary: d r)
  case (JList xs)
  obtain e where d: "d = Suc e" using JList.prems(2) by (cases d) auto
  have each: "json_ok env x" "json_depth x \<le> e" if "x \<in> set xs" for x
    using that JList.prems d foldr_max_le [of x xs json_depth] by (auto simp: list_all_iff)
  show ?case
  proof (cases "xs = []")
    case True
    then show ?thesis using d by simp
  next
    case False
    let ?s = "commas (map (render env) xs) @ 93 # r"
    have "list_all (\<lambda>x. x \<noteq> []) (map (render env) xs)"
      using each(1) render_start by (fastforce simp: list_all_iff)
    then have "length xs \<le> length ?s" using length_commas [of "map (render env) xs"] by simp
    then have "scan_items env e (length ?s) ?s = Inr (xs, r)"
      using False each JList.IH by (intro scan_items_render) auto
    moreover obtain c t where "?s = c # t" "\<not> json_space c" "c \<noteq> 93"
      using False each(1) render_start [of env "hd xs"] by (cases xs) (auto simp: commas_Cons)
    ultimately show ?thesis using d by (simp add: skip_ws_start del: scan_members.simps scan_items.simps)
  qed
next
  case (JDict kvs)
  obtain e where d: "d = Suc e" using JDict.prems(2) by (cases d) auto
  have each: "text_ok k" "json_ok env v" "json_depth v \<le> e" if "(k, v) \<in> set kvs" for k v
    using that JDict.prems d foldr_max_le [of "(k, v)" kvs "\<lambda>kv. json_depth (snd kv)"] by (auto simp: list_all_iff)
  show ?case
  proof (cases "kvs = []")
    case True
    then show ?thesis using d by simp
  next
    case False
    let ?m = "\<lambda>kv. quoted (fst kv) @ [58, 32] @ render env (snd kv)"
    let ?s = "commas (map ?m kvs) @ 125 # r"
    obtain t where s: "?s = 34 # t" using False by (cases kvs) (auto simp: commas_Cons quoted_def)
    have "length kvs \<le> length ?s"
      using length_commas [of "map ?m kvs"] by (simp add: quoted_def list_all_iff)
    then have "scan_members env e (length ?s) [] ?s = Inr ([] @ kvs, r)"
      using False each JDict.IH JDict.prems(1) by (intro scan_members_render) (auto simp: snds.simps)
    then have "scan_members env e (length (34 # t)) [] (34 # t) = Inr (kvs, r)" unfolding s by simp
    then show ?thesis using d s by (simp add: skip_ws_start del: scan_members.simps scan_items.simps)
  qed
next
  case (JInt i)
  then show ?case by (simp add: scan_value_int)
next
  case (JFloat f)
  then show ?case by (simp add: scan_value_float)
next
  case (JStr s)
  then show ?case by (simp add: quoted_def scan_quoted)
qed (simp_all add: scan_atom_def after_word_def u_def)

section \<open>Theorems about JSON\<close>

text \<open>What \<open>json.dumps\<close> writes, \<open>json.loads\<close> reads back: every value whose texts hold no surrogates, whose dictionaries
  have distinct keys and whose numbers \<open>float\<close> reads back, at every nesting the recursion limit allows.\<close>

theorem json_round_trip:
  assumes "json_ok env v" and "json_dumps env depth v = Inr s"
  shows "json_loads env depth s = Inr v"
proof -
  have v: "json_depth v \<le> depth" "s = render env v" using assms(2) by (auto simp: json_dumps_def split: if_splits)
  obtain c t where c: "s = c # t" "\<not> json_space c" using render_start [OF assms(1)] v(2) by blast
  have "scan_value env depth (s @ []) = Inr (v, [])"
    unfolding v(2) by (rule scan_value_render [OF assms(1) v(1)]) simp
  moreover have "take 1 s \<noteq> [65279]"
  proof
    assume "take 1 s = [65279]"
    then have "s = 65279 # t" using c by simp
    then have "scan_value env depth s = scan_number env s"
      by (simp add: scan_atom_def after_word_None [OF refl])
    also have "\<dots> = Inl BuiltinValueError"
      using \<open>s = 65279 # t\<close> by (simp add: scan_number_def lex_number_def lex_int_def dig_def)
    finally show False using \<open>scan_value env depth (s @ []) = Inr (v, [])\<close> by simp
  qed
  ultimately show ?thesis using c by (simp add: json_loads_def skip_ws_start)
qed

end
