(* ===== verification/Kv_Store.thy ===== *)
theory Kv_Store
  imports Json Client
begin

text \<open>
  \<open>integrations/llamaindex.py\<close>: the key-value and index stores for LlamaIndex, over \<open>KacheClient\<close>. The client is the
  state; a Python value is a JSON value, \<open>None\<close> being \<open>JNull\<close>. \<open>depth\<close> is the recursion depth of the reply decoder,
  \<open>jd\<close> the nesting limit of \<open>json\<close>.
\<close>

section \<open>The stores\<close>

record kvstore =
  kv_namespace :: ustr

text \<open>\<open>client or KacheClient()\<close>: a client is never false.\<close>

definition KacheDBKVStore :: "client \<Rightarrow> client option \<Rightarrow> ustr \<Rightarrow> kvstore \<times> client" where
  "KacheDBKVStore fresh client namespace =
     (\<lparr>kv_namespace = namespace\<rparr>, case client of None \<Rightarrow> fresh | Some k \<Rightarrow> k)"

definition format_key :: "kvstore \<Rightarrow> ustr \<Rightarrow> ustr \<Rightarrow> arg" where
  "format_key kv key collection = Str (kv_namespace kv @ u '':'' @ collection @ u '':'' @ key)"

definition kv_put :: "nat \<Rightarrow> nat \<Rightarrow> 'f env \<Rightarrow> kvstore \<Rightarrow> ustr \<Rightarrow> 'f json \<Rightarrow> ustr \<Rightarrow> unit client_op" where
  "kv_put depth jd env kv key val collection =
     bindE (liftE (json_dumps env jd val)) (\<lambda>text.
     bindE (k_set depth (format_key kv key collection) (Str text) None None) (\<lambda>_. ret ()))"

text \<open>The loop of \<open>put_all\<close>; the pipeline is a local variable.\<close>

fun queue_all :: "nat \<Rightarrow> 'f env \<Rightarrow> kvstore \<Rightarrow> ustr \<Rightarrow> (ustr \<times> 'f json) list \<Rightarrow> nat pipeline \<Rightarrow> exc + nat pipeline" where
  "queue_all jd env kv collection [] pipe = Inr pipe"
| "queue_all jd env kv collection ((key, val) # kv_pairs) pipe =
     bind_sum (json_dumps env jd val) (\<lambda>text.
     queue_all jd env kv collection kv_pairs (pl_set (format_key kv key collection) (Str text) None None pipe))"

text \<open>\<open>pipe.execute()\<close> on the client's connection the pipeline holds.\<close>

definition run_pipeline :: "nat \<Rightarrow> nat pipeline \<Rightarrow> resp list client_op" where
  "run_pipeline depth pipe = on_pool (on_conn (pl_conn pipe) (\<lambda>c.
     case pl_execute depth \<lparr>pl_conn = c, pl_commands = pl_commands pipe\<rparr> of (r, p) \<Rightarrow> (r, pl_conn p)))"

definition kv_put_all :: "nat \<Rightarrow> nat \<Rightarrow> 'f env \<Rightarrow> kvstore \<Rightarrow> (ustr \<times> 'f json) list \<Rightarrow> ustr \<Rightarrow> unit client_op" where
  "kv_put_all depth jd env kv kv_pairs collection =
     bindE (client_pipeline depth) (\<lambda>pipe.
     bindE (liftE (queue_all jd env kv collection kv_pairs pipe)) (\<lambda>pipe'.
     bindE (run_pipeline depth pipe') (\<lambda>_. ret ())))"

text \<open>\<open>val.decode("utf-8") if isinstance(val, bytes) else str(val)\<close> of a reply that is not \<open>None\<close>.\<close>

definition value_text :: "'f env \<Rightarrow> resp \<Rightarrow> exc + ustr" where
  "value_text env val = (case val of RBytes b \<Rightarrow> utf8_decode b | _ \<Rightarrow> Inr (str_resp env val))"

definition kv_get :: "nat \<Rightarrow> nat \<Rightarrow> 'f env \<Rightarrow> kvstore \<Rightarrow> ustr \<Rightarrow> ustr \<Rightarrow> 'f json client_op" where
  "kv_get depth jd env kv key collection =
     bindE (k_get depth (format_key kv key collection)) (\<lambda>val.
     if val = RNone then ret JNull
     else bindE (liftE (value_text env val)) (\<lambda>text.
       ret (case json_loads env jd text of Inl _ \<Rightarrow> JNull | Inr v \<Rightarrow> v)))"

definition kv_delete :: "nat \<Rightarrow> kvstore \<Rightarrow> ustr \<Rightarrow> ustr \<Rightarrow> bool client_op" where
  "kv_delete depth kv key collection =
     bindE (k_delete depth [format_key kv key collection]) (\<lambda>n. ret (n = 1))"

text \<open>\<open>KacheDBIndexStore\<close> keeps a store of its own and uses the collection \<open>index\<close>.\<close>

definition KacheDBIndexStore :: "client \<Rightarrow> (kvstore \<times> client) option \<Rightarrow> ustr \<Rightarrow> kvstore \<times> client" where
  "KacheDBIndexStore fresh kvstore namespace =
     (case kvstore of None \<Rightarrow> KacheDBKVStore fresh None namespace | Some kv \<Rightarrow> kv)"

definition index_put :: "nat \<Rightarrow> nat \<Rightarrow> 'f env \<Rightarrow> kvstore \<Rightarrow> ustr \<Rightarrow> 'f json \<Rightarrow> unit client_op" where
  "index_put depth jd env kv index_id index_struct = kv_put depth jd env kv index_id index_struct (u ''index'')"

definition index_get :: "nat \<Rightarrow> nat \<Rightarrow> 'f env \<Rightarrow> kvstore \<Rightarrow> ustr \<Rightarrow> 'f json client_op" where
  "index_get depth jd env kv index_id = kv_get depth jd env kv index_id (u ''index'')"

definition index_delete :: "nat \<Rightarrow> kvstore \<Rightarrow> ustr \<Rightarrow> bool client_op" where
  "index_delete depth kv index_id = kv_delete depth kv index_id (u ''index'')"

section \<open>Theorems about the stores\<close>

text \<open>A command inside a \<open>with\<close> block leaves the client as it was but for the connection.\<close>

lemma in_block_again:
  assumes "k_conn k = Some i" and "i < length (p_conns (k_pool k))"
  shows "k_conn (k\<lparr>k_pool := set_conn i c (k_pool k)\<rparr>) = Some i"
    and "i < length (p_conns (k_pool (k\<lparr>k_pool := set_conn i c (k_pool k)\<rparr>)))"
    and "conn_at (k_pool (k\<lparr>k_pool := set_conn i c (k_pool k)\<rparr>)) i = c"
    and "k\<lparr>k_pool := set_conn i c (k_pool k)\<rparr>\<lparr>k_pool := set_conn i c' (k_pool (k\<lparr>k_pool := set_conn i c (k_pool k)\<rparr>))\<rparr> =
      k\<lparr>k_pool := set_conn i c' (k_pool k)\<rparr>"
  using assms by (simp_all add: set_conn_def conn_at_def)

lemma set_conn_twice [simp]: "set_conn i c (set_conn i c' p) = set_conn i c p"
  by (simp add: set_conn_def)

text \<open>A stored text is read back: the exchange of a \<open>SET\<close> with any options and the \<open>GET\<close> of the same key.\<close>

lemma set_get_exchange:
  assumes "k_conn k = Some i" and "i < length (p_conns (k_pool k))" and "conn_ready (conn_at (k_pool k) i)"
    and "conn_view (conn_at (k_pool k) i) = (resp_wire (RStr (u ''OK'')) @ resp_wire (RBytes b) @ rest, out, decoding)"
    and "utf8_encode text = Inr b"
    and "encode_command ([word ''SET'', key, Str text] @ options) = Inr w1" and "encode_command [word ''GET'', key] = Inr w2"
  shows "\<exists>k1 v c. execute (Suc d) ([word ''SET'', key, Str text] @ options) k = (Inr (RStr (u ''OK'')), k1) \<and>
    execute (Suc d) [word ''GET'', key] k1 = (Inr v, k\<lparr>k_pool := set_conn i c (k_pool k)\<rparr>) \<and>
    v \<noteq> RNone \<and> value_text env v = Inr text \<and> conn_ready c \<and> conn_view c = (rest, out @ w1 @ w2, decoding)"
proof -
  have ok: "decode_reply decoding (RStr (u ''OK'')) = Inr (RStr (u ''OK''))" by (simp add: decode_reply_def)
  have "reply_ok (RStr (u ''OK''))" by code_simp
  then obtain c1 where c1: "execute (Suc d) ([word ''SET'', key, Str text] @ options) k =
        (Inr (RStr (u ''OK'')), k\<lparr>k_pool := set_conn i c1 (k_pool k)\<rparr>)"
      "conn_ready c1" "conn_view c1 = (resp_wire (RBytes b) @ rest, out @ w1, decoding)"
    using dedicated_command [OF assms(1-4) _ _ assms(6) ok, of "Suc d"] by auto
  let ?k1 = "k\<lparr>k_pool := set_conn i c1 (k_pool k)\<rparr>"
  note again = in_block_again [OF assms(1,2), of c1]
  obtain v where v: "decode_reply decoding (RBytes b) = Inr v" "v \<noteq> RNone" "value_text env v = Inr text"
    using utf8_decode_encode [OF assms(5)] by (cases decoding) (auto simp: decode_reply_def value_text_def str_resp_def)
  obtain c2 where c2: "execute (Suc d) [word ''GET'', key] ?k1 = (Inr v, k\<lparr>k_pool := set_conn i c2 (k_pool k)\<rparr>)"
      "conn_ready c2" "conn_view c2 = (rest, (out @ w1) @ w2, decoding)"
    using dedicated_command [OF again(1,2) _ _ _ _ assms(7) v(1), of rest "out @ w1" "Suc d"] c1(2,3)
    unfolding again(3,4) by auto
  then show ?thesis using c1(1) v(2,3) by auto
qed

text \<open>C25: What \<open>put\<close> stores, \<open>get\<close> reads back: inside a \<open>with\<close> block, \<open>put\<close> sends \<open>SET\<close> with the JSON text of the value, and
  when the server answers the \<open>GET\<close> of the same key with the bytes of that text, \<open>get\<close> returns the value. The
  connection has sent exactly the two commands and consumed exactly the two replies.\<close>

theorem put_get_round_trip:
  assumes "k_conn k = Some i" and "i < length (p_conns (k_pool k))" and "conn_ready (conn_at (k_pool k) i)"
    and "conn_view (conn_at (k_pool k) i) = (resp_wire (RStr (u ''OK'')) @ resp_wire (RBytes b) @ rest, out, decoding)"
    and "json_ok env val" and "json_dumps env jd val = Inr text" and "utf8_encode text = Inr b"
    and "encode_command [word ''SET'', format_key kv key collection, Str text] = Inr w1"
    and "encode_command [word ''GET'', format_key kv key collection] = Inr w2"
  shows "\<exists>k1 c. kv_put (Suc d) jd env kv key val collection k = (Inr (), k1) \<and>
    kv_get (Suc d) jd env kv key collection k1 = (Inr val, k\<lparr>k_pool := set_conn i c (k_pool k)\<rparr>) \<and>
    conn_ready c \<and> conn_view c = (rest, out @ w1 @ w2, decoding)"
proof -
  have "\<exists>k1 v c. execute (Suc d) ([word ''SET'', format_key kv key collection, Str text] @ []) k = (Inr (RStr (u ''OK'')), k1) \<and>
      execute (Suc d) [word ''GET'', format_key kv key collection] k1 = (Inr v, k\<lparr>k_pool := set_conn i c (k_pool k)\<rparr>) \<and>
      v \<noteq> RNone \<and> value_text env v = Inr text \<and> conn_ready c \<and> conn_view c = (rest, out @ w1 @ w2, decoding)"
    by (rule set_get_exchange [OF assms(1-4,7)]) (use assms(8,9) in simp_all)
  then show ?thesis
    using assms(6) json_round_trip [OF assms(5,6)]
    by (fastforce simp: kv_put_def kv_get_def k_set_def k_get_def bindE_run)
qed

lemma queue_all_conn: "queue_all jd env kv collection kvs pipe = Inr pipe' \<Longrightarrow> pl_conn pipe' = pl_conn pipe"
  by (induction kvs arbitrary: pipe)
    (auto simp: pl_set_def pl_queue_def bind_sum_def split: sum.splits option.splits)

text \<open>Outside a \<open>with\<close> block \<open>put_all\<close> loses a connection of the pool for good: whenever it gets one, and however it
  ends, one more slot is in use than before.\<close>

theorem put_all_loses_connection:
  assumes "k_conn k = None" and "get_connection depth (k_pool k) = (Inr i, p)"
    and "kv_put_all depth jd env kv kv_pairs collection k = (r, k')"
  shows "k_conn k' = None \<and> spare (k_pool k') = spare (k_pool k) + 1"
proof -
  have p: "spare p = spare (k_pool k) + 1"
    using hoare_Inr [OF spare_get_connection _ assms(2)] by blast
  have got: "client_pipeline depth k = (Inr \<lparr>pl_conn = i, pl_commands = []\<rparr>, k\<lparr>k_pool := p\<rparr>)"
    using assms(1,2) by (simp add: client_pipeline_def get_conn_def bindE_run on_pool_def)
  have run: "k_conn k2 = k_conn k1 \<and> spare (k_pool k2) = spare (k_pool k1)"
    if "run_pipeline depth pipe k1 = (x, k2)" for pipe k1 x k2
    using that by (auto simp: run_pipeline_def on_pool_def on_conn_def set_conn_def spare_def split: prod.splits)
  show ?thesis
    using assms(1,3) got p
    by (auto simp: kv_put_all_def bindE_run dest!: run split: sum.splits prod.splits)
qed

section \<open>Witnesses\<close>

definition data_store :: kvstore where
  "data_store = \<lparr>kv_namespace = u ''n''\<rparr>"

lemma put_get_round_trip_witness:
  "\<exists>k1 k2. kv_put 1 1 plain_env data_store (u ''a'') (JDict [(u ''x'', JInt 7)]) (u ''data'')
      (in_block \<lparr>rx = [Data (''+OK'' @ crlf @ ''$8'' @ crlf @ [CHR 0x7B, CHR 0x22] @ ''x'' @ [CHR 0x22] @ '': 7}'' @ crlf)], tx = [], sent = []\<rparr>) =
      (Inr (), k1) \<and>
    kv_get 1 1 plain_env data_store (u ''a'') (u ''data'') k1 = (Inr (JDict [(u ''x'', JInt 7)]), k2)"
proof -
  let ?b = "[CHR 0x7B, CHR 0x22] @ ''x'' @ [CHR 0x22] @ '': 7}''"
  let ?s = "\<lparr>rx = [Data (''+OK'' @ crlf @ ''$8'' @ crlf @ ?b @ crlf)], tx = [], sent = []\<rparr>"
  let ?v = "JDict [(u ''x'', JInt 7)] :: nat json"
  have at: "conn_at (k_pool (in_block ?s)) 0 = local_connection (Some ?s)"
    by (simp add: in_block_def conn_at_def)
  have ready: "conn_ready (local_connection (Some ?s))" by code_simp
  have view: "conn_view (local_connection (Some ?s)) =
      (resp_wire (RStr (u ''OK'')) @ resp_wire (RBytes ?b) @ [], [], False)" by code_simp
  have dumps: "json_dumps plain_env 1 ?v = Inr (u ?b)" by code_simp
  have utf8: "utf8_encode (u ?b) = Inr ?b" by code_simp
  have ok: "json_ok plain_env ?v" by (simp add: text_ok_def u_def)
  have k: "k_conn (in_block ?s) = Some 0" "0 < length (p_conns (k_pool (in_block ?s)))"
    by (simp_all add: in_block_def)
  have key: "format_key data_store (u ''a'') (u ''data'') = Str (u ''n:data:a'')"
    by (simp add: format_key_def data_store_def u_def)
  have "\<not> isl (encode_command [word ''SET'', format_key data_store (u ''a'') (u ''data''), Str (u ?b)])" unfolding key by code_simp
  then obtain w1 where w1: "encode_command [word ''SET'', format_key data_store (u ''a'') (u ''data''), Str (u ?b)] = Inr w1" by (metis sum.collapse(2))
  have "\<not> isl (encode_command [word ''GET'', format_key data_store (u ''a'') (u ''data'')])" unfolding key by code_simp
  then obtain w2 where w2: "encode_command [word ''GET'', format_key data_store (u ''a'') (u ''data'')] = Inr w2" by (metis sum.collapse(2))
  from put_get_round_trip [OF k ready [folded at] view [folded at] ok dumps utf8 w1 w2, of 0] show ?thesis by fastforce
qed

lemma put_all_loses_connection_witness:
  "spare (k_pool (snd (kv_put_all 1 1 plain_env data_store [] (u ''data'')
     (KacheClient (local_pool 1 None [answers_verified quiet]))))) = 1"
proof -
  let ?k = "KacheClient (local_pool 1 None [answers_verified quiet])"
  have "k_conn ?k = None" by (simp add: KacheClient_def)
  moreover have "get_connection 1 (k_pool ?k) = (Inr 0, local_pool 1 None []\<lparr>p_active := 1,
      p_conns := [configured (local_pool 1 None [])\<lparr>c_reader := Some (RespReader quiet read_chunk_size)\<rparr>]\<rparr>)"
    using local_pool_opens [of 1 1 quiet] by (simp add: KacheClient_def)
  moreover obtain r k' where "kv_put_all 1 1 plain_env data_store [] (u ''data'') ?k = (r, k')"
    by (cases "kv_put_all 1 1 plain_env data_store [] (u ''data'') ?k")
  ultimately show ?thesis
    using put_all_loses_connection [of ?k 1 0 _ 1 plain_env data_store "[]" "u ''data''" r k']
    by (simp add: KacheClient_def ConnectionPool_def spare_def local_pool_def)
qed

end
