(* ===== verification/Async_Client.thy ===== *)
theory Async_Client
  imports Client Async_Pool
begin

text \<open>
  \<open>AsyncKacheClient\<close> of \<open>async_client.py\<close>. It talks only over a dedicated connection; a failure leaves
  that connection as it is. Every command of the class is one definition, with the prefix \<open>ak_\<close>, and
  the last theorems compare the two clients.
\<close>

section \<open>State\<close>

text \<open>\<open>_reader\<close>, \<open>_writer\<close> and \<open>_resp_reader\<close> are set and cleared together.\<close>

record aclient =
  ak_pool :: apool
  ak_conn :: "nat option"
  ak_decode :: bool

type_synonym 'a aclient_op = "(aclient, exc, 'a) py"

definition AsyncKacheClient :: "apool \<Rightarrow> aclient" where
  "AsyncKacheClient cfg =
     \<lparr>ak_pool = AsyncConnectionPool cfg, ak_conn = None, ak_decode = p_decode_responses cfg\<rparr>"

definition on_apool :: "'a apool_op \<Rightarrow> 'a aclient_op" where
  "on_apool m k = (case m (ak_pool k) of (r, p) \<Rightarrow> (r, k\<lparr>ak_pool := p\<rparr>))"

definition aclient_connect :: "nat \<Rightarrow> unit aclient_op" where
  "aclient_connect depth = bindE (on_apool (a_get_connection depth)) (\<lambda>i.
     modifyE (\<lambda>k. k\<lparr>ak_conn := Some i\<rparr>))"

definition aclient_close :: "unit aclient_op" where
  "aclient_close = bindE (getsE ak_conn) (\<lambda>conn. case conn of
      None \<Rightarrow> ret ()
    | Some i \<Rightarrow> bindE (on_apool (a_release_connection i)) (\<lambda>_. modifyE (\<lambda>k. k\<lparr>ak_conn := None\<rparr>)))"

text \<open>\<open>__aenter__\<close> and \<open>__aexit__\<close>.\<close>

definition aclient_enter :: "nat \<Rightarrow> unit aclient_op" where
  "aclient_enter depth = aclient_connect depth"

definition aclient_exit :: "unit aclient_op" where
  "aclient_exit = aclient_close"

definition aclient_disconnect_all :: "unit aclient_op" where
  "aclient_disconnect_all = on_apool a_disconnect_all"

definition a_execute :: "nat \<Rightarrow> arg list \<Rightarrow> resp aclient_op" where
  "a_execute depth args = bindE (getsE ak_conn) (\<lambda>conn. case conn of
      None \<Rightarrow> raise ConnectionError
    | Some i \<Rightarrow>
        bindE (liftE (encode_command args)) (\<lambda>data.
        bindE (on_apool (on_conn i (write_drain data))) (\<lambda>_.
        bindE (on_apool (on_conn i (a_parse_frame depth))) (\<lambda>response.
        bindE (getsE ak_decode) (\<lambda>decoding. liftE (decode_reply decoding response))))))"

definition aclient_pipeline :: "(nat pipeline) aclient_op" where
  "aclient_pipeline = bindE (getsE ak_conn) (\<lambda>conn. case conn of
      None \<Rightarrow> raise ConnectionError
    | Some i \<Rightarrow> ret \<lparr>pl_conn = i, pl_commands = []\<rparr>)"

section \<open>Commands\<close>

definition ak_ping ::
    "nat \<Rightarrow> 'f env \<Rightarrow> ustr option \<Rightarrow> ustr aclient_op" where
  "ak_ping depth env message =
     bindE (a_execute depth (word ''PING'' # (case message of None \<Rightarrow> [] | Some m \<Rightarrow> [Str m]))) (\<lambda>result.
     ret (if result \<noteq> RNone then str_resp env result else u ''PONG''))"

definition ak_get ::
    "nat \<Rightarrow> arg \<Rightarrow> resp aclient_op" where
  "ak_get depth key =
     a_execute depth [word ''GET'', key]"

definition ak_set ::
    "nat \<Rightarrow> arg \<Rightarrow> arg \<Rightarrow> int option \<Rightarrow> int option \<Rightarrow> bool aclient_op" where
  "ak_set depth key value ex px =
     bindE (a_execute depth ([word ''SET'', key, value] @
     (case ex of Some n \<Rightarrow> [word ''EX'', num n]
      | None \<Rightarrow> (case px of Some n \<Rightarrow> [word ''PX'', num n] | None \<Rightarrow> [])))) (\<lambda>result. ret (is_ok_text result))"

definition ak_mget ::
    "nat \<Rightarrow> arg list \<Rightarrow> (resp list) aclient_op" where
  "ak_mget depth keys =
     (if keys = [] then ret []
     else bindE (a_execute depth (word ''MGET'' # keys)) (\<lambda>result. ret (list_or_empty result)))"

definition ak_delete ::
    "nat \<Rightarrow> arg list \<Rightarrow> int aclient_op" where
  "ak_delete depth keys =
     (if keys = [] then ret 0
     else bindE (a_execute depth (word ''DEL'' # keys)) (\<lambda>result. ret (int_or 0 result)))"

definition ak_exists ::
    "nat \<Rightarrow> arg list \<Rightarrow> int aclient_op" where
  "ak_exists depth keys =
     (if keys = [] then ret 0
     else bindE (a_execute depth (word ''EXISTS'' # keys)) (\<lambda>result. ret (int_or 0 result)))"

definition ak_mset ::
    "nat \<Rightarrow> (arg \<times> arg) list \<Rightarrow> bool aclient_op" where
  "ak_mset depth mapping =
     (if mapping = [] then ret True
     else bindE (a_execute depth (word ''MSET'' # items_args mapping)) (\<lambda>result. ret (is_ok_text result)))"

definition ak_incr ::
    "nat \<Rightarrow> arg \<Rightarrow> int \<Rightarrow> int aclient_op" where
  "ak_incr depth key amount =
     (if amount = 1 then bindE (a_execute depth [word ''INCR'', key]) (\<lambda>result. ret (int_or 0 result))
     else bindE (a_execute depth [word ''INCRBY'', key, num amount]) (\<lambda>result. ret (int_or 0 result)))"

definition ak_incrby ::
    "nat \<Rightarrow> arg \<Rightarrow> int \<Rightarrow> int aclient_op" where
  "ak_incrby depth key amount =
     ak_incr depth key amount"

definition ak_decr ::
    "nat \<Rightarrow> arg \<Rightarrow> int \<Rightarrow> int aclient_op" where
  "ak_decr depth key amount =
     (if amount = 1 then bindE (a_execute depth [word ''DECR'', key]) (\<lambda>result. ret (int_or 0 result))
     else bindE (a_execute depth [word ''DECRBY'', key, num amount]) (\<lambda>result. ret (int_or 0 result)))"

definition ak_decrby ::
    "nat \<Rightarrow> arg \<Rightarrow> int \<Rightarrow> int aclient_op" where
  "ak_decrby depth key amount =
     ak_decr depth key amount"

definition ak_append ::
    "nat \<Rightarrow> arg \<Rightarrow> arg \<Rightarrow> int aclient_op" where
  "ak_append depth key value =
     bindE (a_execute depth [word ''APPEND'', key, value]) (\<lambda>result. ret (int_or 0 result))"

definition ak_strlen ::
    "nat \<Rightarrow> arg \<Rightarrow> int aclient_op" where
  "ak_strlen depth key =
     bindE (a_execute depth [word ''STRLEN'', key]) (\<lambda>result. ret (int_or 0 result))"

definition ak_expire ::
    "nat \<Rightarrow> arg \<Rightarrow> int \<Rightarrow> bool aclient_op" where
  "ak_expire depth key seconds =
     bindE (a_execute depth [word ''EXPIRE'', key, num seconds]) (\<lambda>result. ret (result = RInt 1))"

definition ak_pexpire ::
    "nat \<Rightarrow> arg \<Rightarrow> int \<Rightarrow> bool aclient_op" where
  "ak_pexpire depth key milliseconds =
     bindE (a_execute depth [word ''PEXPIRE'', key, num milliseconds]) (\<lambda>result. ret (result = RInt 1))"

definition ak_expireat ::
    "nat \<Rightarrow> arg \<Rightarrow> int \<Rightarrow> bool aclient_op" where
  "ak_expireat depth key timestamp =
     bindE (a_execute depth [word ''EXPIREAT'', key, num timestamp]) (\<lambda>result. ret (result = RInt 1))"

definition ak_pexpireat ::
    "nat \<Rightarrow> arg \<Rightarrow> int \<Rightarrow> bool aclient_op" where
  "ak_pexpireat depth key timestamp_ms =
     bindE (a_execute depth [word ''PEXPIREAT'', key, num timestamp_ms]) (\<lambda>result. ret (result = RInt 1))"

definition ak_ttl ::
    "nat \<Rightarrow> arg \<Rightarrow> int aclient_op" where
  "ak_ttl depth key =
     bindE (a_execute depth [word ''TTL'', key]) (\<lambda>result. ret (int_or (-2) result))"

definition ak_pttl ::
    "nat \<Rightarrow> arg \<Rightarrow> int aclient_op" where
  "ak_pttl depth key =
     bindE (a_execute depth [word ''PTTL'', key]) (\<lambda>result. ret (int_or (-2) result))"

definition ak_persist ::
    "nat \<Rightarrow> arg \<Rightarrow> bool aclient_op" where
  "ak_persist depth key =
     bindE (a_execute depth [word ''PERSIST'', key]) (\<lambda>result. ret (result = RInt 1))"

definition ak_info ::
    "nat \<Rightarrow> 'f env \<Rightarrow> ustr option \<Rightarrow> ustr aclient_op" where
  "ak_info depth env section_name =
     bindE (a_execute depth (word ''INFO'' # (case section_name of None \<Rightarrow> [] | Some s \<Rightarrow> [Str s]))) (\<lambda>result.
     ret (text_or env [] result))"

definition ak_dbsize ::
    "nat \<Rightarrow> int aclient_op" where
  "ak_dbsize depth =
     bindE (a_execute depth [word ''DBSIZE'']) (\<lambda>result. ret (int_or 0 result))"

definition ak_type ::
    "nat \<Rightarrow> 'f env \<Rightarrow> arg \<Rightarrow> ustr aclient_op" where
  "ak_type depth env key =
     bindE (a_execute depth [word ''TYPE'', key]) (\<lambda>result. ret (text_or env (u ''none'') result))"

definition ak_flushdb ::
    "nat \<Rightarrow> bool aclient_op" where
  "ak_flushdb depth =
     bindE (a_execute depth [word ''FLUSHDB'']) (\<lambda>result. ret (is_ok_or_true result))"

definition ak_flushall ::
    "nat \<Rightarrow> bool aclient_op" where
  "ak_flushall depth =
     bindE (a_execute depth [word ''FLUSHALL'']) (\<lambda>result. ret (is_ok_or_true result))"

definition ak_vadd ::
    "nat \<Rightarrow> 'f env \<Rightarrow> arg \<Rightarrow> arg \<Rightarrow> 'f vector \<Rightarrow> arg option \<Rightarrow> int option \<Rightarrow> int \<Rightarrow> ustr list option \<Rightarrow> arg option \<Rightarrow> bool aclient_op" where
  "ak_vadd depth env index item_id vector payload ex tag_mask tags parent_key =
     bindE (liftE (vector_bytes env vector)) (\<lambda>raw.
     bindE (liftE (tags_to_bitmask (e_sha256 env) (e_lower env) tags tag_mask)) (\<lambda>computed_tag_mask.
     bindE (a_execute depth ([word ''VADD'', index, item_id, num (int (vector_dim vector)), Bytes raw] @
       (case payload of None \<Rightarrow> [] | Some p \<Rightarrow> [word ''PAYLOAD'', p]) @
       (case ex of None \<Rightarrow> [] | Some n \<Rightarrow> [word ''EX'', num n]) @
       (if computed_tag_mask > 0 then [word ''TAGS'', num computed_tag_mask] else []) @
       (case parent_key of None \<Rightarrow> [] | Some k \<Rightarrow> [word ''PARENT'', k]))) (\<lambda>result.
     ret (result = RInt 1 \<or> result = RStr (u ''OK'')))))"

definition ak_vsearch ::
    "nat \<Rightarrow> 'f env \<Rightarrow> arg \<Rightarrow> 'f vector \<Rightarrow> int \<Rightarrow> 'f \<Rightarrow> int \<Rightarrow> ustr list option \<Rightarrow> ('f vmatch list) aclient_op" where
  "ak_vsearch depth env index query top_k threshold filter_mask filter_tags =
     bindE (liftE (vector_bytes env query)) (\<lambda>query_bytes.
     bindE (liftE (tags_to_bitmask (e_sha256 env) (e_lower env) filter_tags filter_mask)) (\<lambda>computed_filter_mask.
     bindE (a_execute depth ([word ''VSEARCH'', index, Bytes query_bytes, word ''TOPK'', num top_k,
         word ''THRESHOLD'', Str (e_str env threshold)] @
       (if computed_filter_mask > 0 then [word ''FILTER'', num computed_filter_mask] else []))) (\<lambda>raw_results.
     case raw_results of RList items \<Rightarrow> liftE (parse_matches env items) | _ \<Rightarrow> ret [])))"

definition ak_vdel ::
    "nat \<Rightarrow> arg \<Rightarrow> arg \<Rightarrow> bool aclient_op" where
  "ak_vdel depth index item_id =
     bindE (a_execute depth [word ''VDEL'', index, item_id]) (\<lambda>result. ret (result = RInt 1))"

definition ak_vadd_batch ::
    "nat \<Rightarrow> 'f env \<Rightarrow> arg \<Rightarrow> (arg \<times> 'f vector \<times> arg option) list \<Rightarrow> int option \<Rightarrow> int aclient_op" where
  "ak_vadd_batch depth env index items ex =
     (if items = [] then ret 0
     else bindE (liftE (batch_items env ex items)) (\<lambda>args.
          bindE (a_execute depth ([word ''VADD_BATCH'', index] @ args)) (\<lambda>result. ret (int_or 0 result))))"

definition ak_vsearch_batch ::
    "nat \<Rightarrow> 'f env \<Rightarrow> arg \<Rightarrow> 'f vector list \<Rightarrow> int \<Rightarrow> 'f \<Rightarrow> ('f hit list list) aclient_op" where
  "ak_vsearch_batch depth env index query_vectors top_k threshold =
     (if query_vectors = [] then ret []
     else bindE (liftE (batch_queries env query_vectors)) (\<lambda>args.
          bindE (a_execute depth ([word ''VSEARCH_BATCH'', index] @ args @
            [word ''TOPK'', num top_k, word ''THRESHOLD'', Str (e_str env threshold)])) (\<lambda>raw_batch.
          ret (case raw_batch of RList rs \<Rightarrow> parse_batch env rs | _ \<Rightarrow> []))))"

definition ak_vstats ::
    "nat \<Rightarrow> 'f env \<Rightarrow> arg \<Rightarrow> ((ustr \<times> resp) list option) aclient_op" where
  "ak_vstats depth env index =
     bindE (a_execute depth [word ''VSTATS'', index]) (\<lambda>raw.
     case raw of RList xs \<Rightarrow> liftE (map_sumE Some (pairs_dict env id xs [])) | _ \<Rightarrow> ret None)"

definition ak_auth ::
    "nat \<Rightarrow> ustr \<Rightarrow> ustr option \<Rightarrow> bool aclient_op" where
  "ak_auth depth password username =
     bindE (a_execute depth (word ''AUTH'' # (case username of None \<Rightarrow> [] | Some n \<Rightarrow> [Str n]) @ [Str password])) (\<lambda>result.
     ret (result = RBytes ''OK'' \<or> result = RStr (u ''OK'')))"

definition ak_bgrewriteaof ::
    "nat \<Rightarrow> 'f env \<Rightarrow> ustr aclient_op" where
  "ak_bgrewriteaof depth env =
     bindE (a_execute depth [word ''BGREWRITEAOF'']) (\<lambda>result.
     ret (case result of RBytes b \<Rightarrow> utf8_decode_replace b | _ \<Rightarrow> str_resp env result))"

definition ak_vindex_create ::
    "nat \<Rightarrow> arg \<Rightarrow> int \<Rightarrow> int \<Rightarrow> int \<Rightarrow> int \<Rightarrow> ustr \<Rightarrow> ustr \<Rightarrow> bool aclient_op" where
  "ak_vindex_create depth name dim m ef_construction ef_search metric quantization =
     bindE (a_execute depth [word ''VINDEX'', word ''CREATE'', name, word ''DIM'', num dim, word ''M'', num m,
       word ''EF_CONSTRUCTION'', num ef_construction, word ''EF_SEARCH'', num ef_search,
       word ''METRIC'', Str metric, word ''QUANTIZATION'', Str quantization]) (\<lambda>result.
     ret (result = RBytes ''OK'' \<or> result = RStr (u ''OK'')))"

definition ak_vindex_drop ::
    "nat \<Rightarrow> arg \<Rightarrow> bool aclient_op" where
  "ak_vindex_drop depth name =
     bindE (a_execute depth [word ''VINDEX'', word ''DROP'', name]) (\<lambda>result. ret (result = RInt 1))"

definition ak_vindex_info ::
    "nat \<Rightarrow> 'f env \<Rightarrow> arg \<Rightarrow> ((ustr \<times> resp) list option) aclient_op" where
  "ak_vindex_info depth env name =
     bindE (a_execute depth [word ''VINDEX'', word ''INFO'', name]) (\<lambda>raw.
     case raw of RList xs \<Rightarrow> liftE (map_sumE Some (pairs_dict env decode_if_text xs [])) | _ \<Rightarrow> ret None)"

section \<open>Theorems about the asynchronous client\<close>

lemma a_execute_run:
  assumes "ak_conn k = Some i" and "i < length (p_conns (ak_pool k))" and "encode_command args = Inr w"
    and "bindE (write_drain w) (\<lambda>_. a_parse_frame d) (conn_at (ak_pool k) i) = (r, c)"
  shows "a_execute d args k =
    (case r of Inl e \<Rightarrow> Inl e | Inr v \<Rightarrow> decode_reply (ak_decode k) v, k\<lparr>ak_pool := set_conn i c (ak_pool k)\<rparr>)"
proof -
  have "bindE (on_conn i (write_drain w)) (\<lambda>_. on_conn i (a_parse_frame d)) (ak_pool k) =
      (r, set_conn i c (ak_pool k))"
    using assms(4) by (simp add: on_conn_bindE [OF assms(2)] on_conn_def)
  then have "bindE (on_apool (on_conn i (write_drain w))) (\<lambda>_. on_apool (on_conn i (a_parse_frame d))) k =
      (r, k\<lparr>ak_pool := set_conn i c (ak_pool k)\<rparr>)"
    by (auto simp: bindE_run on_apool_def split: prod.splits sum.splits)
  with assms(1,3) show ?thesis
    by (auto simp: a_execute_def bindE_run split: prod.splits sum.splits)
qed

text \<open>On a connected \<open>AsyncKacheClient\<close>, a command writes exactly its encoding to the transport and
  returns the server's reply (bulk replies decoded when asked for); the replies behind it are
  untouched.\<close>

theorem async_command:
  assumes "ak_conn k = Some i" and "i < length (p_conns (ak_pool k))"
    and "stream_ready (conn_at (ak_pool k) i)"
    and "stream_view (conn_at (ak_pool k) i) = (resp_wire v @ rest, out, False)"
    and "reply_ok v" and "resp_depth v \<le> d" and "encode_command args = Inr w"
  shows "\<exists>c. a_execute d args k = (decode_reply (ak_decode k) v, k\<lparr>ak_pool := set_conn i c (ak_pool k)\<rparr>) \<and>
    stream_ready c \<and> stream_view c = (rest, out @ w, False)"
proof -
  obtain c where c: "bindE (write_drain w) (\<lambda>_. a_parse_frame d) (conn_at (ak_pool k) i) = (Inr v, c)"
      "stream_ready c" "stream_view c = (rest, out @ w, False)"
    using transport.round_trip [OF assms(3-6), of w] by auto
  from a_execute_run [OF assms(1,2,7) c(1)] c(2,3) show ?thesis by auto
qed

definition connected :: "bytes \<Rightarrow> aclient" where
  "connected inbox = \<lparr>ak_pool = \<lparr>p_host = u ''127.0.0.1'', p_port = 6379, p_max = 1,
     p_decode_responses = True, p_password = None, p_ssl = False, p_ssl_keyfile = None,
     p_ssl_certfile = None, p_ssl_check_hostname = True, p_queue = [], p_active = 1,
     p_conns = [AsyncRespReader \<lparr>st_pending = [inbox], st_end = Eof, st_written = [], st_drains = [],
       st_closing = False\<rparr> 16], p_dials = []\<rparr>, ak_conn = Some 0, ak_decode = True\<rparr>"

lemma async_command_witness:
  "\<exists>k'. a_execute 1 [word ''GET'', word ''k''] (connected (''$2'' @ crlf @ ''hi'' @ crlf)) = (Inr (RStr (u ''hi'')), k')"
proof -
  let ?k = "connected (''$2'' @ crlf @ ''hi'' @ crlf)"
  have k: "ak_conn ?k = Some 0" "0 < length (p_conns (ak_pool ?k))" by (simp_all add: connected_def)
  have ready: "stream_ready (conn_at (ak_pool ?k) 0)" by code_simp
  have view: "stream_view (conn_at (ak_pool ?k) 0) = (resp_wire (RBytes ''hi'') @ [], [], False)" by code_simp
  have w: "encode_command [word ''GET'', word ''k''] =
      Inr (''*2'' @ crlf @ ''$3'' @ crlf @ ''GET'' @ crlf @ ''$1'' @ crlf @ ''k'' @ crlf)" by code_simp
  have "decode_reply (ak_decode ?k) (RBytes ''hi'') = Inr (RStr (u ''hi''))" by code_simp
  with async_command [OF k ready view _ _ w, of 1] show ?thesis by fastforce
qed

text \<open>An error inside an array reply raises out of the decoder and leaves the rest of the array unread.
  \<open>AsyncKacheClient._execute\<close> keeps the connection, so the next command, whatever it is, is answered
  with the next element of that array.\<close>

theorem async_error_in_array_desynchronises:
  assumes "ak_conn k = Some i" and "i < length (p_conns (ak_pool k))"
    and "stream_ready (conn_at (ak_pool k) i)"
    and "stream_view (conn_at (ak_pool k) i) =
      (''*'' @ dec (Suc (Suc n)) @ crlf @ ''-'' @ b @ crlf @ resp_wire v @ rest, out, False)"
    and "utf8_encode t = Inr b" and "find_crlf b = None" and "reply_ok v" and "resp_depth v \<le> Suc (Suc d)"
    and "encode_command args = Inr w" and "encode_command args' = Inr w'"
  shows "\<exists>k' k''. a_execute (Suc (Suc d)) args k = (Inl (ResponseError t), k') \<and>
    a_execute (Suc (Suc d)) args' k' = (decode_reply (ak_decode k) v, k'')"
proof -
  let ?c = "conn_at (ak_pool k) i"
  obtain c1 where c1: "write_drain w ?c = (Inr (), c1)" "stream_ready c1"
      "stream_view c1 = (''*'' @ dec (Suc (Suc n)) @ crlf @ ''-'' @ b @ crlf @ resp_wire v @ rest, out @ w, False)"
    using transport.send_ready [OF assms(3,4)] by blast
  let ?bs = "''*'' @ dec (Suc (Suc n)) @ crlf @ ''-'' @ b @ crlf @ resp_wire v @ rest"
  have "spec_frame (Suc (Suc d)) e ?bs = (Inl (Py (ResponseError t)), resp_wire v @ rest)" for e
  proof -
    have "repeatM (Suc (Suc n)) (spec_frame (Suc d) e) (''-'' @ b @ crlf @ resp_wire v @ rest) =
        (Inl (Py (ResponseError t)), resp_wire v @ rest)"
      using spec_frame_error [OF assms(5,6), of d e "resp_wire v @ rest"]
      by (simp add: bindE_run del: spec_frame.simps)
    moreover have "nat (2 + int n) = Suc (Suc n)" by simp
    ultimately show ?thesis
      by (subst spec_frame.simps(2)) (simp add: frame_body_def py_simps spec_steps del: spec_frame.simps repeatM.simps)
  qed
  moreover have g: "good c1" "unread stream_arrived c1 = ?bs"
    using c1(2,3) by (simp_all add: stream_ready_def stream_view_def)
  ultimately obtain c2 where c2: "a_parse_frame (Suc (Suc d)) c1 = (Inl (ResponseError t), c2)" "good c2"
      "unread stream_arrived c2 = resp_wire v @ rest" "robs stream_obs c2 = robs stream_obs c1"
    using simulates_Inl [OF async.frames.parse_refines g(1), of "Suc (Suc d)" "ResponseError t"]
    by (auto simp: starved_def)
  have "stream_ready c2" "stream_view c2 = (resp_wire v @ rest, out @ w, False)"
    using c1(2,3) c2(2,3) robs_stream_eq [OF c2(4)] by (simp_all add: stream_ready_def stream_view_def)
  moreover have "bindE (write_drain w) (\<lambda>_. a_parse_frame (Suc (Suc d))) ?c = (Inl (ResponseError t), c2)"
    using c1(1) c2(1) by (simp del: a_parse_frame.simps)
  note first = a_execute_run [OF assms(1,2,9) this]
  let ?k' = "k\<lparr>ak_pool := set_conn i c2 (ak_pool k)\<rparr>"
  have k': "ak_conn ?k' = Some i" "i < length (p_conns (ak_pool ?k'))" "conn_at (ak_pool ?k') i = c2"
    using assms(1,2) by (simp_all add: set_conn_def conn_at_def)
  ultimately obtain c3 where "bindE (write_drain w') (\<lambda>_. a_parse_frame (Suc (Suc d))) (conn_at (ak_pool ?k') i) = (Inr v, c3)"
    using transport.round_trip [of c2 v rest "out @ w" False "Suc (Suc d)" w'] assms(7,8)
    by (auto simp del: a_parse_frame.simps)
  from a_execute_run [OF k'(1,2) assms(10) this] first show ?thesis by auto
qed

lemma async_error_in_array_desynchronises_witness:
  "\<exists>k' k''. a_execute 2 [word ''MGET'', word ''a'', word ''b'']
       (connected (''*2'' @ crlf @ ''-ERR x'' @ crlf @ ''$1'' @ crlf @ ''B'' @ crlf))
     = (Inl (ResponseError (u ''ERR x'')), k') \<and>
     a_execute 2 [word ''GET'', word ''c''] k' = (Inr (RStr (u ''B'')), k'')"
proof -
  let ?k = "connected (''*2'' @ crlf @ ''-ERR x'' @ crlf @ ''$1'' @ crlf @ ''B'' @ crlf)"
  have k: "ak_conn ?k = Some 0" "0 < length (p_conns (ak_pool ?k))" by (simp_all add: connected_def)
  have ready: "stream_ready (conn_at (ak_pool ?k) 0)" by code_simp
  have view: "stream_view (conn_at (ak_pool ?k) 0) =
      (''*'' @ dec (Suc (Suc 0)) @ crlf @ ''-'' @ ''ERR x'' @ crlf @ resp_wire (RBytes ''B'') @ [], [], False)"
    by code_simp
  have t: "utf8_encode (u ''ERR x'') = Inr ''ERR x''" "find_crlf ''ERR x'' = None" by code_simp+
  have w: "encode_command [word ''MGET'', word ''a'', word ''b''] =
      Inr (''*3'' @ crlf @ ''$4'' @ crlf @ ''MGET'' @ crlf @ ''$1'' @ crlf @ ''a'' @ crlf @ ''$1'' @ crlf @ ''b'' @ crlf)"
    by code_simp
  have w': "encode_command [word ''GET'', word ''c''] =
      Inr (''*2'' @ crlf @ ''$3'' @ crlf @ ''GET'' @ crlf @ ''$1'' @ crlf @ ''c'' @ crlf)" by code_simp
  have "decode_reply (ak_decode ?k) (RBytes ''B'') = Inr (RStr (u ''B''))" by code_simp
  with async_error_in_array_desynchronises [OF k ready view t _ _ w w', of 0] show ?thesis
    by (simp add: numeral_2_eq_2 del: a_parse_frame.simps)
qed

section \<open>The two clients\<close>

text \<open>Two commands are the same when they send the same arguments and make the same of the reply, or,
  before sending anything, end with the same value or exception.\<close>

definition same_command :: "nat \<Rightarrow> 'a client_op \<Rightarrow> 'a aclient_op \<Rightarrow> bool" where
  "same_command depth m am \<longleftrightarrow>
     (\<exists>r. \<forall>s t. m s = (r, s) \<and> am t = (r, t)) \<or>
     (\<exists>args f g. m = bindE (execute depth args) f \<and> am = bindE (a_execute depth args) g \<and>
        (\<forall>v s t. \<exists>r. f v s = (r, s) \<and> g v t = (r, t)))"

lemma same_command_pure: "(\<And>s. m s = (r, s)) \<Longrightarrow> (\<And>t. am t = (r, t)) \<Longrightarrow> same_command d m am"
  by (auto simp: same_command_def)

lemma same_command_send:
  "(\<And>v s t. \<exists>r. f v s = (r, s) \<and> g v t = (r, t)) \<Longrightarrow>
   same_command d (bindE (execute d args) f) (bindE (a_execute d args) g)"
  unfolding same_command_def by blast

lemma same_command_execute: "same_command d (execute d args) (a_execute d args)"
proof -
  have "execute d args = bindE (execute d args) ret" "a_execute d args = bindE (a_execute d args) ret"
    by (auto simp: fun_eq_iff bindE_run split: prod.split sum.split)
  then show ?thesis by (metis same_command_send ret_run)
qed

lemma same_command_if:
  "same_command d m am \<Longrightarrow> same_command d n an \<Longrightarrow>
   same_command d (if b then m else n) (if b then am else an)"
  by simp

lemma same_command_lift:
  "(\<And>x. same_command d (f x) (g x)) \<Longrightarrow> same_command d (bindE (liftE r) f) (bindE (liftE r) g)"
  by (cases r) (auto simp: same_command_def bindE_def liftE_def)

lemmas same_command_intros = same_command_if same_command_lift same_command_execute same_command_send

lemma same_ping: "same_command depth (k_ping depth env message) (ak_ping depth env message)"
  unfolding k_ping_def ak_ping_def
  by (intro same_command_intros same_command_pure) (auto split: resp.split)

lemma same_get: "same_command depth (k_get depth key) (ak_get depth key)"
  unfolding k_get_def ak_get_def by (rule same_command_execute)

lemma same_set: "same_command depth (k_set depth key value ex px) (ak_set depth key value ex px)"
  unfolding k_set_def ak_set_def
  by (intro same_command_intros same_command_pure) (auto split: resp.split)

lemma same_mget: "same_command depth (k_mget depth keys) (ak_mget depth keys)"
  unfolding k_mget_def ak_mget_def
  by (intro same_command_intros same_command_pure) (auto split: resp.split)

lemma same_delete: "same_command depth (k_delete depth keys) (ak_delete depth keys)"
  unfolding k_delete_def ak_delete_def
  by (intro same_command_intros same_command_pure) (auto split: resp.split)

lemma same_exists: "same_command depth (k_exists depth keys) (ak_exists depth keys)"
  unfolding k_exists_def ak_exists_def
  by (intro same_command_intros same_command_pure) (auto split: resp.split)

lemma same_mset: "same_command depth (k_mset depth mapping) (ak_mset depth mapping)"
  unfolding k_mset_def ak_mset_def
  by (intro same_command_intros same_command_pure) (auto split: resp.split)

lemma same_incr: "same_command depth (k_incr depth key amount) (ak_incr depth key amount)"
  unfolding k_incr_def ak_incr_def
  by (intro same_command_intros same_command_pure) (auto split: resp.split)

lemma same_incrby: "same_command depth (k_incrby depth key amount) (ak_incrby depth key amount)"
  unfolding k_incrby_def ak_incrby_def k_incr_def ak_incr_def
  by (intro same_command_intros same_command_pure) (auto split: resp.split)

lemma same_decr: "same_command depth (k_decr depth key amount) (ak_decr depth key amount)"
  unfolding k_decr_def ak_decr_def
  by (intro same_command_intros same_command_pure) (auto split: resp.split)

lemma same_decrby: "same_command depth (k_decrby depth key amount) (ak_decrby depth key amount)"
  unfolding k_decrby_def ak_decrby_def k_decr_def ak_decr_def
  by (intro same_command_intros same_command_pure) (auto split: resp.split)

lemma same_append: "same_command depth (k_append depth key value) (ak_append depth key value)"
  unfolding k_append_def ak_append_def
  by (intro same_command_intros same_command_pure) (auto split: resp.split)

lemma same_strlen: "same_command depth (k_strlen depth key) (ak_strlen depth key)"
  unfolding k_strlen_def ak_strlen_def
  by (intro same_command_intros same_command_pure) (auto split: resp.split)

lemma same_expire: "same_command depth (k_expire depth key seconds) (ak_expire depth key seconds)"
  unfolding k_expire_def ak_expire_def
  by (intro same_command_intros same_command_pure) (auto split: resp.split)

lemma same_pexpire: "same_command depth (k_pexpire depth key milliseconds) (ak_pexpire depth key milliseconds)"
  unfolding k_pexpire_def ak_pexpire_def
  by (intro same_command_intros same_command_pure) (auto split: resp.split)

lemma same_expireat: "same_command depth (k_expireat depth key timestamp) (ak_expireat depth key timestamp)"
  unfolding k_expireat_def ak_expireat_def
  by (intro same_command_intros same_command_pure) (auto split: resp.split)

lemma same_pexpireat: "same_command depth (k_pexpireat depth key timestamp_ms) (ak_pexpireat depth key timestamp_ms)"
  unfolding k_pexpireat_def ak_pexpireat_def
  by (intro same_command_intros same_command_pure) (auto split: resp.split)

lemma same_ttl: "same_command depth (k_ttl depth key) (ak_ttl depth key)"
  unfolding k_ttl_def ak_ttl_def
  by (intro same_command_intros same_command_pure) (auto split: resp.split)

lemma same_pttl: "same_command depth (k_pttl depth key) (ak_pttl depth key)"
  unfolding k_pttl_def ak_pttl_def
  by (intro same_command_intros same_command_pure) (auto split: resp.split)

lemma same_persist: "same_command depth (k_persist depth key) (ak_persist depth key)"
  unfolding k_persist_def ak_persist_def
  by (intro same_command_intros same_command_pure) (auto split: resp.split)

lemma same_info: "same_command depth (k_info depth env section_name) (ak_info depth env section_name)"
  unfolding k_info_def ak_info_def
  by (intro same_command_intros same_command_pure) (auto split: resp.split)

lemma same_dbsize: "same_command depth (k_dbsize depth) (ak_dbsize depth)"
  unfolding k_dbsize_def ak_dbsize_def
  by (intro same_command_intros same_command_pure) (auto split: resp.split)

lemma same_type: "same_command depth (k_type depth env key) (ak_type depth env key)"
  unfolding k_type_def ak_type_def
  by (intro same_command_intros same_command_pure) (auto split: resp.split)

lemma same_flushdb: "same_command depth (k_flushdb depth) (ak_flushdb depth)"
  unfolding k_flushdb_def ak_flushdb_def
  by (intro same_command_intros same_command_pure) (auto split: resp.split)

lemma same_flushall: "same_command depth (k_flushall depth) (ak_flushall depth)"
  unfolding k_flushall_def ak_flushall_def
  by (intro same_command_intros same_command_pure) (auto split: resp.split)

lemma same_vadd: "same_command depth (k_vadd depth env index item_id vector payload ex tag_mask tags parent_key) (ak_vadd depth env index item_id vector payload ex tag_mask tags parent_key)"
  unfolding k_vadd_def ak_vadd_def
  by (intro same_command_intros same_command_pure) (auto split: resp.split)

lemma same_vsearch: "same_command depth (k_vsearch depth env index query top_k threshold filter_mask filter_tags) (ak_vsearch depth env index query top_k threshold filter_mask filter_tags)"
  unfolding k_vsearch_def ak_vsearch_def
  by (intro same_command_intros same_command_pure) (auto split: resp.split)

lemma same_vdel: "same_command depth (k_vdel depth index item_id) (ak_vdel depth index item_id)"
  unfolding k_vdel_def ak_vdel_def
  by (intro same_command_intros same_command_pure) (auto split: resp.split)

lemma same_vadd_batch: "same_command depth (k_vadd_batch depth env index items ex) (ak_vadd_batch depth env index items ex)"
  unfolding k_vadd_batch_def ak_vadd_batch_def
  by (intro same_command_intros same_command_pure) (auto split: resp.split)

lemma same_vsearch_batch: "same_command depth (k_vsearch_batch depth env index query_vectors top_k threshold) (ak_vsearch_batch depth env index query_vectors top_k threshold)"
  unfolding k_vsearch_batch_def ak_vsearch_batch_def
  by (intro same_command_intros same_command_pure) (auto split: resp.split)

lemma same_vstats: "same_command depth (k_vstats depth env index) (ak_vstats depth env index)"
  unfolding k_vstats_def ak_vstats_def
  by (intro same_command_intros same_command_pure) (auto split: resp.split)

lemma same_auth: "same_command depth (k_auth depth password username) (ak_auth depth password username)"
  unfolding k_auth_def ak_auth_def
  by (intro same_command_intros same_command_pure) (auto split: resp.split)

lemma same_bgrewriteaof: "same_command depth (k_bgrewriteaof depth env) (ak_bgrewriteaof depth env)"
  unfolding k_bgrewriteaof_def ak_bgrewriteaof_def
  by (intro same_command_intros same_command_pure) (auto split: resp.split)

lemma same_vindex_create: "same_command depth (k_vindex_create depth name dim m ef_construction ef_search metric quantization) (ak_vindex_create depth name dim m ef_construction ef_search metric quantization)"
  unfolding k_vindex_create_def ak_vindex_create_def
  by (intro same_command_intros same_command_pure) (auto split: resp.split)

lemma same_vindex_drop: "same_command depth (k_vindex_drop depth name) (ak_vindex_drop depth name)"
  unfolding k_vindex_drop_def ak_vindex_drop_def
  by (intro same_command_intros same_command_pure) (auto split: resp.split)

lemma same_vindex_info: "same_command depth (k_vindex_info depth env name) (ak_vindex_info depth env name)"
  unfolding k_vindex_info_def ak_vindex_info_def
  by (intro same_command_intros same_command_pure) (auto split: resp.split)

text \<open>C38: Every command of \<open>AsyncKacheClient\<close> is the same as the command of \<open>KacheClient\<close> of that name: for all
  arguments both send the same request, or none, and make the same result or exception of the reply.\<close>

theorem clients_agree:
  "same_command depth (k_ping depth env message) (ak_ping depth env message) \<and>
   same_command depth (k_get depth key) (ak_get depth key) \<and>
   same_command depth (k_set depth key value ex px) (ak_set depth key value ex px) \<and>
   same_command depth (k_mget depth keys) (ak_mget depth keys) \<and>
   same_command depth (k_delete depth keys) (ak_delete depth keys) \<and>
   same_command depth (k_exists depth keys) (ak_exists depth keys) \<and>
   same_command depth (k_mset depth mapping) (ak_mset depth mapping) \<and>
   same_command depth (k_incr depth key amount) (ak_incr depth key amount) \<and>
   same_command depth (k_incrby depth key amount) (ak_incrby depth key amount) \<and>
   same_command depth (k_decr depth key amount) (ak_decr depth key amount) \<and>
   same_command depth (k_decrby depth key amount) (ak_decrby depth key amount) \<and>
   same_command depth (k_append depth key value) (ak_append depth key value) \<and>
   same_command depth (k_strlen depth key) (ak_strlen depth key) \<and>
   same_command depth (k_expire depth key seconds) (ak_expire depth key seconds) \<and>
   same_command depth (k_pexpire depth key milliseconds) (ak_pexpire depth key milliseconds) \<and>
   same_command depth (k_expireat depth key timestamp) (ak_expireat depth key timestamp) \<and>
   same_command depth (k_pexpireat depth key timestamp_ms) (ak_pexpireat depth key timestamp_ms) \<and>
   same_command depth (k_ttl depth key) (ak_ttl depth key) \<and>
   same_command depth (k_pttl depth key) (ak_pttl depth key) \<and>
   same_command depth (k_persist depth key) (ak_persist depth key) \<and>
   same_command depth (k_info depth env section_name) (ak_info depth env section_name) \<and>
   same_command depth (k_dbsize depth) (ak_dbsize depth) \<and>
   same_command depth (k_type depth env key) (ak_type depth env key) \<and>
   same_command depth (k_flushdb depth) (ak_flushdb depth) \<and>
   same_command depth (k_flushall depth) (ak_flushall depth) \<and>
   same_command depth (k_vadd depth env index item_id vector payload ex tag_mask tags parent_key) (ak_vadd depth env index item_id vector payload ex tag_mask tags parent_key) \<and>
   same_command depth (k_vsearch depth env index query top_k threshold filter_mask filter_tags) (ak_vsearch depth env index query top_k threshold filter_mask filter_tags) \<and>
   same_command depth (k_vdel depth index item_id) (ak_vdel depth index item_id) \<and>
   same_command depth (k_vadd_batch depth env index items ex) (ak_vadd_batch depth env index items ex) \<and>
   same_command depth (k_vsearch_batch depth env index query_vectors top_k threshold) (ak_vsearch_batch depth env index query_vectors top_k threshold) \<and>
   same_command depth (k_vstats depth env index) (ak_vstats depth env index) \<and>
   same_command depth (k_auth depth password username) (ak_auth depth password username) \<and>
   same_command depth (k_bgrewriteaof depth env) (ak_bgrewriteaof depth env) \<and>
   same_command depth (k_vindex_create depth name dim m ef_construction ef_search metric quantization) (ak_vindex_create depth name dim m ef_construction ef_search metric quantization) \<and>
   same_command depth (k_vindex_drop depth name) (ak_vindex_drop depth name) \<and>
   same_command depth (k_vindex_info depth env name) (ak_vindex_info depth env name)"
  by (intro conjI) (rule
    same_ping same_get same_set same_mget same_delete same_exists same_mset same_incr same_incrby
    same_decr same_decrby same_append same_strlen same_expire same_pexpire same_expireat
    same_pexpireat same_ttl same_pttl same_persist same_info same_dbsize same_type same_flushdb
    same_flushall same_vadd same_vsearch same_vdel same_vadd_batch same_vsearch_batch same_vstats
    same_auth same_bgrewriteaof same_vindex_create same_vindex_drop same_vindex_info)+

end
