(* ===== verification/Quantizer.thy ===== *)
theory Quantizer
  imports Prelude Complex_Main
begin

text \<open>
  \<open>quantizer.py\<close>: eight-bit quantisation. The arithmetic of \<open>float\<close> is a parameter, a record of the operations the
  code uses; \<open>exact rnd\<close> is the arithmetic of the real numbers with \<open>rnd\<close> for \<open>round\<close>, of which the error bounds are
  stated. The code is the same for both.
\<close>

section \<open>Arithmetic\<close>

text \<open>\<open>x < y\<close>, \<open>x == y\<close>, \<open>x - y\<close>, \<open>x + y\<close>, \<open>x * y\<close>, \<open>x / y\<close>, \<open>abs(x)\<close>, \<open>math.sqrt(x)\<close>, an integer as a \<open>float\<close>, \<open>1e-12\<close>, and
  \<open>round(x)\<close>, which raises for infinities and NaN.\<close>

record 'f arith =
  fa_less :: "'f \<Rightarrow> 'f \<Rightarrow> bool"
  fa_eq :: "'f \<Rightarrow> 'f \<Rightarrow> bool"
  fa_sub :: "'f \<Rightarrow> 'f \<Rightarrow> 'f"
  fa_add :: "'f \<Rightarrow> 'f \<Rightarrow> 'f"
  fa_mul :: "'f \<Rightarrow> 'f \<Rightarrow> 'f"
  fa_div :: "'f \<Rightarrow> 'f \<Rightarrow> 'f"
  fa_abs :: "'f \<Rightarrow> 'f"
  fa_sqrt :: "'f \<Rightarrow> 'f"
  fa_int :: "int \<Rightarrow> 'f"
  fa_tiny :: 'f
  fa_round :: "'f \<Rightarrow> exc + int"

definition exact :: "(real \<Rightarrow> int) \<Rightarrow> real arith" where
  "exact rnd = \<lparr>fa_less = (<), fa_eq = (=), fa_sub = (-), fa_add = (+), fa_mul = (*), fa_div = (/), fa_abs = abs,
     fa_sqrt = sqrt, fa_int = of_int, fa_tiny = 1 / 10 ^ 12, fa_round = (\<lambda>x. Inr (rnd x))\<rparr>"

lemma exact_simps [simp]:
  "fa_less (exact rnd) = (<)" "fa_eq (exact rnd) = (=)" "fa_sub (exact rnd) = (-)" "fa_add (exact rnd) = (+)"
  "fa_mul (exact rnd) = (*)" "fa_div (exact rnd) = (/)" "fa_abs (exact rnd) = abs" "fa_sqrt (exact rnd) = sqrt"
  "fa_int (exact rnd) = of_int" "fa_tiny (exact rnd) = 1 / 10 ^ 12" "fa_round (exact rnd) x = Inr (rnd x)"
  by (simp_all add: exact_def)

text \<open>\<open>min(xs)\<close> and \<open>max(xs)\<close>: the first of the smallest and of the greatest.\<close>

definition fmin :: "'f arith \<Rightarrow> 'f list \<Rightarrow> 'f" where
  "fmin A xs = foldl (\<lambda>m x. if fa_less A x m then x else m) (hd xs) (tl xs)"

definition fmax :: "'f arith \<Rightarrow> 'f list \<Rightarrow> 'f" where
  "fmax A xs = foldl (\<lambda>m x. if fa_less A m x then x else m) (hd xs) (tl xs)"

section \<open>The two functions\<close>

definition no_range :: "'f arith \<Rightarrow> 'f \<Rightarrow> bool" where
  "no_range A diff \<longleftrightarrow> fa_eq A diff (fa_int A 0) \<or> fa_less A (fa_abs A diff) (fa_tiny A)"

fun quantize :: "'f arith \<Rightarrow> 'f \<Rightarrow> 'f \<Rightarrow> 'f list \<Rightarrow> exc + bytes" where
  "quantize A min_val scale [] = Inr []"
| "quantize A min_val scale (val # vals) =
     bind_sum (fa_round A (fa_mul A (fa_sub A val min_val) scale)) (\<lambda>q.
     map_sumE (\<lambda>bs. char_of (nat (max 0 (min 255 q))) # bs) (quantize A min_val scale vals))"

definition sq8_encode :: "'f arith \<Rightarrow> 'f list \<Rightarrow> exc + bytes \<times> 'f \<times> 'f" where
  "sq8_encode A vector =
     (if vector = [] then Inr ([], fa_int A 0, fa_int A 0)
      else
        (let min_val = fmin A vector; max_val = fmax A vector; diff = fa_sub A max_val min_val in
         if no_range A diff then Inr (replicate (length vector) (char_of (128 :: nat)), min_val, max_val)
         else map_sumE (\<lambda>bs. (bs, min_val, max_val))
           (quantize A min_val (fa_div A (fa_int A 255) diff) vector)))"

definition sq8_decode :: "'f arith \<Rightarrow> bytes \<Rightarrow> 'f \<Rightarrow> 'f \<Rightarrow> 'f list" where
  "sq8_decode A quantized min_val max_val =
     (let diff = fa_sub A max_val min_val in
      if quantized = [] then []
      else if no_range A diff then replicate (length quantized) min_val
      else map (\<lambda>b. fa_add A min_val (fa_mul A (fa_int A (of_char b)) (fa_div A diff (fa_int A 255)))) quantized)"

section \<open>Theorems about quantisation\<close>

text \<open>Whatever the arithmetic, one byte per component.\<close>

lemma length_quantize: "quantize A m s xs = Inr bs \<Longrightarrow> length bs = length xs"
  by (induction xs arbitrary: bs) (auto simp: bind_sum_def split: sum.splits)

lemma length_sq8_encode: "sq8_encode A xs = Inr (bs, lo, hi) \<Longrightarrow> length bs = length xs"
  by (auto simp: sq8_encode_def Let_def split: if_splits dest: length_quantize)

lemma length_sq8_decode: "length (sq8_decode A bs lo hi) = length bs"
  by (simp add: sq8_decode_def Let_def)

text \<open>Over the real numbers the range is the range.\<close>

lemma fold_min: "foldl (\<lambda>m x. if x < m then x else m) a xs = Min (set (a # xs) :: real set)"
proof -
  have "(\<lambda>x m. if x < m then x else m) = (min :: real \<Rightarrow> _)" by (auto simp: min_def fun_eq_iff)
  then show ?thesis by (simp add: foldl_conv_fold Min.set_eq_fold del: list.set)
qed

lemma fold_max: "foldl (\<lambda>m x. if m < x then x else m) a xs = Max (set (a # xs) :: real set)"
proof -
  have "(\<lambda>x m. if m < x then x else m) = (max :: real \<Rightarrow> _)" by (auto simp: max_def fun_eq_iff)
  then show ?thesis by (simp add: foldl_conv_fold Max.set_eq_fold del: list.set)
qed

lemma fmin_exact: "xs \<noteq> [] \<Longrightarrow> fmin (exact rnd) xs = Min (set xs)"
  by (cases xs) (simp_all add: fmin_def fold_min del: list.set)

lemma fmax_exact: "xs \<noteq> [] \<Longrightarrow> fmax (exact rnd) xs = Max (set xs)"
  by (cases xs) (simp_all add: fmax_def fold_max del: list.set)

lemma quantize_exact:
  "quantize (exact rnd) m s xs = Inr (map (\<lambda>x. char_of (nat (max 0 (min 255 (rnd ((x - m) * s)))))) xs)"
  by (induction xs) simp_all

text \<open>One component: what is decoded is at most half a step away.\<close>

lemma component_error:
  fixes x lo hi :: real
  assumes rnd: "\<And>y. \<bar>y - of_int (rnd y)\<bar> \<le> 1 / 2" and x: "lo \<le> x" "x \<le> hi" and range: "lo < hi"
    and q: "q = rnd ((x - lo) * (255 / (hi - lo)))"
  shows "\<bar>lo + of_int (of_char (char_of (nat (max 0 (min 255 q))) :: char)) * ((hi - lo) / 255) - x\<bar> \<le> (hi - lo) / 510"
proof -
  let ?y = "(x - lo) * (255 / (hi - lo))"
  let ?q = "q"
  have pos: "0 < hi - lo" using range by simp
  have y: "0 \<le> ?y" "?y \<le> 255" using x pos by (simp_all add: field_simps)
  have "- 1 < (of_int ?q :: real)" "of_int ?q < (256 :: real)" using rnd [of ?y, folded q] y by linarith+
  then have "0 \<le> ?q" "?q \<le> 255" by linarith+
  then have "nat (max 0 (min 255 ?q)) mod 256 = nat ?q" by simp
  then have "int (of_char (char_of (nat (max 0 (min 255 ?q))) :: char)) = int (nat ?q)" by (simp only: of_char_of)
  then have "of_int (of_char (char_of (nat (max 0 (min 255 ?q))) :: char)) = (of_int ?q :: real)"
    unfolding of_nat_of_char using \<open>0 \<le> ?q\<close> by (metis int_nat_eq of_int_eq_iff)
  moreover have "lo + of_int ?q * ((hi - lo) / 255) - x = (of_int ?q - ?y) * ((hi - lo) / 255)"
    using pos by (simp add: field_simps)
  moreover have "\<bar>(of_int ?q - ?y) * ((hi - lo) / 255)\<bar> \<le> 1 / 2 * ((hi - lo) / 255)"
    unfolding abs_mult using rnd [of ?y, folded q] pos by (intro mult_mono) (simp_all add: abs_minus_commute)
  ultimately have "\<bar>lo + of_int (of_char (char_of (nat (max 0 (min 255 q))) :: char)) * ((hi - lo) / 255) - x\<bar> \<le>
      1 / 2 * ((hi - lo) / 255)" by (simp only:)
  then show ?thesis by linarith
qed

text \<open>C29: In exact arithmetic, with any rounding to a nearest integer, encoding never fails and decoding what was encoded
  gives as many components, each at most half a quantisation step away from the original, or at most the range of
  the vector when that range is below \<open>1e-12\<close>; the range returned with the bytes is the least and the greatest
  component.\<close>

theorem quantisation_error:
  assumes rnd: "\<And>y :: real. \<bar>y - of_int (rnd y)\<bar> \<le> 1 / 2" and "xs \<noteq> []"
  shows "\<exists>bs. sq8_encode (exact rnd) xs = Inr (bs, Min (set xs), Max (set xs)) \<and> length bs = length xs \<and>
    (\<forall>i < length xs. \<bar>sq8_decode (exact rnd) bs (Min (set xs)) (Max (set xs)) ! i - xs ! i\<bar> \<le>
      (if Max (set xs) - Min (set xs) < 1 / 10 ^ 12 then Max (set xs) - Min (set xs)
       else (Max (set xs) - Min (set xs)) / 510))"
proof -
  let ?lo = "Min (set xs)" and ?hi = "Max (set xs)"
  have inside: "?lo \<le> x \<and> x \<le> ?hi" if "x \<in> set xs" for x using that by simp
  show ?thesis
  proof (cases "no_range (exact rnd) (?hi - ?lo)")
    case True
    let ?bs = "replicate (length xs) (char_of (128 :: nat))"
    have close: "\<bar>?hi - ?lo\<bar> < 1 / 10 ^ 12" using True by (auto simp: no_range_def)
    have "sq8_encode (exact rnd) xs = Inr (?bs, ?lo, ?hi)"
      using True assms(2) by (simp add: sq8_encode_def Let_def fmin_exact fmax_exact)
    moreover have "sq8_decode (exact rnd) ?bs ?lo ?hi = replicate (length xs) ?lo"
      using True assms(2) by (simp add: sq8_decode_def Let_def)
    moreover have "\<bar>?lo - xs ! i\<bar> \<le> ?hi - ?lo" if "i < length xs" for i
      using inside [OF nth_mem [OF that]] by linarith
    moreover have "?hi - ?lo < 1 / 10 ^ 12" using close by linarith
    ultimately show ?thesis by simp
  next
    case False
    let ?bs = "map (\<lambda>x. char_of (nat (max 0 (min 255 (rnd ((x - ?lo) * (255 / (?hi - ?lo)))))))) xs"
    have "sq8_encode (exact rnd) xs = Inr (?bs, ?lo, ?hi)"
      using False assms(2) by (simp add: sq8_encode_def Let_def fmin_exact fmax_exact quantize_exact)
    moreover have "?lo \<noteq> ?hi" using False by (auto simp: no_range_def)
    moreover have "?lo \<le> ?hi" using inside [of "hd xs"] assms(2) by fastforce
    moreover have "sq8_decode (exact rnd) ?bs ?lo ?hi =
        map (\<lambda>b. ?lo + of_int (of_char b) * ((?hi - ?lo) / 255)) ?bs"
      using False assms(2) by (simp add: sq8_decode_def Let_def)
    ultimately show ?thesis
      using component_error [OF rnd _ _ _ refl] inside False by (auto simp: no_range_def)
  qed
qed

text \<open>\<open>round\<close> to the nearest integer, halves upwards.\<close>

lemma quantisation_error_witness:
  "\<exists>bs. sq8_encode (exact round) [0, 1, 1 / 3] = Inr (bs, 0, 1) \<and> length bs = 3 \<and>
    (\<forall>i < 3. \<bar>sq8_decode (exact round) bs 0 1 ! i - [0, 1, 1 / 3] ! i\<bar> \<le> 1 / 510)"
proof -
  have "\<bar>y - of_int (round y)\<bar> \<le> 1 / 2" for y :: real
    using of_int_round_abs_le [of y] by (simp add: abs_minus_commute)
  from quantisation_error [OF this, of "[0, 1, 1 / 3]"] show ?thesis by (simp add: max_def numeral_3_eq_3)
qed

end
