(* ===== verification/Embedders.thy ===== *)
theory Embedders
  imports Values Quantizer
begin

text \<open>
  \<open>semantic/embedders.py\<close>: the embedding adapters but \<open>TransformersEmbedder\<close>, which \<open>Transformers\<close> has. The models behind \<open>FastEmbedAdapter\<close>,
  \<open>SentenceTransformersAdapter\<close> and \<open>OpenAIAdapter\<close> are parameters; \<open>MockEmbedder\<close> is modelled whole, over the
  arithmetic of \<open>Quantizer\<close>, with the two digests and the word characters of \<open>re\<close> as parameters.
\<close>

section \<open>Adapters of models\<close>

type_synonym 'f encoder = "ustr \<Rightarrow> exc + 'f list"

text \<open>\<open>[float(x) for x in xs]\<close>.\<close>

fun floats :: "'f env \<Rightarrow> 'f pyval list \<Rightarrow> exc + 'f list" where
  "floats env [] = Inr []"
| "floats env (x # xs) = bind_sum (py_float env x) (\<lambda>f. map_sumE (\<lambda>fs. f # fs) (floats env xs))"

text \<open>The argument \<open>model\<close> is what importing the library and constructing its model gives; a failed import is an
  \<open>ImportError\<close>, and the exceptions of the constructor are passed on.\<close>

definition FastEmbedAdapter :: "'f env \<Rightarrow> bool \<Rightarrow> exc + (ustr list \<Rightarrow> exc + 'f pyval list list) \<Rightarrow> exc + 'f encoder" where
  "FastEmbedAdapter env installed model =
     (if \<not> installed then Inl BuiltinImportError
      else map_sumE (\<lambda>embed text. bind_sum (embed [text]) (\<lambda>embeddings.
        bind_sum (list_item embeddings 0) (floats env))) model)"

definition SentenceTransformersAdapter :: "'f env \<Rightarrow> bool \<Rightarrow> exc + (ustr \<Rightarrow> exc + 'f pyval list) \<Rightarrow> exc + 'f encoder" where
  "SentenceTransformersAdapter env installed model =
     (if \<not> installed then Inl BuiltinImportError
      else map_sumE (\<lambda>encode text. bind_sum (encode text) (floats env)) model)"

definition OpenAIAdapter :: "'f env \<Rightarrow> bool \<Rightarrow> exc + (ustr list \<Rightarrow> exc + 'f pyval list list) \<Rightarrow> exc + 'f encoder" where
  "OpenAIAdapter env installed model =
     (if \<not> installed then Inl BuiltinImportError
      else map_sumE (\<lambda>create text. bind_sum (create [text]) (\<lambda>data.
        bind_sum (list_item data 0) (floats env))) model)"

definition CallableAdapter :: "'f env \<Rightarrow> (ustr \<Rightarrow> exc + 'f pyval list) \<Rightarrow> 'f encoder" where
  "CallableAdapter env fn text = bind_sum (fn text) (floats env)"

section \<open>The mock\<close>

definition SEMANTIC_CLUSTERS :: "(string \<times> string list) list" where
  "SEMANTIC_CLUSTERS = [
     (''password_reset'', [''password'', ''reset'', ''change'', ''recover'', ''forgot'', ''pass'', ''login'', ''credentials'']),
     (''subscription_cancel'', [''cancel'', ''subscription'', ''membership'', ''unsubscribe'', ''billing'', ''terminate'',
        ''plan'', ''stop'']),
     (''rate_limits'', [''rate'', ''limit'', ''limits'', ''api'', ''quota'', ''throttling'', ''requests'', ''minute'', ''second'',
        ''rps'']),
     (''invoices'', [''invoice'', ''invoices'', ''receipt'', ''receipts'', ''billing'', ''pdf'', ''csv'', ''tax'', ''payment'',
        ''export'', ''download'']),
     (''team_management'', [''team'', ''invite'', ''coworker'', ''coworkers'', ''member'', ''members'', ''workspace'',
        ''colleague'', ''role'', ''add''])]"

text \<open>\<open>re.findall(r"\b\w+\b", s)\<close>: the longest runs of word characters.\<close>

function words :: "(nat \<Rightarrow> bool) \<Rightarrow> ustr \<Rightarrow> ustr list" where
  "words is_word s =
     (let s1 = dropWhile (\<lambda>c. \<not> is_word c) s in
      if s1 = [] then [] else takeWhile is_word s1 # words is_word (dropWhile is_word s1))"
  by pat_completeness auto
termination
proof (relation "measure (\<lambda>(is_word, s). length s)")
  fix is_word :: "nat \<Rightarrow> bool" and s s1
  assume s1: "s1 = dropWhile (\<lambda>c. \<not> is_word c) s" "s1 \<noteq> []"
  then have "is_word (hd s1)" using hd_dropWhile by metis
  then have "length (dropWhile is_word s1) < length s1"
    using s1(2) length_dropWhile_le [of is_word "tl s1"] by (cases s1) auto
  also have "\<dots> \<le> length s" unfolding s1(1) by (rule length_dropWhile_le)
  finally show "((is_word, dropWhile is_word s1), is_word, s) \<in> measure (\<lambda>(is_word, s). length s)" by simp
qed simp

declare words.simps [simp del]

text \<open>\<open>int(hexdigest, 16)\<close> of a digest.\<close>

definition digest_int :: "bytes \<Rightarrow> nat" where
  "digest_int d = le_nat (rev d)"

definition add_at :: "'f arith \<Rightarrow> nat \<Rightarrow> 'f \<Rightarrow> 'f list \<Rightarrow> 'f list" where
  "add_at A i x vec = vec[i := fa_add A (vec ! i) x]"

text \<open>One cluster, and one word.\<close>

definition project_cluster :: "'f arith \<Rightarrow> (bytes \<Rightarrow> bytes) \<Rightarrow> int \<Rightarrow> ustr list \<Rightarrow> string \<times> string list \<Rightarrow> 'f list \<Rightarrow> exc + 'f list" where
  "project_cluster A md5 dimension ws cluster vec =
     (let found = length (filter (\<lambda>w. w \<in> set (map u (snd cluster))) ws);
          seed = digest_int (md5 (fst cluster)) in
      if found = 0 then Inr vec
      else if dimension = 0 then Inl BuiltinZeroDivisionError
      else if dimension < 0 then Inl BuiltinIndexError
      else Inr (fold (\<lambda>offset. add_at A ((seed + offset * 11) mod nat dimension) (fa_mul A (fa_int A 3) (fa_int A (int found))))
        [0..<32] vec))"

definition project_word :: "'f arith \<Rightarrow> (bytes \<Rightarrow> bytes) \<Rightarrow> int \<Rightarrow> ustr \<Rightarrow> 'f list \<Rightarrow> exc + 'f list" where
  "project_word A sha256 dimension w vec =
     bind_sum (utf8_encode w) (\<lambda>raw.
     let h = digest_int (sha256 raw) in
     if dimension = 0 then Inl BuiltinZeroDivisionError
     else if dimension < 0 then Inl BuiltinIndexError
     else Inr (add_at A (drop_bit 32 h mod nat dimension) (fa_div A (fa_int A 1) (fa_int A 4))
         (add_at A (drop_bit 16 h mod nat dimension) (fa_div A (fa_int A 1) (fa_int A 2))
         (add_at A (h mod nat dimension) (fa_int A 1) vec))))"

fun project_all :: "('a \<Rightarrow> 'v \<Rightarrow> exc + 'v) \<Rightarrow> 'a list \<Rightarrow> 'v \<Rightarrow> exc + 'v" where
  "project_all f [] vec = Inr vec"
| "project_all f (x # xs) vec = bind_sum (f x vec) (project_all f xs)"

definition norm_of :: "'f arith \<Rightarrow> 'f list \<Rightarrow> 'f" where
  "norm_of A vec = fa_sqrt A (foldl (fa_add A) (fa_int A 0) (map (\<lambda>x. fa_mul A x x) vec))"

text \<open>\<open>MockEmbedder(dimension).encode(text)\<close>. With a negative dimension the vector is empty, so that every index is
  out of range, and \<open>math.sqrt\<close> raises.\<close>

definition mock_encode :: "'f arith \<Rightarrow> (nat \<Rightarrow> bool) \<Rightarrow> (ustr \<Rightarrow> ustr) \<Rightarrow> (bytes \<Rightarrow> bytes) \<Rightarrow> (bytes \<Rightarrow> bytes) \<Rightarrow> int \<Rightarrow> 'f encoder" where
  "mock_encode A is_word lower md5 sha256 dimension text =
     (let ws = words is_word (lower text) in
      if ws = [] then
        (if dimension = 0 then Inl BuiltinZeroDivisionError
         else if dimension < 0 then Inl BuiltinValueError
         else Inr (replicate (nat dimension) (fa_div A (fa_int A 1) (fa_sqrt A (fa_int A dimension)))))
      else
        map_sumE (\<lambda>vec. let n = norm_of A vec in
            if fa_less A (fa_tiny A) n then map (\<lambda>x. fa_div A x n) vec else vec)
          (bind_sum (project_all (project_cluster A md5 dimension ws) SEMANTIC_CLUSTERS (replicate (nat dimension) (fa_int A 0)))
            (project_all (project_word A sha256 dimension) ws)))"

section \<open>Theorems about the embedders\<close>

text \<open>Adding what is not negative keeps components from shrinking.\<close>

definition dominates :: "real list \<Rightarrow> real list \<Rightarrow> bool" where
  "dominates v v' \<longleftrightarrow> length v' = length v \<and> (\<forall>i < length v. v ! i \<le> v' ! i)"

lemma dominates_refl: "dominates v v"
  by (simp add: dominates_def)

lemma dominates_trans: "dominates v v' \<Longrightarrow> dominates v' v'' \<Longrightarrow> dominates v v''"
  by (fastforce simp: dominates_def)

lemma dominates_add_at: "0 \<le> x \<Longrightarrow> dominates v (add_at (exact rnd) i x v)"
  by (cases "i < length v") (auto simp: dominates_def add_at_def nth_list_update)

lemma dominates_cluster:
  assumes "project_cluster (exact rnd) md5 dimension ws cluster v = Inr v'"
  shows "dominates v v'"
proof -
  have fold: "dominates v (fold (\<lambda>offset. add_at (exact rnd) (f offset) x) os v)" if "0 \<le> x" for f :: "nat \<Rightarrow> nat" and os x v
  proof (induction os arbitrary: v)
    case Nil
    show ?case by (simp add: dominates_refl)
  next
    case (Cons a os)
    show ?case using dominates_trans [OF dominates_add_at [OF that] Cons.IH] by simp
  qed
  show ?thesis
    using assms by (auto simp: project_cluster_def Let_def dominates_refl intro!: fold split: if_splits)
qed

lemma dominates_word:
  assumes "project_word (exact rnd) sha256 dimension w v = Inr v'" and "length v = nat dimension"
  shows "dominates v v' \<and> (\<exists>i < nat dimension. v ! i + 1 \<le> v' ! i)"
proof -
  obtain raw where raw: "utf8_encode w = Inr raw" "0 < dimension"
    using assms(1) by (auto simp: project_word_def Let_def bind_sum_def split: sum.splits if_splits)
  let ?h = "digest_int (sha256 raw)"
  let ?i = "?h mod nat dimension"
  let ?v1 = "add_at (exact rnd) ?i 1 v"
  have i: "?i < nat dimension" using raw(2) by simp
  have "v' = add_at (exact rnd) (drop_bit 32 ?h mod nat dimension) (1 / 4) (add_at (exact rnd) (drop_bit 16 ?h mod nat dimension) (1 / 2) ?v1)"
    using assms(1) raw by (simp add: project_word_def Let_def)
  then have "dominates ?v1 v'" using dominates_trans [OF dominates_add_at dominates_add_at] by auto
  moreover have "v ! ?i + 1 = ?v1 ! ?i" using i assms(2) by (simp add: add_at_def)
  moreover have "length ?v1 = nat dimension" using assms(2) by (simp add: add_at_def)
  ultimately have "v ! ?i + 1 \<le> v' ! ?i" using i by (auto simp: dominates_def)
  moreover have "dominates v ?v1" by (rule dominates_add_at) simp
  then have "dominates v v'" by (rule dominates_trans) (rule \<open>dominates ?v1 v'\<close>)
  ultimately show ?thesis using i by blast
qed

lemma dominates_all:
  assumes "project_all f xs v = Inr v'" and "\<And>x v v'. x \<in> set xs \<Longrightarrow> f x v = Inr v' \<Longrightarrow> length v = n \<Longrightarrow> dominates v v'"
    and "length v = n"
  shows "dominates v v'"
  using assms
proof (induction xs arbitrary: v)
  case Nil
  then show ?case by (simp add: dominates_refl)
next
  case (Cons x xs)
  then obtain v1 where v1: "f x v = Inr v1" "project_all f xs v1 = Inr v'"
    by (auto simp: bind_sum_def split: sum.splits)
  then have "dominates v v1" using Cons.prems(2) [of x v v1] Cons.prems(3) by simp
  moreover have "dominates v1 v'"
  proof (rule Cons.IH [OF v1(2)])
    show "dominates y y'" if "a \<in> set xs" "f a y = Inr y'" "length y = n" for a y y'
      using Cons.prems(2) [of a y y'] that by simp
    show "length v1 = n" using \<open>dominates v v1\<close> Cons.prems(3) by (simp add: dominates_def)
  qed
  ultimately show ?case by (rule dominates_trans)
qed

lemma norm_exact: "norm_of (exact rnd) v = sqrt (sum_list (map (\<lambda>x. x * x) v))"
proof -
  have "foldl (+) a xs = a + sum_list xs" for a :: real and xs
    by (induction xs arbitrary: a) simp_all
  then show ?thesis by (simp add: norm_of_def)
qed

lemma sum_squares_ge: "i < length v \<Longrightarrow> v ! i * v ! i \<le> sum_list (map (\<lambda>x. x * x) (v :: real list))"
  by (rule member_le_sum_list) auto

text \<open>C30: In exact arithmetic a mock embedding has the dimension asked for and length one, whatever the digests, the
  word characters and the text.\<close>

theorem mock_embedding_is_unit:
  assumes "mock_encode (exact rnd) is_word lower md5 sha256 dimension text = Inr vec"
  shows "length vec = nat dimension \<and> sum_list (map (\<lambda>x. x * x) vec) = 1"
proof (cases "words is_word (lower text) = []")
  case True
  then have "vec = replicate (nat dimension) (1 / sqrt (of_int dimension))" "0 < dimension"
    using assms by (auto simp: mock_encode_def split: if_splits)
  then show ?thesis by (simp add: sum_list_replicate)
next
  case False
  let ?ws = "words is_word (lower text)" and ?z = "replicate (nat dimension) (0 :: real)"
  obtain w ws where ws: "?ws = w # ws" using False by (cases ?ws) auto
  obtain v1 v2 v3 where v: "project_all (project_cluster (exact rnd) md5 dimension ?ws) SEMANTIC_CLUSTERS ?z = Inr v1"
      "project_word (exact rnd) sha256 dimension w v1 = Inr v2" "project_all (project_word (exact rnd) sha256 dimension) ws v2 = Inr v3"
      "vec = (let n = norm_of (exact rnd) v3 in if fa_less (exact rnd) (fa_tiny (exact rnd)) n then map (\<lambda>x. fa_div (exact rnd) x n) v3 else v3)"
    using assms False ws by (auto simp: mock_encode_def Let_def bind_sum_def split: sum.splits)
  have z: "dominates ?z v1" by (rule dominates_all [OF v(1) dominates_cluster]) simp_all
  then have len1: "length v1 = nat dimension" by (simp add: dominates_def)
  obtain i where i: "dominates v1 v2" "i < nat dimension" "v1 ! i + 1 \<le> v2 ! i" using dominates_word [OF v(2) len1] by blast
  then have len2: "length v2 = nat dimension" using len1 by (simp add: dominates_def)
  have "dominates v2 v3" by (rule dominates_all [OF v(3) _ len2]) (use dominates_word in blast)
  then have len3: "length v3 = nat dimension" and "v2 ! i \<le> v3 ! i" using len2 i(2) by (simp_all add: dominates_def)
  moreover have "0 \<le> v1 ! i" using z i(2) by (auto simp: dominates_def)
  ultimately have "1 \<le> v3 ! i" using i(3) by linarith
  then have "1 \<le> v3 ! i * v3 ! i" using mult_mono [of 1 "v3 ! i" 1 "v3 ! i"] by simp
  then have sq: "1 \<le> sum_list (map (\<lambda>x. x * x) v3)" using sum_squares_ge [of i v3] i(2) len3 by simp
  let ?n = "sqrt (sum_list (map (\<lambda>x. x * x) v3))"
  have n: "1 \<le> ?n" "?n * ?n = sum_list (map (\<lambda>x. x * x) v3)" using sq by simp_all
  moreover have "1 / 10 ^ 12 < (1 :: real)" by simp
  ultimately have "1 / 10 ^ 12 < ?n" by linarith
  then have "vec = map (\<lambda>x. x / ?n) v3" unfolding v(4) norm_exact Let_def exact_simps by (simp only: if_True)
  moreover have "sum_list (map (\<lambda>x. x / ?n * (x / ?n)) v3) = sum_list (map (\<lambda>x. x * x) v3) / (?n * ?n)" for v3
    by (induction v3) (simp_all add: field_simps add_divide_distrib)
  ultimately show ?thesis using len3 n sq by (simp add: o_def)
qed

lemma mock_embedding_is_unit_witness:
  "\<exists>vec. mock_encode (exact round) (\<lambda>c. c \<noteq> 32) (\<lambda>s. s) (\<lambda>b. b) (\<lambda>b. b) 3 (u ''hi'') = Inr vec \<and> length vec = 3 \<and>
     sum_list (map (\<lambda>x. x * x) vec) = 1"
proof -
  have ws: "words (\<lambda>c. c \<noteq> 32) (u ''hi'') = [u ''hi'']" by (simp add: words.simps u_def)
  have none: "project_all (project_cluster (exact round) (\<lambda>b. b) 3 [u ''hi'']) SEMANTIC_CLUSTERS v = Inr v" for v
    by (simp add: SEMANTIC_CLUSTERS_def project_cluster_def Let_def)
  have "utf8_encode (u ''hi'') = Inr ''hi''" by (rule utf8_encode_u) (simp add: ascii_def)
  then have word: "\<exists>v'. project_word (exact round) H 3 (u ''hi'') v = Inr v'" for H v by (simp add: project_word_def Let_def)
  then obtain v' where v': "project_word (exact round) (\<lambda>b. b) 3 (u ''hi'') (replicate (nat 3) (fa_int (exact round) 0)) = Inr v'"
    by blast
  have run: "mock_encode (exact round) (\<lambda>c. c \<noteq> 32) (\<lambda>s. s) (\<lambda>b. b) (\<lambda>b. b) 3 (u ''hi'') =
      Inr ((\<lambda>vec. let n = norm_of (exact round) vec in
        if fa_less (exact round) (fa_tiny (exact round)) n then map (\<lambda>x. fa_div (exact round) x n) vec else vec) v')"
    unfolding mock_encode_def Let_def ws none project_all.simps bind_sum_simps v' by (simp only: map_sumE_simps list.simps if_False)
  have three: "nat 3 = (3 :: nat)" by simp
  show ?thesis
    by (rule exI, rule conjI [OF run]) (rule mock_embedding_is_unit [OF run, unfolded three])
qed

end
