(* ===== verification/Semantic.thy ===== *)
theory Semantic
  imports Async_Client Embedders
begin

text \<open>
  \<open>semantic/cache.py\<close>: the semantic cache over a client. \<open>SemanticCache\<close> and \<open>AsyncSemanticCache\<close> are the same
  text over the two clients but for one line of \<open>get\<close>, so their common steps are definitions over a record of the
  client's operations, of which \<open>sync_ops\<close> and \<open>async_ops\<close> are the two instances. The embedding model is a
  parameter.
\<close>

section \<open>The client's operations\<close>

record ('s, 'f) cache_client =
  cc_get :: "arg \<Rightarrow> ('s, exc, resp) py"
  cc_set :: "arg \<Rightarrow> arg \<Rightarrow> int option \<Rightarrow> ('s, exc, bool) py"
  cc_vadd :: "arg \<Rightarrow> arg \<Rightarrow> 'f vector \<Rightarrow> arg option \<Rightarrow> int option \<Rightarrow> int \<Rightarrow> ustr list option \<Rightarrow> arg option \<Rightarrow> ('s, exc, bool) py"
  cc_vsearch :: "arg \<Rightarrow> 'f vector \<Rightarrow> int \<Rightarrow> 'f \<Rightarrow> int \<Rightarrow> ustr list option \<Rightarrow> ('s, exc, 'f vmatch list) py"
  cc_vdel :: "arg \<Rightarrow> arg \<Rightarrow> ('s, exc, bool) py"
  cc_vstats :: "arg \<Rightarrow> ('s, exc, (ustr \<times> resp) list option) py"

definition sync_ops :: "nat \<Rightarrow> 'f env \<Rightarrow> (client, 'f) cache_client" where
  "sync_ops depth env = \<lparr>cc_get = k_get depth, cc_set = (\<lambda>key value ex. k_set depth key value ex None),
     cc_vadd = k_vadd depth env, cc_vsearch = k_vsearch depth env, cc_vdel = k_vdel depth, cc_vstats = k_vstats depth env\<rparr>"

definition async_ops :: "nat \<Rightarrow> 'f env \<Rightarrow> (aclient, 'f) cache_client" where
  "async_ops depth env = \<lparr>cc_get = ak_get depth, cc_set = (\<lambda>key value ex. ak_set depth key value ex None),
     cc_vadd = ak_vadd depth env, cc_vsearch = ak_vsearch depth env, cc_vdel = ak_vdel depth, cc_vstats = ak_vstats depth env\<rparr>"

section \<open>The cache\<close>

record 'f semantic_cache =
  sc_index_name :: ustr
  sc_similarity_threshold :: 'f
  sc_ttl_seconds :: "int option"
  sc_workspace :: ustr
  sc_embedder :: "'f encoder"

text \<open>The embedder argument: none, a function without \<open>encode\<close>, or an adapter. \<open>CallableAdapter\<close> converts what the
  function returns.\<close>

datatype 'f embedder_arg = NoEmbedder | Function "ustr \<Rightarrow> exc + 'f pyval list" | Adapter "'f encoder"

text \<open>\<open>_auto_select_embedder\<close>: what constructing the two model adapters gives, and the mock.\<close>

definition auto_select_embedder :: "exc + 'f encoder \<Rightarrow> exc + 'f encoder \<Rightarrow> 'f encoder \<Rightarrow> 'f encoder" where
  "auto_select_embedder fastembed sentence_transformers mock =
     (case fastembed of Inr e \<Rightarrow> e
      | Inl _ \<Rightarrow> (case sentence_transformers of Inr e \<Rightarrow> e | Inl _ \<Rightarrow> mock))"

definition SemanticCache :: "'f env \<Rightarrow> 'f encoder \<Rightarrow> ustr \<Rightarrow> 'f \<Rightarrow> int option \<Rightarrow> 'f embedder_arg \<Rightarrow> ustr \<Rightarrow> 'f semantic_cache" where
  "SemanticCache env auto index_name similarity_threshold ttl_seconds embedder workspace =
     \<lparr>sc_index_name = index_name, sc_similarity_threshold = similarity_threshold, sc_ttl_seconds = ttl_seconds,
      sc_workspace = workspace,
      sc_embedder = (case embedder of NoEmbedder \<Rightarrow> auto | Function fn \<Rightarrow> CallableAdapter env fn | Adapter e \<Rightarrow> e)\<rparr>"

record 'f search_result =
  r_key :: ustr
  r_similarity :: 'f
  r_value :: ustr
  r_is_exact :: bool
  r_parent_key :: "ustr option"
  r_chunk :: "ustr option"

text \<open>\<open>f"doc:{self.workspace}:{prompt.strip()}"\<close>.\<close>

definition doc_key :: "'f semantic_cache \<Rightarrow> ustr \<Rightarrow> arg" where
  "doc_key c prompt = Str (u ''doc:'' @ sc_workspace c @ u '':'' @ strip prompt)"

definition cache_set :: "('s, 'f) cache_client \<Rightarrow> 'f semantic_cache \<Rightarrow> ustr \<Rightarrow> ustr \<Rightarrow> int option \<Rightarrow> int \<Rightarrow>
    ustr list option \<Rightarrow> ustr option \<Rightarrow> bool \<Rightarrow> ('s, exc, bool) py" where
  "cache_set cl c prompt response ttl_seconds tag_mask tags parent_key store_exact =
     (let ex = (case ttl_seconds of Some n \<Rightarrow> Some n | None \<Rightarrow> sc_ttl_seconds c) in
      bindE (if store_exact \<and> sc_workspace c \<noteq> []
             then bindE (cc_set cl (doc_key c prompt) (Str response) ex) (\<lambda>_. ret ()) else ret ()) (\<lambda>_.
      bindE (liftE (sc_embedder c prompt)) (\<lambda>vector.
      cc_vadd cl (Str (sc_index_name c)) (Str prompt) (Floats vector) (Some (Str response)) ex
        (if tag_mask > 0 then tag_mask else 0) tags (map_option Str parent_key))))"

text \<open>\<open>v.decode("utf-8") if isinstance(v, bytes) else str(v)\<close> of a reply that is a string; \<open>None\<close> for one that
  is not.\<close>

definition reply_text :: "resp \<Rightarrow> exc + ustr option" where
  "reply_text v = (case v of
      RBytes b \<Rightarrow> map_sumE Some (utf8_decode b)
    | RStr s \<Rightarrow> Inr (Some s)
    | _ \<Rightarrow> Inr None)"

text \<open>A key looked up in a \<open>try\<close> that passes over every exception.\<close>

definition try_get :: "('s, 'f) cache_client \<Rightarrow> arg \<Rightarrow> ('s, exc, ustr option) py" where
  "try_get cl key = try_except (bindE (cc_get cl key) (\<lambda>v. liftE (reply_text v))) (\<lambda>_. ret None)"

text \<open>Truth of a component of a match, and what is read from one.\<close>

definition falsy :: "'f env \<Rightarrow> 'f pyval \<Rightarrow> bool" where
  "falsy env v = (case v of PStr s \<Rightarrow> s = [] | PBytes b \<Rightarrow> b = [] | PNone \<Rightarrow> True | PInt i \<Rightarrow> i = 0
    | PFloat f \<Rightarrow> f = e_zero env | PTuple xs \<Rightarrow> xs = [])"

definition decoded :: "'f env \<Rightarrow> 'f pyval \<Rightarrow> exc + ustr" where
  "decoded env v = (case v of PBytes b \<Rightarrow> utf8_decode b | _ \<Rightarrow> Inr (str_pyval env v))"

text \<open>Key, score, payload and parent of the best match; a match has three components, so \<open>best[3]\<close> is never
  reached.\<close>

definition read_match :: "'f env \<Rightarrow> 'f vmatch \<Rightarrow> exc + ustr \<times> 'f \<times> ustr \<times> ustr option" where
  "read_match env best =
     bind_sum (decoded env (m_id best)) (\<lambda>key.
     bind_sum (py_float env (m_score best)) (\<lambda>score.
     bind_sum (case m_payload best of PBytes b \<Rightarrow> utf8_decode b
               | v \<Rightarrow> Inr (if falsy env v then [] else str_pyval env v)) (\<lambda>val.
     map_sumE (\<lambda>parent. (key, score, val, parent))
       (if falsy env (m_parent_key best) then Inr None else map_sumE Some (decoded env (m_parent_key best))))))"

text \<open>\<open>1.0\<close>.\<close>

definition one :: "'f env \<Rightarrow> 'f" where
  "one env = or_zero env (e_float_int env 1)"

text \<open>Step 1, the exact lookup.\<close>

definition exact_lookup :: "('s, 'f) cache_client \<Rightarrow> 'f env \<Rightarrow> 'f semantic_cache \<Rightarrow> ustr \<Rightarrow> bool \<Rightarrow>
    ('s, exc, 'f search_result option) py" where
  "exact_lookup cl env c prompt exact_first =
     (if exact_first \<and> sc_workspace c \<noteq> []
      then bindE (try_get cl (doc_key c prompt)) (\<lambda>found. ret (map_option (\<lambda>val.
        \<lparr>r_key = strip prompt, r_similarity = one env, r_value = val, r_is_exact = True, r_parent_key = None,
         r_chunk = None\<rparr>) found))
      else ret None)"

text \<open>Step 2, the search.\<close>

definition search :: "('s, 'f) cache_client \<Rightarrow> 'f semantic_cache \<Rightarrow> ustr \<Rightarrow> 'f option \<Rightarrow> int \<Rightarrow> ustr list option \<Rightarrow>
    ('s, exc, 'f vmatch list) py" where
  "search cl c prompt threshold filter_mask filter_tags =
     bindE (liftE (sc_embedder c prompt)) (\<lambda>vector.
     cc_vsearch cl (Str (sc_index_name c)) (Floats vector) 1
       (case threshold of Some th \<Rightarrow> th | None \<Rightarrow> sc_similarity_threshold c)
       (if filter_mask > 0 then filter_mask else 0) filter_tags)"

text \<open>Step 3, the expansion to the parent document.\<close>

definition expand_parent :: "('s, 'f) cache_client \<Rightarrow> bool \<Rightarrow> ustr \<times> 'f \<times> ustr \<times> ustr option \<Rightarrow>
    ('s, exc, 'f search_result option) py" where
  "expand_parent cl resolve_parent best = (case best of (key, score, val, parent) \<Rightarrow>
     (case parent of
        Some p \<Rightarrow>
          if resolve_parent \<and> p \<noteq> []
          then bindE (try_get cl (Str p)) (\<lambda>found. ret (map_option (\<lambda>content.
            \<lparr>r_key = key, r_similarity = score, r_value = content, r_is_exact = False, r_parent_key = Some p,
             r_chunk = Some val\<rparr>) found))
          else ret None
      | None \<Rightarrow> ret None))"

text \<open>\<open>get\<close>, with the chunk of a result whose parent was not expanded.\<close>

definition get_with :: "(ustr \<Rightarrow> ustr option \<Rightarrow> ustr option) \<Rightarrow> ('s, 'f) cache_client \<Rightarrow> 'f env \<Rightarrow> 'f semantic_cache \<Rightarrow>
    ustr \<Rightarrow> 'f option \<Rightarrow> int \<Rightarrow> ustr list option \<Rightarrow> bool \<Rightarrow> bool \<Rightarrow> ('s, exc, 'f search_result option) py" where
  "get_with chunk cl env c prompt threshold filter_mask filter_tags exact_first resolve_parent =
     bindE (exact_lookup cl env c prompt exact_first) (\<lambda>exact. case exact of
       Some r \<Rightarrow> ret (Some r)
     | None \<Rightarrow>
         bindE (search cl c prompt threshold filter_mask filter_tags) (\<lambda>matches. case matches of
           [] \<Rightarrow> ret None
         | best # _ \<Rightarrow>
             bindE (liftE (read_match env best)) (\<lambda>m.
             bindE (expand_parent cl resolve_parent m) (\<lambda>expanded. case expanded of
               Some r \<Rightarrow> ret (Some r)
             | None \<Rightarrow> (case m of (key, score, val, parent) \<Rightarrow>
                 ret (Some \<lparr>r_key = key, r_similarity = score, r_value = val, r_is_exact = False,
                   r_parent_key = parent, r_chunk = chunk val parent\<rparr>))))))"

text \<open>\<open>chunk=val_str if parent_k else None\<close> in the one, \<open>chunk=val_str\<close> in the other.\<close>

definition sc_get :: "('s, 'f) cache_client \<Rightarrow> 'f env \<Rightarrow> 'f semantic_cache \<Rightarrow>
    ustr \<Rightarrow> 'f option \<Rightarrow> int \<Rightarrow> ustr list option \<Rightarrow> bool \<Rightarrow> bool \<Rightarrow> ('s, exc, 'f search_result option) py" where
  "sc_get = get_with (\<lambda>val parent. if parent = None \<or> parent = Some [] then None else Some val)"

definition asc_get :: "('s, 'f) cache_client \<Rightarrow> 'f env \<Rightarrow> 'f semantic_cache \<Rightarrow>
    ustr \<Rightarrow> 'f option \<Rightarrow> int \<Rightarrow> ustr list option \<Rightarrow> bool \<Rightarrow> bool \<Rightarrow> ('s, exc, 'f search_result option) py" where
  "asc_get = get_with (\<lambda>val parent. Some val)"

definition cache_delete :: "('s, 'f) cache_client \<Rightarrow> 'f semantic_cache \<Rightarrow> ustr \<Rightarrow> ('s, exc, bool) py" where
  "cache_delete cl c prompt = cc_vdel cl (Str (sc_index_name c)) (Str prompt)"

definition cache_stats :: "('s, 'f) cache_client \<Rightarrow> 'f semantic_cache \<Rightarrow> ('s, exc, (ustr \<times> resp) list) py" where
  "cache_stats cl c = bindE (cc_vstats cl (Str (sc_index_name c))) (\<lambda>stats.
     ret (case stats of None \<Rightarrow> [] | Some d \<Rightarrow> d))"

text \<open>The methods of the two classes that are the same text. \<open>AsyncSemanticCache.__init__\<close> calls
  \<open>SemanticCache._auto_select_embedder\<close> itself.\<close>

definition AsyncSemanticCache :: "'f env \<Rightarrow> 'f encoder \<Rightarrow> ustr \<Rightarrow> 'f \<Rightarrow> int option \<Rightarrow> 'f embedder_arg \<Rightarrow> ustr \<Rightarrow> 'f semantic_cache" where
  "AsyncSemanticCache = SemanticCache"

definition sc_set :: "nat \<Rightarrow> 'f env \<Rightarrow> 'f semantic_cache \<Rightarrow> ustr \<Rightarrow> ustr \<Rightarrow> int option \<Rightarrow> int \<Rightarrow> ustr list option \<Rightarrow>
    ustr option \<Rightarrow> bool \<Rightarrow> bool client_op" where
  "sc_set depth env = cache_set (sync_ops depth env)"

definition asc_set :: "nat \<Rightarrow> 'f env \<Rightarrow> 'f semantic_cache \<Rightarrow> ustr \<Rightarrow> ustr \<Rightarrow> int option \<Rightarrow> int \<Rightarrow> ustr list option \<Rightarrow>
    ustr option \<Rightarrow> bool \<Rightarrow> bool aclient_op" where
  "asc_set depth env = cache_set (async_ops depth env)"

definition sc_delete :: "nat \<Rightarrow> 'f env \<Rightarrow> 'f semantic_cache \<Rightarrow> ustr \<Rightarrow> bool client_op" where
  "sc_delete depth env = cache_delete (sync_ops depth env)"

definition asc_delete :: "nat \<Rightarrow> 'f env \<Rightarrow> 'f semantic_cache \<Rightarrow> ustr \<Rightarrow> bool aclient_op" where
  "asc_delete depth env = cache_delete (async_ops depth env)"

definition sc_stats :: "nat \<Rightarrow> 'f env \<Rightarrow> 'f semantic_cache \<Rightarrow> (ustr \<times> resp) list client_op" where
  "sc_stats depth env = cache_stats (sync_ops depth env)"

definition asc_stats :: "nat \<Rightarrow> 'f env \<Rightarrow> 'f semantic_cache \<Rightarrow> (ustr \<times> resp) list aclient_op" where
  "asc_stats depth env = cache_stats (async_ops depth env)"

section \<open>Theorems about the semantic cache\<close>

lemma doc_key_strip: "strip p = strip q \<Longrightarrow> doc_key c p = doc_key c q"
  by (simp add: doc_key_def)

lemma try_get_cases:
  "try_get cl key s = (case cc_get cl key s of
     (Inl e, s') \<Rightarrow> (Inr None, s')
   | (Inr v, s') \<Rightarrow> (Inr (case reply_text v of Inl e \<Rightarrow> None | Inr x \<Rightarrow> x), s'))"
  by (simp add: try_get_def try_except_run bindE_run split: prod.split sum.split)

lemma try_get_total: "\<exists>x s'. try_get cl key s = (Inr x, s')"
  by (simp add: try_get_cases split: prod.split sum.split)

lemma exact_lookup_total: "\<exists>x s'. exact_lookup cl env c prompt exact_first s = (Inr x, s')"
  using try_get_total [of cl "doc_key c prompt" s] by (auto simp: exact_lookup_def bindE_run)

lemma expand_parent_total: "\<exists>x s'. expand_parent cl resolve m s = (Inr x, s')"
proof (cases m)
  case (fields key score val parent)
  then show ?thesis
    using try_get_total [of cl "Str (the parent)" s]
    by (cases parent) (auto simp: expand_parent_def bindE_run)
qed

text \<open>With a workspace, a response that was stored for a prompt is found by every prompt that differs only in
  surrounding whitespace, as an exact match, without embedding or search: \<open>set\<close> and \<open>get\<close> use the same key.\<close>

theorem stored_prompt_found_exactly:
  assumes "sc_workspace c \<noteq> []" and "strip q = strip p"
    and "cc_set cl (doc_key c p) (Str response) (case ttl of Some n \<Rightarrow> Some n | None \<Rightarrow> sc_ttl_seconds c) s = (Inr ok, s1)"
    and "cache_set cl c p response ttl tag_mask tags parent True s = (Inr b, s2)"
    and "cc_get cl (doc_key c p) s2 = (Inr v, s3)" and "reply_text v = Inr (Some response)"
  shows "sc_get cl env c q threshold filter_mask filter_tags True resolve s2 =
      (Inr (Some \<lparr>r_key = strip q, r_similarity = one env, r_value = response, r_is_exact = True,
         r_parent_key = None, r_chunk = None\<rparr>), s3) \<and>
    (\<exists>vector. sc_embedder c p = Inr vector \<and>
      cc_vadd cl (Str (sc_index_name c)) (Str p) (Floats vector) (Some (Str response))
        (case ttl of Some n \<Rightarrow> Some n | None \<Rightarrow> sc_ttl_seconds c) (if tag_mask > 0 then tag_mask else 0) tags
        (map_option Str parent) s1 = (Inr b, s2))"
proof
  have "doc_key c q = doc_key c p" using assms(2) by (simp add: doc_key_def)
  then show "sc_get cl env c q threshold filter_mask filter_tags True resolve s2 =
      (Inr (Some \<lparr>r_key = strip q, r_similarity = one env, r_value = response, r_is_exact = True,
         r_parent_key = None, r_chunk = None\<rparr>), s3)"
    using assms(1,5,6) by (simp add: sc_get_def get_with_def exact_lookup_def try_get_cases bindE_run)
  show "\<exists>vector. sc_embedder c p = Inr vector \<and>
      cc_vadd cl (Str (sc_index_name c)) (Str p) (Floats vector) (Some (Str response))
        (case ttl of Some n \<Rightarrow> Some n | None \<Rightarrow> sc_ttl_seconds c) (if tag_mask > 0 then tag_mask else 0) tags
        (map_option Str parent) s1 = (Inr b, s2)"
    using assms(1,3,4) by (auto simp: cache_set_def bindE_run Let_def split: sum.splits)
qed

text \<open>C23: Over the same client operations, the asynchronous cache returns what the synchronous one returns and
  leaves the same state, except that a match without an expanded parent carries its value as its chunk even when
  it has no parent.\<close>

theorem async_cache_agrees:
  "asc_get cl env c prompt threshold filter_mask filter_tags exact_first resolve s =
    (case sc_get cl env c prompt threshold filter_mask filter_tags exact_first resolve s of
       (Inr (Some r), s') \<Rightarrow>
         (Inr (Some (if \<not> r_is_exact r \<and> r_chunk r = None then r\<lparr>r_chunk := Some (r_value r)\<rparr> else r)), s')
     | other \<Rightarrow> other)"
proof -
  obtain x s0 where x: "exact_lookup cl env c prompt exact_first s = (Inr x, s0)"
    using exact_lookup_total [of cl env c prompt exact_first s] by blast
  show ?thesis
  proof (cases x)
    case (Some r)
    then have "r_is_exact r" using x by (auto simp: exact_lookup_def bindE_run split: if_splits prod.splits sum.splits)
    then show ?thesis using x Some by (simp add: asc_get_def sc_get_def get_with_def bindE_run)
  next
    case None
    obtain found s1 where found: "search cl c prompt threshold filter_mask filter_tags s0 = (found, s1)"
      by (cases "search cl c prompt threshold filter_mask filter_tags s0")
    show ?thesis
    proof (cases "\<exists>m ms key score val parent. found = Inr (m # ms) \<and> read_match env m = Inr (key, score, val, parent)")
      case False
      then show ?thesis using x None found
        by (cases found) (auto simp: asc_get_def sc_get_def get_with_def bindE_run split: list.split sum.split)
    next
      case True
      then obtain m ms key score val parent where m: "found = Inr (m # ms)" "read_match env m = Inr (key, score, val, parent)"
        by blast
      obtain y s2 where y: "expand_parent cl resolve (key, score, val, parent) s1 = (Inr y, s2)"
        using expand_parent_total [of cl resolve "(key, score, val, parent)" s1] by blast
      have "r_chunk r \<noteq> None" if "y = Some r" for r
        using y that by (auto simp: expand_parent_def bindE_run split: option.splits if_splits prod.splits sum.splits)
      then show ?thesis using x None found m y
        by (cases y) (simp_all add: asc_get_def sc_get_def get_with_def bindE_run)
    qed
  qed
qed

text \<open>No failure of the two key lookups escapes \<open>get\<close>, whatever they raise: an exception of \<open>get\<close> is one of the
  embedding, of the search, or of decoding the best match.\<close>

theorem lookup_failures_do_not_escape:
  assumes "sc_get cl env c prompt threshold filter_mask filter_tags exact_first resolve s = (Inl e, s')"
  shows "\<exists>s0. exact_lookup cl env c prompt exact_first s = (Inr None, s0) \<and>
    (search cl c prompt threshold filter_mask filter_tags s0 = (Inl e, s') \<or>
     (\<exists>m ms. search cl c prompt threshold filter_mask filter_tags s0 = (Inr (m # ms), s') \<and> read_match env m = Inl e))"
proof -
  obtain x s0 where x: "exact_lookup cl env c prompt exact_first s = (Inr x, s0)"
    using exact_lookup_total [of cl env c prompt exact_first s] by blast
  then have none: "x = None" using assms by (auto simp: sc_get_def get_with_def bindE_run split: option.splits)
  obtain found s1 where found: "search cl c prompt threshold filter_mask filter_tags s0 = (found, s1)"
    by (cases "search cl c prompt threshold filter_mask filter_tags s0")
  show ?thesis
  proof (cases found)
    case (Inl e')
    then show ?thesis using assms x none found by (simp add: sc_get_def get_with_def bindE_run)
  next
    case (Inr matches)
    then obtain m ms where m: "matches = m # ms"
      using assms x none found by (cases matches) (auto simp: sc_get_def get_with_def bindE_run)
    show ?thesis
    proof (cases "read_match env m")
      case (Inl e')
      then show ?thesis using assms x none found Inr m by (simp add: sc_get_def get_with_def bindE_run)
    next
      case fields: (Inr f)
      obtain y s2 where y: "expand_parent cl resolve f s1 = (Inr y, s2)" using expand_parent_total [of cl resolve f s1] by blast
      then show ?thesis using assms x none found Inr m fields
        by (cases y; cases f) (simp_all add: sc_get_def get_with_def bindE_run)
    qed
  qed
qed

text \<open>When the best match has a parent, \<open>get\<close> asks for the parent's key; it returns the parent's content with the
  match as its chunk when that is a string, and otherwise the match itself.\<close>

theorem match_expanded_to_parent:
  assumes "exact_lookup cl env c prompt exact_first s = (Inr None, s0)"
    and "search cl c prompt threshold filter_mask filter_tags s0 = (Inr (m # ms), s1)"
    and "read_match env m = Inr (key, score, val, Some parent)" and "parent \<noteq> []"
  shows "sc_get cl env c prompt threshold filter_mask filter_tags exact_first True s =
    (case cc_get cl (Str parent) s1 of
       (reply, s2) \<Rightarrow> (Inr (Some \<lparr>r_key = key, r_similarity = score,
         r_value = (case bind_sum reply reply_text of Inr (Some content) \<Rightarrow> content | _ \<Rightarrow> val),
         r_is_exact = False, r_parent_key = Some parent, r_chunk = Some val\<rparr>), s2))"
proof (cases "cc_get cl (Str parent) s1")
  case (Pair reply s2)
  have "try_get cl (Str parent) s1 = (Inr (case bind_sum reply reply_text of Inr x \<Rightarrow> x | Inl _ \<Rightarrow> None), s2)"
    using Pair by (cases reply) (auto simp: try_get_cases split: sum.split)
  then show ?thesis
    using assms Pair
    by (cases "case bind_sum reply reply_text of Inr x \<Rightarrow> x | Inl _ \<Rightarrow> None")
      (auto simp: sc_get_def get_with_def bindE_run expand_parent_def split: sum.split option.split)
qed

text \<open>C22: On the library's own client inside a \<open>with\<close> block, for a cache with a workspace and a lookup with
  \<open>exact_first\<close>, a prompt whose key the server has is answered with one exchange: the bytes sent are exactly those of \<open>GET\<close> for the key of the stripped prompt, the text of the server's
  bulk reply is the value, and the connection is left ready with the replies behind it untouched.\<close>

theorem exact_hit_is_one_exchange:
  assumes "sc_workspace c \<noteq> []" and "k_conn k = Some i" and "i < length (p_conns (k_pool k))"
    and "conn_ready (conn_at (k_pool k) i)"
    and "conn_view (conn_at (k_pool k) i) = (resp_wire (RBytes b) @ rest, out, decoding)"
    and "utf8_decode b = Inr text" and "encode_command [word ''GET'', doc_key c q] = Inr w"
  shows "\<exists>conn. sc_get (sync_ops (Suc d) env) env c q threshold filter_mask filter_tags True resolve k =
      (Inr (Some \<lparr>r_key = strip q, r_similarity = one env, r_value = text, r_is_exact = True,
         r_parent_key = None, r_chunk = None\<rparr>), k\<lparr>k_pool := set_conn i conn (k_pool k)\<rparr>) \<and>
    conn_ready conn \<and> conn_view conn = (rest, out @ w, decoding)"
proof -
  obtain v where v: "decode_reply decoding (RBytes b) = Inr v" "reply_text v = Inr (Some text)"
    using assms(6) by (cases decoding) (auto simp: decode_reply_def reply_text_def)
  obtain conn where conn: "execute (Suc d) [word ''GET'', doc_key c q] k = (Inr v, k\<lparr>k_pool := set_conn i conn (k_pool k)\<rparr>)"
      "conn_ready conn" "conn_view conn = (rest, out @ w, decoding)"
    using dedicated_command [OF assms(2-5) _ _ assms(7) v(1), of "Suc d"] by auto
  then have "exact_lookup (sync_ops (Suc d) env) env c q True k =
      (Inr (Some \<lparr>r_key = strip q, r_similarity = one env, r_value = text, r_is_exact = True,
         r_parent_key = None, r_chunk = None\<rparr>), k\<lparr>k_pool := set_conn i conn (k_pool k)\<rparr>)"
    using assms(1) v(2) by (simp add: exact_lookup_def try_get_cases bindE_run sync_ops_def k_get_def)
  then show ?thesis using conn(2,3) by (auto simp: sc_get_def get_with_def)
qed

section \<open>Witnesses\<close>

text \<open>A client whose server is a table and answers every search alike.\<close>

definition table_ops :: "exc + nat vmatch list \<Rightarrow> ((arg \<times> arg) list, nat) cache_client" where
  "table_ops found = \<lparr>cc_get = (\<lambda>key s. (case map_of s key of Some (Str x) \<Rightarrow> Inr (RStr x)
       | Some (Bytes b) \<Rightarrow> Inr (RBytes b) | None \<Rightarrow> Inl ConnectionError, s)),
     cc_set = (\<lambda>key value ex s. (Inr True, (key, value) # s)),
     cc_vadd = (\<lambda>_ _ _ _ _ _ _ _ s. (Inr True, s)), cc_vsearch = (\<lambda>_ _ _ _ _ _ s. (found, s)),
     cc_vdel = (\<lambda>_ _ s. (Inr True, s)), cc_vstats = (\<lambda>_ s. (Inr None, s))\<rparr>"

definition plain_cache :: "nat semantic_cache" where
  "plain_cache = \<lparr>sc_index_name = u ''faq'', sc_similarity_threshold = 0, sc_ttl_seconds = None, sc_workspace = u ''w'',
     sc_embedder = (\<lambda>_. Inr [1])\<rparr>"

lemma strip_sample: "strip (u '' q '') = strip (u ''q'')"
  by (simp add: strip_def is_space_def u_def)

lemma stored_prompt_found_exactly_witness:
  "sc_get (table_ops (Inr [])) plain_env plain_cache (u '' q '') None 0 None True True [(doc_key plain_cache (u ''q''), Str (u ''a''))] =
    (Inr (Some \<lparr>r_key = strip (u '' q ''), r_similarity = 1, r_value = u ''a'', r_is_exact = True, r_parent_key = None, r_chunk = None\<rparr>),
     [(doc_key plain_cache (u ''q''), Str (u ''a''))])"
proof -
  let ?s = "[(doc_key plain_cache (u ''q''), Str (u ''a''))]"
  have one: "one plain_env = 1" by (simp add: one_def or_zero_def plain_env_def)
  have set: "cc_set (table_ops (Inr [])) (doc_key plain_cache (u ''q'')) (Str (u ''a''))
      (case None of Some n \<Rightarrow> Some n | None \<Rightarrow> sc_ttl_seconds plain_cache) [] = (Inr True, ?s)"
    by (simp add: table_ops_def)
  have store: "cache_set (table_ops (Inr [])) plain_cache (u ''q'') (u ''a'') None 0 None None True [] = (Inr True, ?s)"
    by (simp add: cache_set_def table_ops_def plain_cache_def bindE_run u_def)
  have get: "cc_get (table_ops (Inr [])) (doc_key plain_cache (u ''q'')) ?s = (Inr (RStr (u ''a'')), ?s)"
    by (simp add: table_ops_def)
  have "sc_workspace plain_cache \<noteq> []" "reply_text (RStr (u ''a'')) = Inr (Some (u ''a''))"
    by (simp_all add: plain_cache_def u_def reply_text_def)
  then show ?thesis
    using stored_prompt_found_exactly [OF _ strip_sample set store get, of plain_env None 0 None True] one by simp
qed

lemma lookup_failures_do_not_escape_witness:
  "\<exists>s0. exact_lookup (table_ops (Inl TimeoutError)) plain_env plain_cache (u ''q'') True [] = (Inr None, s0) \<and>
    search (table_ops (Inl TimeoutError)) plain_cache (u ''q'') None 0 None s0 = (Inl TimeoutError, [])"
proof -
  have "sc_get (table_ops (Inl TimeoutError)) plain_env plain_cache (u ''q'') None 0 None True True [] = (Inl TimeoutError, [])"
    by (simp add: sc_get_def get_with_def exact_lookup_def try_get_cases search_def bindE_run plain_cache_def table_ops_def)
  from lookup_failures_do_not_escape [OF this] show ?thesis
    by (auto simp: search_def bindE_run table_ops_def plain_cache_def)
qed

lemma match_expanded_to_parent_witness:
  "sc_get (table_ops (Inr [\<lparr>m_id = PStr (u ''k''), m_score = PFloat 1, m_payload = PNone, m_parent_key = PStr (u ''p'')\<rparr>]))
     plain_env plain_cache (u ''q'') None 0 None False True [(Str (u ''p''), Str (u ''doc''))] =
   (Inr (Some \<lparr>r_key = u ''k'', r_similarity = 1, r_value = u ''doc'', r_is_exact = False, r_parent_key = Some (u ''p''),
      r_chunk = Some []\<rparr>), [(Str (u ''p''), Str (u ''doc''))])"
proof -
  let ?m = "\<lparr>m_id = PStr (u ''k''), m_score = PFloat 1, m_payload = PNone, m_parent_key = PStr (u ''p'')\<rparr> :: nat vmatch"
  let ?s = "[(Str (u ''p''), Str (u ''doc''))]"
  have "exact_lookup (table_ops (Inr [?m])) plain_env plain_cache (u ''q'') False ?s = (Inr None, ?s)"
    by (simp add: exact_lookup_def)
  moreover have "search (table_ops (Inr [?m])) plain_cache (u ''q'') None 0 None ?s = (Inr (?m # []), ?s)"
    by (simp add: search_def bindE_run table_ops_def plain_cache_def)
  moreover have "read_match plain_env ?m = Inr (u ''k'', 1, [], Some (u ''p''))"
    by (simp add: read_match_def decoded_def str_pyval_def falsy_def py_float_def u_def)
  moreover have "u ''p'' \<noteq> []" by (simp add: u_def)
  ultimately show ?thesis
    using match_expanded_to_parent [of "table_ops (Inr [?m])" plain_env plain_cache "u ''q''" False ?s ?s None 0 None ?m "[]" ?s]
    by (simp add: table_ops_def reply_text_def)
qed

lemma exact_hit_is_one_exchange_witness:
  "\<exists>k' conn. sc_get (sync_ops 1 plain_env) plain_env plain_cache (u '' q '') None 0 None True True
      (in_block \<lparr>rx = [Data (''$2'' @ crlf @ ''ok'' @ crlf)], tx = [], sent = []\<rparr>) =
    (Inr (Some \<lparr>r_key = strip (u '' q ''), r_similarity = 1, r_value = u ''ok'', r_is_exact = True,
       r_parent_key = None, r_chunk = None\<rparr>), k') \<and>
    k_pool k' = set_conn 0 conn (k_pool (in_block \<lparr>rx = [Data (''$2'' @ crlf @ ''ok'' @ crlf)], tx = [], sent = []\<rparr>)) \<and>
    conn_view conn = ([], ''*2'' @ crlf @ ''$3'' @ crlf @ ''GET'' @ crlf @ ''$7'' @ crlf @ ''doc:w:q'' @ crlf, False)"
proof -
  let ?s = "\<lparr>rx = [Data (''$2'' @ crlf @ ''ok'' @ crlf)], tx = [], sent = []\<rparr>"
  have at: "conn_at (k_pool (in_block ?s)) 0 = local_connection (Some ?s)"
    by (simp add: in_block_def conn_at_def)
  have ready: "conn_ready (local_connection (Some ?s))" by code_simp
  have view: "conn_view (local_connection (Some ?s)) = (resp_wire (RBytes ''ok'') @ [], [], False)" by code_simp
  have key: "doc_key plain_cache (u '' q '') = Str (u ''doc:w:q'')"
    by (simp add: doc_key_def plain_cache_def u_def strip_def is_space_def)
  have w: "encode_command [word ''GET'', doc_key plain_cache (u '' q '')] =
      Inr (''*2'' @ crlf @ ''$3'' @ crlf @ ''GET'' @ crlf @ ''$7'' @ crlf @ ''doc:w:q'' @ crlf)"
    unfolding key by code_simp
  have utf8: "utf8_decode ''ok'' = Inr (u ''ok'')" by code_simp
  have one: "one plain_env = 1" by (simp add: one_def or_zero_def plain_env_def)
  have k: "sc_workspace plain_cache \<noteq> []" "k_conn (in_block ?s) = Some 0" "0 < length (p_conns (k_pool (in_block ?s)))"
    by (simp_all add: plain_cache_def u_def in_block_def)
  from exact_hit_is_one_exchange [OF k ready [folded at] view [folded at] utf8 w, of 0 plain_env None 0 None True] one
  show ?thesis by fastforce
qed

end
