(* ===== verification/Langchain.thy ===== *)
theory Langchain
  imports Kv_Store Semantic
begin

text \<open>
  \<open>integrations/langchain.py\<close>: the exact and the semantic cache for LangChain. LangChain's \<open>Generation\<close> is a
  parameter: a constructor from a text, which may refuse it, and the text of an object.
\<close>

section \<open>Generations\<close>

record ('f, 'g) generation_class =
  g_make :: "'f json \<Rightarrow> exc + 'g"
  g_text :: "'g \<Rightarrow> 'f json"

text \<open>The class that stands in when LangChain is not installed.\<close>

definition local_generation :: "('f, 'f json) generation_class" where
  "local_generation = \<lparr>g_make = Inr, g_text = (\<lambda>text. text)\<rparr>"

text \<open>\<open>[Generation(text=item.get("text", "")) for item in items]\<close>.\<close>

fun make_all :: "('f, 'g) generation_class \<Rightarrow> 'f json list \<Rightarrow> exc + 'g list" where
  "make_all G [] = Inr []"
| "make_all G (JDict kvs # items) =
     bind_sum (g_make G (case map_of kvs (u ''text'') of None \<Rightarrow> JStr [] | Some v \<Rightarrow> v)) (\<lambda>g.
     map_sumE (\<lambda>gs. g # gs) (make_all G items))"
| "make_all G (_ # items) = Inl BuiltinAttributeError"

definition read_generations :: "'f env \<Rightarrow> nat \<Rightarrow> ('f, 'g) generation_class \<Rightarrow> ustr \<Rightarrow> exc + 'g list option" where
  "read_generations env jd G val_str =
     (let as_text = map_sumE (\<lambda>g. Some [g]) (g_make G (JStr val_str)) in
      case json_loads env jd val_str of
        Inl _ \<Rightarrow> as_text
      | Inr (JList items) \<Rightarrow> (case make_all G items of Inl _ \<Rightarrow> as_text | Inr gs \<Rightarrow> Inr (Some gs))
      | Inr _ \<Rightarrow> Inr None)"

definition write_generations :: "'f env \<Rightarrow> nat \<Rightarrow> ('f, 'g) generation_class \<Rightarrow> 'g list \<Rightarrow> exc + ustr" where
  "write_generations env jd G return_val =
     json_dumps env jd (JList (map (\<lambda>g. JDict [(u ''text'', g_text G g)]) return_val))"

section \<open>The exact cache\<close>

record exact_cache =
  lc_ttl_seconds :: "int option"
  lc_namespace :: ustr

definition KacheDBCache :: "client \<Rightarrow> client option \<Rightarrow> int option \<Rightarrow> ustr \<Rightarrow> exact_cache \<times> client" where
  "KacheDBCache fresh client ttl_seconds namespace =
     (\<lparr>lc_ttl_seconds = ttl_seconds, lc_namespace = namespace\<rparr>, case client of None \<Rightarrow> fresh | Some k \<Rightarrow> k)"

definition hexdigest :: "bytes \<Rightarrow> string" where
  "hexdigest digest = concat (map (\<lambda>b. [hex_digit (of_char b div 16), hex_digit (of_char b mod 16)]) digest)"

definition lc_key :: "'f env \<Rightarrow> exact_cache \<Rightarrow> ustr \<Rightarrow> ustr \<Rightarrow> exc + arg" where
  "lc_key env c prompt llm_string =
     map_sumE (\<lambda>raw. Str (lc_namespace c @ u '':'' @ u (hexdigest (e_sha256 env raw))))
       (utf8_encode (prompt @ u ''::'' @ llm_string))"

definition lc_lookup :: "nat \<Rightarrow> nat \<Rightarrow> 'f env \<Rightarrow> ('f, 'g) generation_class \<Rightarrow> exact_cache \<Rightarrow> ustr \<Rightarrow> ustr \<Rightarrow>
    'g list option client_op" where
  "lc_lookup depth jd env G c prompt llm_string =
     bindE (liftE (lc_key env c prompt llm_string)) (\<lambda>key.
     bindE (k_get depth key) (\<lambda>val.
     if val = RNone then ret None
     else bindE (liftE (value_text env val)) (\<lambda>val_str. liftE (read_generations env jd G val_str))))"

definition lc_update :: "nat \<Rightarrow> nat \<Rightarrow> 'f env \<Rightarrow> ('f, 'g) generation_class \<Rightarrow> exact_cache \<Rightarrow> ustr \<Rightarrow> ustr \<Rightarrow> 'g list \<Rightarrow>
    unit client_op" where
  "lc_update depth jd env G c prompt llm_string return_val =
     bindE (liftE (lc_key env c prompt llm_string)) (\<lambda>key.
     bindE (liftE (write_generations env jd G return_val)) (\<lambda>serialized.
     bindE (k_set depth key (Str serialized) (lc_ttl_seconds c) None) (\<lambda>_. ret ())))"

text \<open>\<open>clear\<close> of both classes.\<close>

definition lc_clear :: "unit client_op" where
  "lc_clear = ret ()"

section \<open>The semantic cache\<close>

definition KacheDBSemanticCache :: "'f env \<Rightarrow> 'f encoder \<Rightarrow> client \<Rightarrow> client option \<Rightarrow> ustr \<Rightarrow> 'f \<Rightarrow> int option \<Rightarrow>
    'f embedder_arg \<Rightarrow> 'f semantic_cache \<times> client" where
  "KacheDBSemanticCache env auto fresh client index_name similarity_threshold ttl_seconds embedder =
     (SemanticCache env auto index_name similarity_threshold ttl_seconds embedder [],
      case client of None \<Rightarrow> fresh | Some k \<Rightarrow> k)"

definition ls_lookup :: "nat \<Rightarrow> nat \<Rightarrow> 'f env \<Rightarrow> ('f, 'g) generation_class \<Rightarrow> 'f semantic_cache \<Rightarrow> ustr \<Rightarrow> ustr \<Rightarrow>
    'g list option client_op" where
  "ls_lookup depth jd env G c prompt llm_string =
     bindE (sc_get (sync_ops depth env) env c prompt None 0 None True True) (\<lambda>found. case found of
        None \<Rightarrow> ret None
      | Some r \<Rightarrow> liftE (read_generations env jd G (r_value r)))"

definition ls_update :: "nat \<Rightarrow> nat \<Rightarrow> 'f env \<Rightarrow> ('f, 'g) generation_class \<Rightarrow> 'f semantic_cache \<Rightarrow> ustr \<Rightarrow> ustr \<Rightarrow> 'g list \<Rightarrow>
    unit client_op" where
  "ls_update depth jd env G c prompt llm_string return_val =
     bindE (liftE (write_generations env jd G return_val)) (\<lambda>serialized.
     bindE (sc_set depth env c prompt serialized None 0 None None True) (\<lambda>_. ret ()))"

section \<open>Theorems about the caches\<close>

text \<open>A generation that its class rebuilds from its text.\<close>

definition plain_generation :: "'f env \<Rightarrow> ('f, 'g) generation_class \<Rightarrow> 'g \<Rightarrow> bool" where
  "plain_generation env G g \<longleftrightarrow> g_make G (g_text G g) = Inr g \<and> json_ok env (g_text G g)"

lemma make_all_map:
  "list_all (plain_generation env G) gs \<Longrightarrow> make_all G (map (\<lambda>g. JDict [(u ''text'', g_text G g)]) gs) = Inr gs"
  by (induction gs) (auto simp: plain_generation_def)

lemma generations_round_trip:
  assumes "list_all (plain_generation env G) gs" and "write_generations env jd G gs = Inr text"
  shows "read_generations env jd G text = Inr (Some gs)"
proof -
  have "text_ok (u ''text'')" by (simp add: text_ok_def u_def)
  then have "json_ok env (JList (map (\<lambda>g. JDict [(u ''text'', g_text G g)]) gs))"
    using assms(1) by (auto simp: list_all_iff plain_generation_def)
  then have "json_loads env jd text = Inr (JList (map (\<lambda>g. JDict [(u ''text'', g_text G g)]) gs))"
    using assms(2) unfolding write_generations_def by (rule json_round_trip)
  then show ?thesis using make_all_map [OF assms(1)] by (simp add: read_generations_def Let_def)
qed

text \<open>C26: What \<open>update\<close> of the exact cache stores, \<open>lookup\<close> returns: inside a \<open>with\<close> block \<open>update\<close> sends \<open>SET\<close> under the
  hashed key with the time to live of the cache, and when the server answers the \<open>GET\<close> of that key with the stored
  bytes, \<open>lookup\<close> for the same prompt and model rebuilds the generations, in order. A prompt and a model that give
  the same text with \<open>::\<close> between them share the entry.\<close>

theorem update_lookup_round_trip:
  assumes "k_conn k = Some i" and "i < length (p_conns (k_pool k))" and "conn_ready (conn_at (k_pool k) i)"
    and "conn_view (conn_at (k_pool k) i) = (resp_wire (RStr (u ''OK'')) @ resp_wire (RBytes b) @ rest, out, decoding)"
    and "list_all (plain_generation env G) gs" and "write_generations env jd G gs = Inr text"
    and "utf8_encode text = Inr b" and "lc_key env c prompt llm = Inr key"
    and "prompt' @ u ''::'' @ llm' = prompt @ u ''::'' @ llm"
    and "encode_command ([word ''SET'', key, Str text] @
      (case lc_ttl_seconds c of None \<Rightarrow> [] | Some n \<Rightarrow> [word ''EX'', num n])) = Inr w1"
    and "encode_command [word ''GET'', key] = Inr w2"
  shows "\<exists>k1 conn. lc_update (Suc d) jd env G c prompt llm gs k = (Inr (), k1) \<and>
    lc_lookup (Suc d) jd env G c prompt' llm' k1 = (Inr (Some gs), k\<lparr>k_pool := set_conn i conn (k_pool k)\<rparr>) \<and>
    conn_ready conn \<and> conn_view conn = (rest, out @ w1 @ w2, decoding)"
proof -
  have "lc_key env c prompt' llm' = Inr key" using assms(8,9) by (simp add: lc_key_def)
  moreover have "\<exists>k1 v conn. execute (Suc d) ([word ''SET'', key, Str text] @
        (case lc_ttl_seconds c of None \<Rightarrow> [] | Some n \<Rightarrow> [word ''EX'', num n])) k = (Inr (RStr (u ''OK'')), k1) \<and>
      execute (Suc d) [word ''GET'', key] k1 = (Inr v, k\<lparr>k_pool := set_conn i conn (k_pool k)\<rparr>) \<and>
      v \<noteq> RNone \<and> value_text env v = Inr text \<and> conn_ready conn \<and> conn_view conn = (rest, out @ w1 @ w2, decoding)"
    by (rule set_get_exchange [OF assms(1-4,7,10,11)])
  ultimately show ?thesis
    using assms(6,8) generations_round_trip [OF assms(5,6)]
    by (cases "lc_ttl_seconds c") (fastforce simp: lc_update_def lc_lookup_def k_set_def k_get_def bindE_run)+
qed

section \<open>Witness\<close>

lemma update_lookup_round_trip_witness:
  "\<exists>k1 k2. lc_update 1 2 plain_env local_generation \<lparr>lc_ttl_seconds = Some 9, lc_namespace = u ''n''\<rparr> (u ''p'') (u ''m'') [JStr (u ''x'')]
      (in_block \<lparr>rx = [Data (''+OK'' @ crlf @ ''$15'' @ crlf @ [CHR 0x5B, CHR 0x7B, CHR 0x22] @ ''text'' @ [CHR 0x22] @ '': '' @
        [CHR 0x22] @ ''x'' @ [CHR 0x22] @ ''}]'' @ crlf)], tx = [], sent = []\<rparr>) = (Inr (), k1) \<and>
    lc_lookup 1 2 plain_env local_generation \<lparr>lc_ttl_seconds = Some 9, lc_namespace = u ''n''\<rparr> (u ''p'') (u ''m'') k1 =
      (Inr (Some [JStr (u ''x'')]), k2)"
proof -
  let ?b = "[CHR 0x5B, CHR 0x7B, CHR 0x22] @ ''text'' @ [CHR 0x22] @ '': '' @ [CHR 0x22] @ ''x'' @ [CHR 0x22] @ ''}]''"
  let ?s = "\<lparr>rx = [Data (''+OK'' @ crlf @ ''$15'' @ crlf @ [CHR 0x5B, CHR 0x7B, CHR 0x22] @ ''text'' @ [CHR 0x22] @ '': '' @
    [CHR 0x22] @ ''x'' @ [CHR 0x22] @ ''}]'' @ crlf)], tx = [], sent = []\<rparr>"
  let ?c = "\<lparr>lc_ttl_seconds = Some 9, lc_namespace = u ''n''\<rparr>" and ?key = "Str (u ''n:703a3a6d'')"
  have at: "conn_at (k_pool (in_block ?s)) 0 = local_connection (Some ?s)"
    by (simp add: in_block_def conn_at_def)
  have ready: "conn_ready (local_connection (Some ?s))" by code_simp
  have view: "conn_view (local_connection (Some ?s)) =
      (resp_wire (RStr (u ''OK'')) @ resp_wire (RBytes ?b) @ [], [], False)" by code_simp
  have k: "k_conn (in_block ?s) = Some 0" "0 < length (p_conns (k_pool (in_block ?s)))"
    by (simp_all add: in_block_def)
  have gs: "list_all (plain_generation plain_env local_generation) [JStr (u ''x'')]"
    by (simp add: plain_generation_def local_generation_def text_ok_def u_def)
  have stored: "write_generations plain_env 2 local_generation [JStr (u ''x'')] = Inr (u ?b)" by code_simp
  have utf8: "utf8_encode (u ?b) = Inr ?b" by code_simp
  have key: "lc_key plain_env ?c (u ''p'') (u ''m'') = Inr ?key" by code_simp
  have "\<not> isl (encode_command ([word ''SET'', ?key, Str (u ?b)] @
      (case lc_ttl_seconds ?c of None \<Rightarrow> [] | Some n \<Rightarrow> [word ''EX'', num n])))" by code_simp
  then obtain w1 where w1: "encode_command ([word ''SET'', ?key, Str (u ?b)] @
      (case lc_ttl_seconds ?c of None \<Rightarrow> [] | Some n \<Rightarrow> [word ''EX'', num n])) = Inr w1" by (metis sum.collapse(2))
  have "\<not> isl (encode_command [word ''GET'', ?key])" by code_simp
  then obtain w2 where w2: "encode_command [word ''GET'', ?key] = Inr w2" by (metis sum.collapse(2))
  from update_lookup_round_trip [OF k ready [folded at] view [folded at] gs stored utf8 key refl w1 w2, of 0]
  show ?thesis by fastforce
qed

end
