(* ===== verification/Chunker.thy ===== *)
theory Chunker
  imports Py_Text
begin

text \<open>
  \<open>semantic/chunker.py\<close>: cutting a Markdown document into chunks. The loop of \<open>chunk_document\<close> over the lines is a
  fold of \<open>chunk_line\<close> over a record of its local variables; the nested function \<open>flush_current_chunk\<close> is \<open>flush\<close>.
\<close>

section \<open>Text\<close>

text \<open>\<open>sep.join(xs)\<close>.\<close>

fun join :: "ustr \<Rightarrow> ustr list \<Rightarrow> ustr" where
  "join sep [] = []"
| "join sep [x] = x"
| "join sep (x # y # ys) = x @ sep @ join sep (y # ys)"

text \<open>\<open>s.splitlines()\<close>; a carriage return and the line feed behind it are one boundary.\<close>

definition line_break :: "nat \<Rightarrow> bool" where
  "line_break c \<longleftrightarrow> (10 \<le> c \<and> c \<le> 13) \<or> (28 \<le> c \<and> c \<le> 30) \<or> c = 133 \<or> c = 8232 \<or> c = 8233"

fun after_break :: "ustr \<Rightarrow> ustr" where
  "after_break [] = []"
| "after_break [c] = []"
| "after_break (c # d # s) = (if c = 13 \<and> d = 10 then s else d # s)"

lemma length_after_break: "length (after_break s) \<le> length s - 1"
  by (cases s rule: after_break.cases) auto

function splitlines :: "ustr \<Rightarrow> ustr list" where
  "splitlines s = (if s = [] then []
     else takeWhile (\<lambda>c. \<not> line_break c) s # splitlines (after_break (dropWhile (\<lambda>c. \<not> line_break c) s)))"
  by pat_completeness auto
termination
proof (relation "measure length")
  fix s :: ustr
  assume "s \<noteq> []"
  have "length (after_break (dropWhile (\<lambda>c. \<not> line_break c) s)) \<le> length (dropWhile (\<lambda>c. \<not> line_break c) s) - 1"
    by (rule length_after_break)
  also have "\<dots> < length s" using \<open>s \<noteq> []\<close> length_dropWhile_le [of "\<lambda>c. \<not> line_break c" s] by (cases s) auto
  finally show "(after_break (dropWhile (\<lambda>c. \<not> line_break c) s), s) \<in> measure length" by simp
qed simp

declare splitlines.simps [simp del]

text \<open>\<open>CODE_FENCE_REGEX.match(line)\<close>: three backquotes at the start.\<close>

definition is_fence :: "ustr \<Rightarrow> bool" where
  "is_fence line \<longleftrightarrow> take 3 line = [96, 96, 96]"

text \<open>\<open>HEADING_REGEX.match(line)\<close> on a line without a line feed: the number of number signs and the stripped second
  group. The greedy \<open>\s+\<close> gives one blank back to \<open>.+\<close> when nothing else follows.\<close>

definition heading_match :: "ustr \<Rightarrow> (nat \<times> ustr) option" where
  "heading_match line =
     (let level = length (takeWhile (\<lambda>c. c = 35) line);
          rest = dropWhile (\<lambda>c. c = 35) line;
          blanks = length (takeWhile is_space rest);
          group = dropWhile is_space rest
      in if level < 1 \<or> 6 < level \<or> blanks = 0 \<or> (group = [] \<and> blanks = 1) then None
         else Some (level, strip group))"

section \<open>The chunker\<close>

record document_chunk =
  dc_chunk_id :: ustr
  dc_content :: ustr
  dc_section_title :: ustr
  dc_parent_key :: ustr
  dc_token_count :: int

definition estimate_tokens :: "ustr \<Rightarrow> int" where
  "estimate_tokens text = (if text = [] then 0 else max 1 (int (length text) div 4))"

record chunker =
  ch_target_size :: int
  ch_overlap :: int

definition MarkdownChunker :: "int \<Rightarrow> int \<Rightarrow> chunker" where
  "MarkdownChunker target_chunk_size overlap =
     (let target_size = max 50 target_chunk_size
      in \<lparr>ch_target_size = target_size, ch_overlap = min overlap (target_size div 2)\<rparr>)"

text \<open>The local variables of \<open>chunk_document\<close>.\<close>

record chunking =
  cs_chunks :: "document_chunk list"
  cs_idx :: int
  cs_headings :: "(nat \<times> ustr) list"
  cs_lines :: "ustr list"
  cs_in_code :: bool

definition current_breadcrumb :: "chunking \<Rightarrow> ustr" where
  "current_breadcrumb st = (if cs_headings st = [] then u ''General'' else join (u '' > '') (map snd (cs_headings st)))"

definition chunk_key :: "ustr \<Rightarrow> int \<Rightarrow> ustr" where
  "chunk_key parent_key i = parent_key @ u '':chunk_'' @ u (py_str_int i)"

text \<open>The loop that collects the overlap, over the lines from the last one to the first.\<close>

fun keep_overlap :: "int \<Rightarrow> ustr list \<Rightarrow> int \<Rightarrow> ustr list \<Rightarrow> ustr list" where
  "keep_overlap overlap [] accum_tokens overlap_lines = overlap_lines"
| "keep_overlap overlap (line # before) accum_tokens overlap_lines =
     (if accum_tokens + estimate_tokens line > overlap then overlap_lines
      else keep_overlap overlap before (accum_tokens + estimate_tokens line) (line # overlap_lines))"

definition text_of :: "ustr list \<Rightarrow> ustr" where
  "text_of lines = join [10] lines"

definition flush :: "chunker \<Rightarrow> ustr \<Rightarrow> chunking \<Rightarrow> chunking" where
  "flush ch parent_key st =
     (let content = strip (text_of (cs_lines st)) in
      if content = [] then st\<lparr>cs_lines := []\<rparr>
      else st\<lparr>cs_chunks := cs_chunks st @ [\<lparr>dc_chunk_id = chunk_key parent_key (cs_idx st), dc_content = content,
                dc_section_title = current_breadcrumb st, dc_parent_key = parent_key,
                dc_token_count = estimate_tokens content\<rparr>],
              cs_idx := cs_idx st + 1,
              cs_lines := (if ch_overlap ch > 0 \<and> length (cs_lines st) > 1
                then keep_overlap (ch_overlap ch) (rev (cs_lines st)) 0 [] else [])\<rparr>)"

definition open_heading :: "nat \<Rightarrow> ustr \<Rightarrow> (nat \<times> ustr) list \<Rightarrow> (nat \<times> ustr) list" where
  "open_heading level title stack = rev (dropWhile (\<lambda>h. fst h \<ge> level) (rev stack)) @ [(level, title)]"

definition start_section :: "chunker \<Rightarrow> ustr \<Rightarrow> ustr \<Rightarrow> chunking \<Rightarrow> chunking" where
  "start_section ch parent_key line st =
     (if cs_in_code st then st
      else case heading_match line of
        None \<Rightarrow> st
      | Some (level, title) \<Rightarrow>
          (let st1 = st\<lparr>cs_headings := open_heading level title (cs_headings st)\<rparr> in
           if cs_lines st1 \<noteq> [] \<and> estimate_tokens (text_of (cs_lines st1)) \<ge> ch_target_size ch div 2
           then flush ch parent_key st1 else st1))"

definition chunk_line :: "chunker \<Rightarrow> ustr \<Rightarrow> ustr \<Rightarrow> chunking \<Rightarrow> chunking" where
  "chunk_line ch parent_key line st =
     (let st1 = (if is_fence line then st\<lparr>cs_in_code := \<not> cs_in_code st\<rparr> else st);
          st2 = start_section ch parent_key line st1;
          st3 = st2\<lparr>cs_lines := cs_lines st2 @ [line]\<rparr>
      in if estimate_tokens (text_of (cs_lines st3)) \<ge> ch_target_size ch \<and> \<not> cs_in_code st3
         then flush ch parent_key st3 else st3)"

definition chunking_init :: chunking where
  "chunking_init = \<lparr>cs_chunks = [], cs_idx = 0, cs_headings = [], cs_lines = [], cs_in_code = False\<rparr>"

definition chunk_document :: "chunker \<Rightarrow> ustr \<Rightarrow> ustr \<Rightarrow> document_chunk list" where
  "chunk_document ch parent_key markdown_text =
     (let text = strip markdown_text in
      if text = [] then []
      else if estimate_tokens text \<le> ch_target_size ch then
        [\<lparr>dc_chunk_id = chunk_key parent_key 0, dc_content = text, dc_section_title = u ''Root'',
          dc_parent_key = parent_key, dc_token_count = estimate_tokens text\<rparr>]
      else
        (let st = fold (chunk_line ch parent_key) (splitlines text) chunking_init
         in cs_chunks (if cs_lines st \<noteq> [] then flush ch parent_key st else st)))"

section \<open>Stripping and joining\<close>

lemma strip_Nil_iff: "strip s = [] \<longleftrightarrow> (\<forall>c \<in> set s. is_space c)"
proof -
  have "strip s = [] \<longleftrightarrow> (\<forall>c \<in> set (dropWhile is_space s). is_space c)"
    by (simp add: strip_def dropWhile_eq_Nil_conv)
  also have "\<dots> \<longleftrightarrow> (\<forall>c \<in> set s. is_space c)"
    by (induction s) auto
  finally show ?thesis .
qed

lemma set_join: "line \<in> set lines \<Longrightarrow> set line \<subseteq> set (text_of lines)"
  unfolding text_of_def
  by (induction "[10] :: ustr" lines rule: join.induct) auto

lemma blank_lines: "strip (text_of lines) = [] \<Longrightarrow> line \<in> set lines \<Longrightarrow> strip line = []"
  using set_join [of line lines] by (auto simp: strip_Nil_iff)

lemma keep_overlap_suffix: "\<exists>k. keep_overlap ov before t out = drop k (rev before @ out)"
proof (induction before arbitrary: t out)
  case Nil
  show ?case by (rule exI [of _ 0]) simp
next
  case (Cons line before)
  show ?case
  proof (cases "t + estimate_tokens line > ov")
    case True
    then show ?thesis by (intro exI [of _ "length (line # before)"]) simp
  next
    case False
    then show ?thesis using Cons [of "t + estimate_tokens line" "line # out"] by simp
  qed
qed

section \<open>Windows\<close>

text \<open>A chunk shows the lines from \<open>a\<close> up to \<open>b\<close>.\<close>

definition shows_window :: "ustr list \<Rightarrow> nat \<times> nat \<Rightarrow> document_chunk \<Rightarrow> bool" where
  "shows_window lines w c \<longleftrightarrow> fst w < snd w \<and> snd w \<le> length lines \<and>
     dc_content c = strip (text_of (drop (fst w) (take (snd w) lines)))"

definition fences :: "ustr list \<Rightarrow> nat" where
  "fences lines = length (filter is_fence lines)"

text \<open>The first \<open>n\<close> lines, blank ones excepted, are in one of the windows.\<close>

definition covered :: "(nat \<times> nat) list \<Rightarrow> ustr list \<Rightarrow> nat \<Rightarrow> bool" where
  "covered ws lines n \<longleftrightarrow> (\<forall>j < n. strip (lines ! j) \<noteq> [] \<longrightarrow> (\<exists>w \<in> set ws. fst w \<le> j \<and> j < snd w))"

definition numbered :: "ustr \<Rightarrow> document_chunk list \<Rightarrow> bool" where
  "numbered parent_key cs \<longleftrightarrow> (\<forall>i < length cs. dc_chunk_id (cs ! i) = chunk_key parent_key (int i) \<and>
     dc_parent_key (cs ! i) = parent_key \<and> dc_content (cs ! i) \<noteq> [] \<and>
     dc_token_count (cs ! i) = estimate_tokens (dc_content (cs ! i)))"

text \<open>No window ends inside a fenced block.\<close>

definition fences_closed :: "(nat \<times> nat) list \<Rightarrow> ustr list \<Rightarrow> bool" where
  "fences_closed ws lines \<longleftrightarrow> (\<forall>w \<in> set ws. even (fences (take (snd w) lines)))"

text \<open>The invariant of the loop after the lines \<open>seen\<close>: the lines that wait for a chunk are the last ones seen.\<close>

definition chunking_ok :: "ustr \<Rightarrow> ustr list \<Rightarrow> (nat \<times> nat) list \<Rightarrow> chunking \<Rightarrow> bool" where
  "chunking_ok parent_key seen ws st \<longleftrightarrow>
     list_all2 (shows_window seen) ws (cs_chunks st) \<and> sorted (map snd ws) \<and>
     numbered parent_key (cs_chunks st) \<and> cs_idx st = int (length (cs_chunks st)) \<and>
     (\<exists>n \<le> length seen. cs_lines st = drop n seen \<and> covered ws seen n) \<and>
     (cs_in_code st \<longleftrightarrow> odd (fences seen))"

lemma py_str_int_inj [simp]: "py_str_int i = py_str_int j \<longleftrightarrow> i = j"
  by (metis py_int_py_str_int sum.inject(2))

lemma chunk_key_inj [simp]: "chunk_key pk i = chunk_key pk j \<longleftrightarrow> i = j"
  by (simp add: chunk_key_def)

lemma numbered_snoc: "numbered pk (cs @ [c]) \<longleftrightarrow> numbered pk cs \<and> dc_chunk_id c = chunk_key pk (int (length cs)) \<and>
    dc_parent_key c = pk \<and> dc_content c \<noteq> [] \<and> dc_token_count c = estimate_tokens (dc_content c)"
  by (auto simp: numbered_def nth_append less_Suc_eq)

lemma covered_mono: "covered ws lines n \<Longrightarrow> set ws \<subseteq> set ws' \<Longrightarrow> m \<le> n \<Longrightarrow> covered ws' lines m"
  unfolding covered_def by (meson order_less_le_trans subsetD)

lemma snd_le: "list_all2 (shows_window seen) ws cs \<Longrightarrow> w \<in> set ws \<Longrightarrow> snd w \<le> length seen"
  by (auto simp: list_all2_conv_all_nth in_set_conv_nth shows_window_def)

text \<open>Flushing adds the window of the waiting lines, or drops them when they are blank.\<close>

lemma flush_ok:
  assumes ok: "chunking_ok pk seen ws st"
  shows "\<exists>ws'. chunking_ok pk seen ws' (flush ch pk st) \<and> (ws' = ws \<or> (\<exists>n. ws' = ws @ [(n, length seen)])) \<and>
    covered ws' seen (length seen)"
proof -
  obtain n where n: "n \<le> length seen" "cs_lines st = drop n seen" "covered ws seen n"
    using ok by (auto simp: chunking_ok_def)
  show ?thesis
  proof (cases "strip (text_of (cs_lines st)) = []")
    case True
    have "covered ws seen (length seen)" unfolding covered_def
    proof (intro allI impI)
      fix j assume j: "j < length seen" "strip (seen ! j) \<noteq> []"
      have "seen ! j \<notin> set (cs_lines st)" using blank_lines [OF True] j(2) by blast
      moreover have "seen ! j \<in> set (drop n seen)" if "n \<le> j"
        using nth_mem [of "j - n" "drop n seen"] j(1) that by simp
      ultimately have "j < n" using n(2) by (cases "j < n") auto
      then show "\<exists>w \<in> set ws. fst w \<le> j \<and> j < snd w" using n(3) j(2) by (auto simp: covered_def)
    qed
    then have "chunking_ok pk seen ws (flush ch pk st)"
      using ok True by (auto simp: chunking_ok_def flush_def Let_def intro!: exI [of _ "length seen"])
    then show ?thesis using \<open>covered ws seen (length seen)\<close> by blast
  next
    case False
    let ?w = "(n, length seen)" and ?st = "flush ch pk st"
    have less: "n < length seen"
    proof (rule ccontr)
      assume "\<not> n < length seen"
      then have "cs_lines st = []" using n(2) by simp
      then show False using False by (simp add: text_of_def)
    qed
    have all: "covered (ws @ [?w]) seen (length seen)"
      using n(3) by (fastforce simp: covered_def not_less [symmetric])
    obtain k where "cs_lines ?st = drop k (cs_lines st)"
    proof (cases "ch_overlap ch > 0 \<and> length (cs_lines st) > 1")
      case True
      then show ?thesis
        using False keep_overlap_suffix [of "ch_overlap ch" "rev (cs_lines st)" 0 "[]"] that by (auto simp: flush_def Let_def)
    next
      case no: False
      show ?thesis
      proof (rule that)
        show "cs_lines ?st = drop (length (cs_lines st)) (cs_lines st)"
          using False no by (auto simp: flush_def Let_def)
      qed
    qed
    then have "cs_lines ?st = drop (min (n + k) (length seen)) seen" using n(2) by (simp add: min_def add.commute)
    then have lines: "\<exists>m \<le> length seen. cs_lines ?st = drop m seen \<and> covered (ws @ [?w]) seen m"
      using covered_mono [OF all subset_refl] by (metis min.cobounded2)
    have "sorted (map snd (ws @ [?w]))"
      using ok snd_le by (fastforce simp: chunking_ok_def sorted_append)
    then have "chunking_ok pk seen (ws @ [?w]) ?st"
      using ok less False lines n(2)
      by (auto simp: chunking_ok_def flush_def Let_def numbered_snoc shows_window_def intro!: list_all2_appendI)
    then show ?thesis using all by blast
  qed
qed

lemma fences_closed_flush:
  "fences_closed ws seen \<Longrightarrow> even (fences seen) \<Longrightarrow> ws' = ws \<or> (\<exists>n. ws' = ws @ [(n, length seen)]) \<Longrightarrow>
   fences_closed ws' seen"
  by (auto simp: fences_closed_def)

text \<open>One more line seen.\<close>

lemma chunking_ok_snoc:
  assumes "chunking_ok pk seen ws st" and "b \<longleftrightarrow> odd (fences (seen @ [line]))"
  shows "chunking_ok pk (seen @ [line]) ws (st\<lparr>cs_lines := cs_lines st @ [line], cs_in_code := b\<rparr>)"
proof -
  have "list_all2 (shows_window (seen @ [line])) ws (cs_chunks st)"
    using assms(1) by (auto simp: chunking_ok_def shows_window_def elim!: list_all2_mono)
  moreover obtain n where "n \<le> length seen" "cs_lines st = drop n seen" "covered ws seen n"
    using assms(1) by (auto simp: chunking_ok_def)
  moreover from this have "covered ws (seen @ [line]) n" by (auto simp: covered_def nth_append)
  ultimately show ?thesis
    using assms by (auto simp: chunking_ok_def intro!: exI [of _ n])
qed

lemma fences_closed_snoc:
  "fences_closed ws seen \<Longrightarrow> chunking_ok pk seen ws st \<Longrightarrow> fences_closed ws (seen @ [line])"
  using snd_le by (fastforce simp: fences_closed_def chunking_ok_def)

lemma heading_not_fence: "is_fence line \<Longrightarrow> heading_match line = None"
  by (cases line) (auto simp: is_fence_def heading_match_def)

lemma start_section_ok:
  assumes "chunking_ok pk seen ws st" and "fences_closed ws seen"
  shows "\<exists>ws'. chunking_ok pk seen ws' (start_section ch pk line st) \<and> fences_closed ws' seen"
proof -
  have headings: "chunking_ok pk seen ws (st\<lparr>cs_headings := h\<rparr>)" for h
    using assms(1) by (simp add: chunking_ok_def)
  have "\<exists>ws'. chunking_ok pk seen ws' (flush ch pk (st\<lparr>cs_headings := h\<rparr>)) \<and> fences_closed ws' seen"
    if "\<not> cs_in_code st" for h
  proof -
    have "even (fences seen)" using that assms(1) by (simp add: chunking_ok_def)
    then show ?thesis
      using flush_ok [OF headings [of h], of ch] fences_closed_flush [OF assms(2)] by blast
  qed
  then show ?thesis
    using assms headings by (auto simp: start_section_def Let_def split: option.split)
qed

lemma chunk_line_ok:
  assumes "chunking_ok pk seen ws st" and "fences_closed ws seen"
  shows "\<exists>ws'. chunking_ok pk (seen @ [line]) ws' (chunk_line ch pk line st) \<and> fences_closed ws' (seen @ [line])"
proof -
  let ?st1 = "if is_fence line then st\<lparr>cs_in_code := \<not> cs_in_code st\<rparr> else st"
  let ?st2 = "start_section ch pk line ?st1"
  let ?st3 = "?st2\<lparr>cs_lines := cs_lines ?st2 @ [line]\<rparr>"
  have code: "odd (fences (seen @ [line])) \<longleftrightarrow> odd (fences seen) \<noteq> is_fence line"
    by (simp add: fences_def)
  obtain ws' where ws': "chunking_ok pk (seen @ [line]) ws' ?st3" "fences_closed ws' (seen @ [line])"
  proof (cases "is_fence line")
    case True
    then have "?st3 = st\<lparr>cs_lines := cs_lines st @ [line], cs_in_code := \<not> cs_in_code st\<rparr>"
      by (simp add: start_section_def heading_not_fence)
    moreover have "\<not> cs_in_code st \<longleftrightarrow> odd (fences (seen @ [line]))"
      using True code assms(1) by (simp add: chunking_ok_def)
    ultimately show ?thesis
      using that chunking_ok_snoc [OF assms(1)] fences_closed_snoc [OF assms(2,1)] by metis
  next
    case False
    obtain ws2 where ws2: "chunking_ok pk seen ws2 ?st2" "fences_closed ws2 seen"
      using start_section_ok [OF assms, of ch line] False by auto
    then have "cs_in_code ?st2 \<longleftrightarrow> odd (fences (seen @ [line]))" using False code by (simp add: chunking_ok_def)
    from chunking_ok_snoc [OF ws2(1) this] fences_closed_snoc [OF ws2(2,1)] show ?thesis using that by simp
  qed
  show ?thesis
  proof (cases "estimate_tokens (text_of (cs_lines ?st3)) \<ge> ch_target_size ch \<and> \<not> cs_in_code ?st3")
    case False
    then show ?thesis using ws' by (auto simp: chunk_line_def Let_def)
  next
    case True
    then have "even (fences (seen @ [line]))" using ws'(1) by (simp add: chunking_ok_def)
    moreover obtain ws3 where "chunking_ok pk (seen @ [line]) ws3 (flush ch pk ?st3)"
        "ws3 = ws' \<or> (\<exists>n. ws3 = ws' @ [(n, length (seen @ [line]))])"
      using flush_ok [OF ws'(1), of ch] by blast
    ultimately show ?thesis using True fences_closed_flush [OF ws'(2)] by (auto simp: chunk_line_def Let_def)
  qed
qed

lemma chunk_lines_ok:
  assumes "chunking_ok pk seen ws st" and "fences_closed ws seen"
  shows "\<exists>ws'. chunking_ok pk (seen @ lines) ws' (fold (chunk_line ch pk) lines st) \<and> fences_closed ws' (seen @ lines)"
  using assms
proof (induction lines arbitrary: seen ws st)
  case Nil
  then show ?case by auto
next
  case (Cons line lines)
  then obtain ws' where "chunking_ok pk (seen @ [line]) ws' (chunk_line ch pk line st)" "fences_closed ws' (seen @ [line])"
    using chunk_line_ok by blast
  from Cons.IH [OF this] show ?case by simp
qed

section \<open>Theorems about the chunker\<close>

text \<open>C24: The chunks of a document longer than the target size are windows of consecutive lines, in order: each chunk is
  the stripped text of its window, every line that is not blank is in a window, and no window but the last ends
  inside a fenced code block.\<close>

theorem chunks_cover_document:
  assumes "estimate_tokens (strip doc) > ch_target_size ch" and "ch_target_size ch \<ge> 0"
  shows "\<exists>ws. list_all2 (shows_window (splitlines (strip doc))) ws (chunk_document ch pk doc) \<and>
    sorted (map snd ws) \<and> covered ws (splitlines (strip doc)) (length (splitlines (strip doc))) \<and>
    fences_closed (butlast ws) (splitlines (strip doc))"
proof -
  let ?lines = "splitlines (strip doc)" and ?st = "fold (chunk_line ch pk) (splitlines (strip doc)) chunking_init"
  have "chunking_ok pk [] [] chunking_init"
    by (simp add: chunking_ok_def chunking_init_def numbered_def fences_def covered_def)
  then obtain ws where ws: "chunking_ok pk ?lines ws ?st" "fences_closed ws ?lines"
    using chunk_lines_ok [of pk "[]" "[]" chunking_init ?lines ch] by (auto simp: fences_closed_def)
  have doc: "chunk_document ch pk doc = cs_chunks (if cs_lines ?st \<noteq> [] then flush ch pk ?st else ?st)"
    using assms by (auto simp: chunk_document_def Let_def estimate_tokens_def)
  show ?thesis
  proof (cases "cs_lines ?st = []")
    case True
    then obtain n where "n = length ?lines" "covered ws ?lines n" using ws(1) by (auto simp: chunking_ok_def)
    moreover have "fences_closed (butlast ws) ?lines" using ws(2) by (auto simp: fences_closed_def dest: in_set_butlastD)
    ultimately show ?thesis using ws(1) doc True by (auto simp: chunking_ok_def)
  next
    case False
    obtain ws' where ws': "chunking_ok pk ?lines ws' (flush ch pk ?st)" "covered ws' ?lines (length ?lines)"
        "ws' = ws \<or> (\<exists>n. ws' = ws @ [(n, length ?lines)])"
      using flush_ok [OF ws(1), of ch] by blast
    moreover have "fences_closed (butlast ws') ?lines"
      using ws(2) ws'(3) by (auto simp: fences_closed_def dest: in_set_butlastD)
    ultimately show ?thesis using doc False by (auto simp: chunking_ok_def)
  qed
qed

text \<open>The chunks of every document are numbered from zero under the parent's key, so that no two have the same id;
  none is empty, and each carries the parent's key and the token estimate of its content. A document within the target
  size is one chunk, its stripped text, and none when that is empty.\<close>

theorem chunks_numbered:
  "numbered pk (chunk_document ch pk doc) \<and> distinct (map dc_chunk_id (chunk_document ch pk doc)) \<and>
    (estimate_tokens (strip doc) \<le> ch_target_size ch \<longrightarrow>
      map dc_content (chunk_document ch pk doc) = (if strip doc = [] then [] else [strip doc]))"
proof -
  have ok: "numbered pk (chunk_document ch pk doc)"
  proof (cases "strip doc = [] \<or> estimate_tokens (strip doc) \<le> ch_target_size ch")
    case True
    then show ?thesis by (auto simp: chunk_document_def Let_def numbered_def)
  next
    case False
    let ?lines = "splitlines (strip doc)" and ?st = "fold (chunk_line ch pk) (splitlines (strip doc)) chunking_init"
    have "chunking_ok pk [] [] chunking_init"
      by (simp add: chunking_ok_def chunking_init_def numbered_def fences_def covered_def)
    then obtain ws where "chunking_ok pk ?lines ws ?st"
      using chunk_lines_ok [of pk "[]" "[]" chunking_init ?lines ch] by (auto simp: fences_closed_def)
    then have "numbered pk (cs_chunks ?st)" "numbered pk (cs_chunks (flush ch pk ?st))"
      using flush_ok [of pk ?lines ws ?st ch] by (auto simp: chunking_ok_def)
    then show ?thesis using False by (simp add: chunk_document_def Let_def)
  qed
  moreover have "distinct (map dc_chunk_id cs)" if "numbered pk cs" for cs
    using that by (auto simp: numbered_def distinct_conv_nth chunk_key_def)
  ultimately show ?thesis by (auto simp: chunk_document_def Let_def)
qed

text \<open>The stack of headings never holds two of one level, nor a lower one above a higher one.\<close>

lemma dropWhile_rev_sorted:
  "sorted_wrt (<) (map fst (hs :: (nat \<times> ustr) list)) \<Longrightarrow> rev (dropWhile (\<lambda>h. fst h \<ge> level) (rev hs)) = filter (\<lambda>h. fst h < level) hs"
proof (induction hs rule: rev_induct)
  case Nil
  then show ?case by simp
next
  case (snoc h hs)
  show ?case
  proof (cases "fst h \<ge> level")
    case True
    then show ?thesis using snoc by (simp add: sorted_wrt_append)
  next
    case False
    then have "\<forall>g \<in> set hs. fst g < level" using snoc.prems by (fastforce simp: sorted_wrt_append)
    then show ?thesis using False by (simp add: filter_id_conv)
  qed
qed

lemma open_heading_sorted:
  assumes "sorted_wrt (<) (map fst hs)"
  shows "open_heading level title hs = filter (\<lambda>h. fst h < level) hs @ [(level, title)]"
    and "sorted_wrt (<) (map fst (open_heading level title hs))"
proof -
  show eq: "open_heading level title hs = filter (\<lambda>h. fst h < level) hs @ [(level, title)]"
    using dropWhile_rev_sorted [OF assms] by (simp add: open_heading_def)
  have "sorted_wrt (\<lambda>a b. fst a < fst b) (filter (\<lambda>h. fst h < level) hs)"
    using assms by (simp add: sorted_wrt_map sorted_wrt_filter)
  then show "sorted_wrt (<) (map fst (open_heading level title hs))"
    unfolding eq by (simp add: sorted_wrt_append sorted_wrt_map)
qed

lemma flush_headings [simp]: "cs_headings (flush ch pk st) = cs_headings st"
  by (simp add: flush_def Let_def)

lemma flush_chunks: "\<exists>more. cs_chunks (flush ch pk st) = cs_chunks st @ more"
  by (simp add: flush_def Let_def)

lemma chunk_line_headings:
  "sorted_wrt (<) (map fst (cs_headings st)) \<Longrightarrow> sorted_wrt (<) (map fst (cs_headings (chunk_line ch pk line st)))"
  by (simp add: chunk_line_def start_section_def Let_def open_heading_sorted(2) split: option.split)

lemma headings_sorted:
  "sorted_wrt (<) (map fst (cs_headings (fold (chunk_line ch pk) lines chunking_init)))"
  by (induction lines rule: rev_induct) (simp_all add: chunk_line_headings chunking_init_def)

text \<open>A heading outside fenced code closes the section before it when at least half the target size is waiting: the
  waiting lines become a chunk. Its breadcrumb is already the one of the new heading, the enclosing headings of
  smaller level and the heading itself, not the one of the section it shows.\<close>

theorem heading_closes_section:
  assumes "st = fold (chunk_line ch pk) seen chunking_init" and "\<not> cs_in_code st" and "heading_match line = Some (level, title)"
    and "strip (text_of (cs_lines st)) \<noteq> []" and "estimate_tokens (text_of (cs_lines st)) \<ge> ch_target_size ch div 2"
  shows "\<exists>c more. cs_chunks (chunk_line ch pk line st) = cs_chunks st @ c # more \<and>
    dc_content c = strip (text_of (cs_lines st)) \<and>
    dc_section_title c = join (u '' > '') (map snd (filter (\<lambda>h. fst h < level) (cs_headings st)) @ [title])"
proof -
  let ?st1 = "st\<lparr>cs_headings := open_heading level title (cs_headings st)\<rparr>"
  let ?st2 = "flush ch pk ?st1"
  have "\<not> is_fence line" using assms(3) heading_not_fence by fastforce
  moreover have "cs_lines st \<noteq> []" using assms(4) by (auto simp: text_of_def)
  ultimately have "\<exists>more. cs_chunks (chunk_line ch pk line st) = cs_chunks ?st2 @ more"
    using assms(2,3,5) flush_chunks [of ch pk "?st2\<lparr>cs_lines := cs_lines ?st2 @ [line]\<rparr>"]
    by (simp add: chunk_line_def start_section_def Let_def)
  moreover have "open_heading level title (cs_headings st) = filter (\<lambda>h. fst h < level) (cs_headings st) @ [(level, title)]"
    using headings_sorted assms(1) by (simp add: open_heading_sorted(1))
  ultimately show ?thesis
    using assms(4) by (auto simp: flush_def Let_def current_breadcrumb_def)
qed

section \<open>Witnesses\<close>

lemma plain_text [simp]: "strip (replicate n 97) = replicate n 97"
  by (simp add: strip_def is_space_def)

lemma chunks_cover_document_witness:
  "\<exists>ws. list_all2 (shows_window (splitlines (replicate 204 97))) ws
      (chunk_document (MarkdownChunker 50 10) (u ''d'') (replicate 204 97)) \<and> sorted (map snd ws) \<and>
    covered ws (splitlines (replicate 204 97)) (length (splitlines (replicate 204 97))) \<and>
    fences_closed (butlast ws) (splitlines (replicate 204 97))"
  using chunks_cover_document [of "MarkdownChunker 50 10" "replicate 204 97" "u ''d''"]
  by (simp add: MarkdownChunker_def estimate_tokens_def)

lemma chunks_numbered_witness:
  "map dc_content (chunk_document (MarkdownChunker 50 10) (u ''d'') (replicate 200 97)) = [replicate 200 97] \<and>
   distinct (map dc_chunk_id (chunk_document (MarkdownChunker 50 10) (u ''d'') (replicate 200 97)))"
  using chunks_numbered [of "u ''d''" "MarkdownChunker 50 10" "replicate 200 97"]
  by (simp add: MarkdownChunker_def estimate_tokens_def)

lemma heading_closes_section_witness:
  "\<exists>c more. cs_chunks (fold (chunk_line (MarkdownChunker 50 0) (u ''d'')) [u ''# A'', replicate 100 97, u ''# B''] chunking_init) =
      c # more \<and> dc_content c = u ''# A'' @ [10] @ replicate 100 97 \<and> dc_section_title c = u ''B''"
proof -
  let ?ch = "MarkdownChunker 50 0"
  let ?st = "fold (chunk_line ?ch (u ''d'')) [u ''# A'', replicate 100 97] chunking_init"
  have a: "heading_match (u ''# A'') = Some (1, u ''A'')" "heading_match (u ''# B'') = Some (1, u ''B'')"
    by (simp_all add: heading_match_def u_def is_space_def strip_def)
  have fence: "\<not> is_fence (u ''# A'')" "\<not> is_fence (replicate 100 97)"
    by (simp_all add: is_fence_def u_def numeral_3_eq_3)
  have body: "heading_match (replicate 100 97) = None" by (simp add: heading_match_def)
  have len: "length (u s) = length s" "u s = [] \<longleftrightarrow> s = []" for s by (simp_all add: u_def)
  have one: "chunk_line ?ch (u ''d'') (u ''# A'') chunking_init = \<lparr>cs_chunks = [], cs_idx = 0,
      cs_headings = [(1, u ''A'')], cs_lines = [u ''# A''], cs_in_code = False\<rparr>"
    by (simp add: chunk_line_def start_section_def Let_def a fence chunking_init_def MarkdownChunker_def
        estimate_tokens_def text_of_def open_heading_def len)
  have st: "?st = \<lparr>cs_chunks = [], cs_idx = 0, cs_headings = [(1, u ''A'')], cs_lines = [u ''# A'', replicate 100 97],
      cs_in_code = False\<rparr>"
    by (simp add: one) (simp add: chunk_line_def start_section_def Let_def body fence MarkdownChunker_def
        estimate_tokens_def text_of_def len)
  have content: "strip (text_of [u ''# A'', replicate 100 97]) = u ''# A'' @ [10] @ replicate 100 97"
    by (simp add: text_of_def strip_def is_space_def u_def dropWhile_append)
  have half: "estimate_tokens (text_of [u ''# A'', replicate 100 97]) \<ge> ch_target_size ?ch div 2"
    by (simp add: MarkdownChunker_def estimate_tokens_def text_of_def u_def)
  let ?st' = "\<lparr>cs_chunks = [], cs_idx = 0, cs_headings = [(1, u ''A'')], cs_lines = [u ''# A'', replicate 100 97],
      cs_in_code = False\<rparr>"
  have "\<exists>c more. cs_chunks (chunk_line ?ch (u ''d'') (u ''# B'') ?st') = cs_chunks ?st' @ c # more \<and>
      dc_content c = strip (text_of (cs_lines ?st')) \<and>
      dc_section_title c = join (u '' > '') (map snd (filter (\<lambda>h. fst h < 1) (cs_headings ?st')) @ [u ''B''])"
    by (rule heading_closes_section [OF st [symmetric] _ a(2)]) (use content half in \<open>simp_all add: len\<close>)
  then show ?thesis using st content by simp
qed

end
