(* ===== verification/Transformers.thy ===== *)
theory Transformers
  imports Embedders
begin

text \<open>
  \<open>TransformersEmbedder\<close> of \<open>semantic/embedders.py\<close>: the mean of the token embeddings of a model, without the padding,
  brought to length one. The tokenizer, the model and the tensor operations of PyTorch are parameters.
\<close>

section \<open>Tensors\<close>

text \<open>\<open>x.unsqueeze(i)\<close>, \<open>x.expand(y.size())\<close>, \<open>x.float()\<close>, \<open>x * y\<close>, \<open>torch.sum(x, i)\<close>, \<open>torch.clamp(x, min=f)\<close>, \<open>x / y\<close>,
  \<open>torch.nn.functional.normalize(x, p=2, dim=i)\<close>, \<open>x[0]\<close>, \<open>x.cpu()\<close> and \<open>x.tolist()\<close>; and \<open>1e-9\<close>.\<close>

record ('x, 'f) tensor_ops =
  to_unsqueeze :: "'x \<Rightarrow> int \<Rightarrow> 'x"
  to_expand :: "'x \<Rightarrow> 'x \<Rightarrow> 'x"
  to_float :: "'x \<Rightarrow> 'x"
  to_mul :: "'x \<Rightarrow> 'x \<Rightarrow> 'x"
  to_sum :: "'x \<Rightarrow> int \<Rightarrow> 'x"
  to_clamp :: "'x \<Rightarrow> 'f \<Rightarrow> 'x"
  to_div :: "'x \<Rightarrow> 'x \<Rightarrow> 'x"
  to_normalize :: "'x \<Rightarrow> int \<Rightarrow> 'x"
  to_item :: "'x \<Rightarrow> nat \<Rightarrow> 'x"
  to_cpu :: "'x \<Rightarrow> 'x"
  to_list :: "'x \<Rightarrow> 'f pyval list"
  to_1e9 :: 'f

section \<open>The embedder\<close>

definition mean_pooled :: "('x, 'f) tensor_ops \<Rightarrow> 'x \<Rightarrow> 'x \<Rightarrow> 'x" where
  "mean_pooled T attention_mask token_embeddings =
     (let input_mask_expanded = to_float T (to_expand T (to_unsqueeze T attention_mask (-1)) token_embeddings);
          sum_embeddings = to_sum T (to_mul T token_embeddings input_mask_expanded) 1;
          sum_mask = to_clamp T (to_sum T input_mask_expanded 1) (to_1e9 T)
      in to_div T sum_embeddings sum_mask)"

text \<open>The device: the one asked for, if any, otherwise the best one there is.\<close>

definition select_device :: "ustr option \<Rightarrow> bool \<Rightarrow> bool \<Rightarrow> ustr" where
  "select_device device mps_available cuda_available =
     (case device of
        Some d \<Rightarrow> if d \<noteq> [] then d else if mps_available then u ''mps'' else if cuda_available then u ''cuda'' else u ''cpu''
      | None \<Rightarrow> if mps_available then u ''mps'' else if cuda_available then u ''cuda'' else u ''cpu'')"

text \<open>\<open>pretrained\<close> is the outcome of the two \<open>from_pretrained\<close> calls. Given a device it is the tokenizer, which gives the
  inputs on that device with their \<open>attention_mask\<close>, and the model moved there, of which the embedder takes output 0.\<close>

definition TransformersEmbedder ::
    "'f env \<Rightarrow> ('x, 'f) tensor_ops \<Rightarrow> bool \<Rightarrow> bool \<Rightarrow> bool \<Rightarrow>
     exc + ((ustr \<Rightarrow> ustr \<Rightarrow> exc + 'i) \<times> ('i \<Rightarrow> 'x) \<times> (ustr \<Rightarrow> 'i \<Rightarrow> exc + 'x)) \<Rightarrow> ustr option \<Rightarrow> exc + 'f encoder" where
  "TransformersEmbedder env T installed mps_available cuda_available pretrained device =
     (if \<not> installed then Inl BuiltinImportError
      else map_sumE (\<lambda>(tokenizer, attention_mask, model).
        let dev = select_device device mps_available cuda_available in
        (\<lambda>text. bind_sum (tokenizer dev text) (\<lambda>inputs.
           bind_sum (model dev inputs) (\<lambda>token_embeddings.
           let mean = mean_pooled T (attention_mask inputs) token_embeddings;
               normalized = to_normalize T mean 1
           in floats env (to_list T (to_cpu T (to_item T normalized 0))))))) pretrained)"

section \<open>What pooling computes\<close>

text \<open>PyTorch's documentation of these operations on a batch of one text, over exact numbers: \<open>tokens x\<close> are the rows
  of a tensor with a row per token, \<open>entries x\<close> is the only row of one with a single row per text.\<close>

definition torch_pooling :: "('x, real) tensor_ops \<Rightarrow> ('x \<Rightarrow> real list list) \<Rightarrow> ('x \<Rightarrow> real list) \<Rightarrow> bool" where
  "torch_pooling T tokens entries \<longleftrightarrow>
     (\<forall>m x. length (entries m) = length (tokens x) \<longrightarrow>
        tokens (to_float T (to_expand T (to_unsqueeze T m (-1)) x)) =
          map2 (\<lambda>b row. replicate (length row) b) (entries m) (tokens x)) \<and>
     (\<forall>x y. tokens (to_mul T x y) = map2 (map2 (*)) (tokens x) (tokens y)) \<and>
     (\<forall>x r rs. tokens x = r # rs \<longrightarrow> entries (to_sum T x 1) = fold (map2 (+)) rs r) \<and>
     (\<forall>x. entries (to_clamp T x (to_1e9 T)) = map (max (1 / 10 ^ 9)) (entries x)) \<and>
     (\<forall>x y. entries (to_div T x y) = map2 (/) (entries x) (entries y)) \<and>
     (\<forall>x. entries (to_normalize T x 1) =
        map (\<lambda>a. a / max (1 / 10 ^ 12) (sqrt (sum_list (map (\<lambda>b. b * b) (entries x))))) (entries x)) \<and>
     (\<forall>x. to_list T (to_cpu T (to_item T x 0)) = map PFloat (entries x))"

lemma add_zero_row: "length r = n \<Longrightarrow> map2 (+) (replicate n (0 :: real)) r = r"
  by (induction r arbitrary: n) (auto simp: Cons_replicate_eq)

lemma fold_add_zeros: "length r = n \<Longrightarrow> fold (map2 (+)) (replicate k (replicate n (0 :: real))) r = r"
  by (induction k) (simp_all add: add_zero_row)

lemma length_fold_add: "\<forall>row \<in> set rs. length row = length r \<Longrightarrow> length (fold (map2 (+)) rs r) = length r"
  by (induction rs arbitrary: r) simp_all

lemma mask_row: "map2 (*) row (replicate (length row) b) = map (\<lambda>a. a * b) (row :: real list)"
  by (induction row) simp_all

lemma masked_rows:
  "\<forall>row \<in> set rows. length row = n \<Longrightarrow>
   map2 (map2 (*)) rows (map2 (\<lambda>b row. replicate (length row) b) (replicate (length rows) b) rows) =
     map (map (\<lambda>a. a * b)) (rows :: real list list)"
  by (induction rows) (auto simp: mask_row)

lemma expanded_rows:
  "\<forall>row \<in> set rows. length row = n \<Longrightarrow>
   map2 (\<lambda>b row. replicate (length row) b) (replicate (length rows) b) rows = replicate (length rows) (replicate n b)"
  by (induction rows) simp_all

lemma fold_add_ones:
  "fold (map2 (+)) (replicate k (replicate n 1)) (replicate n (b :: real)) = replicate n (b + of_nat k)"
  by (induction k arbitrary: b) (simp_all add: zip_replicate algebra_simps)

definition column_sums :: "real list list \<Rightarrow> real list" where
  "column_sums rows = fold (map2 (+)) (tl rows) (hd rows)"

text \<open>The mean of the tokens that are not padding.\<close>

lemma mean_pooled_rows:
  assumes "torch_pooling T tokens entries" and "tokens x = rows @ pad" and "rows \<noteq> []"
    and "\<forall>row \<in> set (rows @ pad). length row = n" and "entries m = replicate (length rows) 1 @ replicate (length pad) 0"
  shows "entries (mean_pooled T m x) = map (\<lambda>a. a / of_nat (length rows)) (column_sums rows)"
proof -
  obtain r rs where r: "rows = r # rs" using assms(3) by (cases rows) auto
  let ?e = "to_float T (to_expand T (to_unsqueeze T m (-1)) x)"
  have rows: "\<forall>row \<in> set rows. length row = n" and pad: "\<forall>row \<in> set pad. length row = n" using assms(4) by auto
  have "length (entries m) = length (tokens x)" using assms(2,5) by simp
  then have e: "tokens ?e = map2 (\<lambda>b row. replicate (length row) b) (entries m) (tokens x)"
    using assms(1) by (simp add: torch_pooling_def)
  then have e': "tokens ?e = replicate (length rows) (replicate n 1) @ replicate (length pad) (replicate n 0)"
    using assms(2,5) expanded_rows [OF rows, of 1] expanded_rows [OF pad, of 0] by (simp add: zip_append)
  have zero: "map (map (\<lambda>a. a * 0)) pad = replicate (length pad) (replicate n (0 :: real))"
    using pad by (induction pad) (simp_all add: map_replicate_const)
  have "tokens (to_mul T x ?e) = map2 (map2 (*)) (tokens x) (tokens ?e)"
    using assms(1) by (simp add: torch_pooling_def)
  also have "\<dots> = rows @ replicate (length pad) (replicate n 0)"
    using masked_rows [OF rows, of 1] masked_rows [OF pad, of 0] zero
    unfolding e assms(2,5) by (simp add: zip_append)
  finally have "tokens (to_mul T x ?e) = r # (rs @ replicate (length pad) (replicate n 0))" by (simp add: r)
  then have "entries (to_sum T (to_mul T x ?e) 1) = fold (map2 (+)) (rs @ replicate (length pad) (replicate n 0)) r"
    using assms(1) by (simp add: torch_pooling_def)
  also have "\<dots> = column_sums rows"
    using rows fold_add_zeros [of "fold (map2 (+)) rs r" n "length pad"]
    by (simp add: r column_sums_def length_fold_add del: fold_replicate)
  finally have sums: "entries (to_sum T (to_mul T x ?e) 1) = column_sums rows" .
  have "tokens ?e = replicate n 1 # (replicate (length rs) (replicate n 1) @ replicate (length pad) (replicate n 0))"
    unfolding e' by (simp add: r)
  then have "entries (to_sum T ?e 1) =
      fold (map2 (+)) (replicate (length rs) (replicate n 1) @ replicate (length pad) (replicate n 0)) (replicate n 1)"
    using assms(1) unfolding torch_pooling_def by blast
  also have "\<dots> = replicate n (of_nat (length rows))" by (simp add: fold_add_ones fold_add_zeros r del: fold_replicate)
  finally have "entries (to_clamp T (to_sum T ?e 1) (to_1e9 T)) = replicate n (of_nat (length rows))"
    using assms(1) by (simp add: torch_pooling_def r max_def)
  moreover have "length (column_sums rows) = n" using rows by (simp add: column_sums_def r length_fold_add)
  moreover have "map2 (/) xs (replicate (length xs) b) = map (\<lambda>a. a / b) xs" for xs and b :: real
    by (induction xs) simp_all
  ultimately show ?thesis
    using assms(1) sums by (auto simp: torch_pooling_def mean_pooled_def Let_def)
qed


text \<open>Padding does not count. Whatever rows the model gives for the padding that the tokenizer masked, the embedding
  is the mean of the rows of the text's own tokens, divided by its length.\<close>

theorem padding_does_not_count:
  assumes "torch_pooling T tokens entries"
    and "TransformersEmbedder env T True mps cuda (Inr (tokenizer, mask_of, model)) device = Inr encode"
    and "tokenizer (select_device device mps cuda) text = Inr inputs" and "model (select_device device mps cuda) inputs = Inr x"
    and "tokens x = rows @ pad" and "rows \<noteq> []" and "\<forall>row \<in> set (rows @ pad). length row = n"
    and "entries (mask_of inputs) = replicate (length rows) 1 @ replicate (length pad) 0"
    and "mean = map (\<lambda>a. a / of_nat (length rows)) (column_sums rows)"
    and "1 / 10 ^ 12 \<le> sqrt (sum_list (map (\<lambda>b. b * b) mean))"
  shows "encode text = Inr (map (\<lambda>a. a / sqrt (sum_list (map (\<lambda>b. b * b) mean))) mean)"
proof -
  have "entries (mean_pooled T (mask_of inputs) x) = mean"
    using mean_pooled_rows [OF assms(1,5-8)] assms(9) by simp
  then have "to_list T (to_cpu T (to_item T (to_normalize T (mean_pooled T (mask_of inputs) x) 1) 0)) =
      map PFloat (map (\<lambda>a. a / sqrt (sum_list (map (\<lambda>b. b * b) mean))) mean)"
    using assms(1,10) by (simp add: torch_pooling_def max_def)
  moreover have "floats env (map PFloat xs) = Inr xs" for xs
    by (induction xs) (simp_all add: py_float_def)
  ultimately show ?thesis using assms(2-4) by (auto simp: TransformersEmbedder_def Let_def simp del: map_map)
qed

text \<open>Lists as tensors of one text.\<close>

definition list_entries :: "real list list \<Rightarrow> real list" where
  "list_entries x = (case x of [] \<Rightarrow> [] | r # _ \<Rightarrow> r)"

definition list_tensors :: "(real list list, real) tensor_ops" where
  "list_tensors = \<lparr>to_unsqueeze = (\<lambda>m _. m),
     to_expand = (\<lambda>m x. map2 (\<lambda>b row. replicate (length row) b) (list_entries m) x), to_float = (\<lambda>x. x),
     to_mul = map2 (map2 (*)), to_sum = (\<lambda>x _. case x of [] \<Rightarrow> [] | r # rs \<Rightarrow> [fold (map2 (+)) rs r]),
     to_clamp = (\<lambda>x f. [map (max f) (list_entries x)]), to_div = (\<lambda>x y. [map2 (/) (list_entries x) (list_entries y)]),
     to_normalize = (\<lambda>x _. [map (\<lambda>a. a / max (1 / 10 ^ 12) (sqrt (sum_list (map (\<lambda>b. b * b) (list_entries x))))) (list_entries x)]),
     to_item = (\<lambda>x _. x), to_cpu = (\<lambda>x. x), to_list = (\<lambda>x. map PFloat (list_entries x)), to_1e9 = 1 / 10 ^ 9\<rparr>"

lemma list_tensors_pool: "torch_pooling list_tensors (\<lambda>x. x) list_entries"
  by (simp add: torch_pooling_def list_tensors_def list_entries_def)

lemma padding_does_not_count_witness:
  "bind_sum (TransformersEmbedder env list_tensors True False False
      (Inr (\<lambda>_ _. Inr (), \<lambda>_. [[1, 1, 0]], \<lambda>_ _. Inr [[3, 0], [3, 0], [7, 9]])) None) (\<lambda>encode. encode (u ''hi'')) =
     Inr [1, 0]"
proof -
  let ?model = "(\<lambda>_ _. Inr (), \<lambda>_. [[1, 1, 0]], \<lambda>_ _. Inr [[3, 0], [3, 0], [7, 9]])"
  obtain encode where e: "TransformersEmbedder env list_tensors True False False (Inr ?model) None = Inr encode"
    by (simp add: TransformersEmbedder_def)
  have mean: "[3, 0] = map (\<lambda>a. a / of_nat (length [[3, 0], [3, 0 :: real]])) (column_sums [[3, 0], [3, 0]])"
    by (simp add: column_sums_def)
  have root: "sqrt (sum_list (map (\<lambda>b. b * b) [3, 0 :: real])) = 3"
    using real_sqrt_mult_self [of 9] by (simp add: real_sqrt_unique)
  have "encode (u ''hi'') = Inr (map (\<lambda>a. a / sqrt (sum_list (map (\<lambda>b. b * b) [3, 0]))) [3, 0])"
    by (rule padding_does_not_count [OF list_tensors_pool e, where rows = "[[3, 0], [3, 0]]" and pad = "[[7, 9]]" and n = 2])
      (use mean root in \<open>simp_all add: list_entries_def\<close>)
  then show ?thesis unfolding root e by simp
qed

end
