(* ===== verification/Shared_Memory.thy ===== *)
theory Shared_Memory
  imports Tensor_Codec Py_Text
begin

text \<open>
  \<open>tensor.py\<close>: reading tensor blocks from the server's shared memory. The state is what the module sees of the
  system: the files of \<open>/dev/shm\<close>, the \<open>mmap\<close> objects it has made, and its cache of them. An \<open>mmap\<close> object has a
  position, may be closed, and counts the arrays that look into it, which keep it from closing. NumPy is a
  parameter, PyTorch that of \<open>Tensor_Codec\<close>.
\<close>

section \<open>Mapped files\<close>

record mapping =
  m_path :: ustr
  m_length :: nat
  m_pos :: nat
  m_exports :: nat
  m_open :: bool

record shm =
  sh_files :: "ustr \<Rightarrow> bytes option"
  sh_maps :: "mapping list"
  sh_cache :: "(ustr \<times> nat) list"

type_synonym 'a shm_op = "(shm, exc, 'a) py"

definition shm_path :: "int \<Rightarrow> ustr" where
  "shm_path core_id = u (''/dev/shm/kachedb_'' @ py_str_int core_id)"

text \<open>The length that \<open>mmap.mmap(fd, size, ...)\<close> maps of a file; zero stands for all of it.\<close>

definition mmap_length :: "nat \<Rightarrow> int \<Rightarrow> exc + nat" where
  "mmap_length file_size n =
     (if n < 0 then Inl BuiltinOverflowError
      else if n = 0 then (if file_size = 0 then Inl BuiltinValueError else Inr file_size)
      else if int file_size < n then Inl BuiltinValueError else Inr (nat n))"

definition new_mapping :: "ustr \<Rightarrow> nat \<Rightarrow> nat shm_op" where
  "new_mapping path n = (\<lambda>s. (Inr (length (sh_maps s)),
     s\<lparr>sh_maps := sh_maps s @ [\<lparr>m_path = path, m_length = n, m_pos = 0, m_exports = 0, m_open = True\<rparr>]\<rparr>))"

text \<open>The bytes a mapping shows.\<close>

definition region :: "shm \<Rightarrow> nat \<Rightarrow> bytes" where
  "region s h = take (m_length (sh_maps s ! h)) (case sh_files s (m_path (sh_maps s ! h)) of None \<Rightarrow> [] | Some b \<Rightarrow> b)"

definition update_mapping :: "nat \<Rightarrow> (mapping \<Rightarrow> mapping) \<Rightarrow> unit shm_op" where
  "update_mapping h f = modifyE (\<lambda>s. s\<lparr>sh_maps := (sh_maps s)[h := f (sh_maps s ! h)]\<rparr>)"

text \<open>\<open>shm.seek(pos)\<close>, \<open>shm.read(n)\<close> and \<open>shm.close()\<close>.\<close>

definition mmap_seek :: "nat \<Rightarrow> int \<Rightarrow> unit shm_op" where
  "mmap_seek h pos = bindE (getsE (\<lambda>s. sh_maps s ! h)) (\<lambda>m.
     if \<not> m_open m \<or> pos < 0 \<or> int (m_length m) < pos then raise BuiltinValueError
     else update_mapping h (\<lambda>m. m\<lparr>m_pos := nat pos\<rparr>))"

definition mmap_read :: "nat \<Rightarrow> nat \<Rightarrow> bytes shm_op" where
  "mmap_read h n = bindE (getsE (\<lambda>s. (sh_maps s ! h, region s h))) (\<lambda>(m, data).
     if \<not> m_open m then raise BuiltinValueError
     else (let got = take n (drop (m_pos m) data) in
       bindE (update_mapping h (\<lambda>m. m\<lparr>m_pos := m_pos m + length got\<rparr>)) (\<lambda>_. ret got)))"

definition mmap_close :: "nat \<Rightarrow> unit shm_op" where
  "mmap_close h = bindE (getsE (\<lambda>s. sh_maps s ! h)) (\<lambda>m.
     if m_exports m > 0 then raise BuiltinBufferError
     else update_mapping h (\<lambda>m. m\<lparr>m_open := False\<rparr>))"

section \<open>NumPy\<close>

text \<open>An array is an element type, a position in the mapping it looks into and a number of elements.\<close>

record 'n ndarray =
  na_dtype :: 'n
  na_mapping :: nat
  na_offset :: nat
  na_count :: nat

text \<open>The element types the code names, their sizes, and \<open>np.frombuffer\<close> on a buffer of some length: the number of
  elements it takes or the exception.\<close>

record 'n numpy =
  n_float32 :: 'n
  n_float16 :: 'n
  n_uint16 :: 'n
  n_uint8 :: 'n
  n_int8 :: 'n
  n_itemsize :: "'n \<Rightarrow> nat"
  n_frombuffer :: "nat \<Rightarrow> 'n \<Rightarrow> nat \<Rightarrow> int \<Rightarrow> exc option"

definition numpy_documented :: "'n numpy \<Rightarrow> bool" where
  "numpy_documented N \<longleftrightarrow>
     distinct [n_float32 N, n_float16 N, n_uint16 N, n_uint8 N, n_int8 N] \<and>
     map (n_itemsize N) [n_float32 N, n_float16 N, n_uint16 N, n_uint8 N, n_int8 N] = [4, 2, 2, 1, 1] \<and>
     (\<forall>len d count offset. n_frombuffer N len d count offset =
        (if 0 \<le> offset \<and> nat offset + count * n_itemsize N d \<le> len then None else Some BuiltinValueError))"

text \<open>\<open>_get_dtype_to_numpy\<close>; the enumeration has no other members, so the default of \<open>get\<close> is never used.\<close>

definition dtype_to_numpy :: "'n numpy \<Rightarrow> tensor_dtype \<Rightarrow> 'n" where
  "dtype_to_numpy N t = (case t of FP32 \<Rightarrow> n_float32 N | FP16 \<Rightarrow> n_float16 N | BF16 \<Rightarrow> n_uint16 N
     | FP8E4M3 \<Rightarrow> n_uint8 N | FP8E5M2 \<Rightarrow> n_uint8 N | INT8 \<Rightarrow> n_int8 N | INT4 \<Rightarrow> n_uint8 N)"

definition np_frombuffer :: "'n numpy \<Rightarrow> nat \<Rightarrow> 'n \<Rightarrow> nat \<Rightarrow> int \<Rightarrow> 'n ndarray shm_op" where
  "np_frombuffer N h d count offset = bindE (getsE (\<lambda>s. sh_maps s ! h)) (\<lambda>m.
     if \<not> m_open m then raise BuiltinValueError
     else (case n_frombuffer N (m_length m) d count offset of
        Some e \<Rightarrow> raise e
      | None \<Rightarrow> bindE (update_mapping h (\<lambda>m. m\<lparr>m_exports := m_exports m + 1\<rparr>)) (\<lambda>_.
          ret \<lparr>na_dtype = d, na_mapping = h, na_offset = nat offset, na_count = count\<rparr>)))"

section \<open>The module\<close>

text \<open>\<open>may_open\<close> tells whether \<open>os.open\<close> is permitted.\<close>

definition attach_shm :: "(ustr \<Rightarrow> bool) \<Rightarrow> int \<Rightarrow> int \<Rightarrow> nat shm_op" where
  "attach_shm may_open core_id size_bytes =
     (let path = shm_path core_id in
      bindE (getsE (\<lambda>s. (map_of (sh_cache s) path, sh_files s path))) (\<lambda>(cached, file).
      case cached of
        Some h \<Rightarrow> ret h
      | None \<Rightarrow> (case file of
            None \<Rightarrow> raise BuiltinFileNotFoundError
          | Some content \<Rightarrow>
              if \<not> may_open path then raise BuiltinOSError
              else bindE (liftE (mmap_length (length content) size_bytes)) (\<lambda>n.
                   bindE (new_mapping path n) (\<lambda>h.
                   bindE (modifyE (\<lambda>s. s\<lparr>sh_cache := (path, h) # sh_cache s\<rparr>)) (\<lambda>_. ret h))))))"

text \<open>The import of NumPy comes after the checks of the descriptor; it is taken to succeed.\<close>

definition read_tensor :: "(ustr \<Rightarrow> bool) \<Rightarrow> 'n numpy \<Rightarrow> int \<Rightarrow> int \<Rightarrow> int \<Rightarrow> 'n ndarray shm_op" where
  "read_tensor may_open N core_id byte_offset size_bytes =
     bindE (attach_shm may_open core_id size_bytes) (\<lambda>h.
     bindE (mmap_seek h byte_offset) (\<lambda>_.
     bindE (mmap_read h 64) (\<lambda>header_bytes.
     bindE (liftE (from_bytes header_bytes)) (\<lambda>desc.
     if \<not> is_valid desc then raise BuiltinValueError
     else bindE (liftE (TensorDType (unat (d_dtype desc)))) (\<lambda>dtype_enum.
       (let np_dtype = dtype_to_numpy N dtype_enum;
            element_count = unat (d_payload_bytes desc) div n_itemsize N np_dtype
        in np_frombuffer N h np_dtype element_count (byte_offset + 64)))))))"

definition torch_dtype :: "'n numpy \<Rightarrow> 'd torch \<Rightarrow> 'n \<Rightarrow> 'd" where
  "torch_dtype N T d =
     (case map_of [(n_float32 N, t_float32 T), (n_float16 N, t_float16 T), (n_int8 N, t_int8 T),
        (n_uint8 N, t_uint8 T), (n_uint16 N, t_bfloat16 T)] d of
        None \<Rightarrow> t_uint8 T | Some td \<Rightarrow> td)"

text \<open>\<open>torch.frombuffer(array, dtype)\<close> is the function \<open>from_array\<close>; \<open>installed\<close> tells whether both libraries are.\<close>

definition read_torch_tensor :: "bool \<Rightarrow> (ustr \<Rightarrow> bool) \<Rightarrow> 'n numpy \<Rightarrow> 'd torch \<Rightarrow> ('n ndarray \<Rightarrow> 'd \<Rightarrow> exc + 'x) \<Rightarrow>
    int \<Rightarrow> int \<Rightarrow> int \<Rightarrow> 'x shm_op" where
  "read_torch_tensor installed may_open N T from_array core_id byte_offset size_bytes =
     (if \<not> installed then raise BuiltinImportError
      else bindE (read_tensor may_open N core_id byte_offset size_bytes) (\<lambda>np_array.
        liftE (from_array np_array (torch_dtype N T (na_dtype np_array)))))"

text \<open>\<open>contextlib.suppress(Exception)\<close> around each \<open>close\<close>; the cache is emptied whatever happened.\<close>

fun close_all :: "(ustr \<times> nat) list \<Rightarrow> unit shm_op" where
  "close_all [] = ret ()"
| "close_all ((path, h) # cached) = bindE (try_except (mmap_close h) (\<lambda>_. ret ())) (\<lambda>_. close_all cached)"

definition detach_all :: "unit shm_op" where
  "detach_all = bindE (getsE sh_cache) (\<lambda>cached.
     bindE (close_all (rev cached)) (\<lambda>_. modifyE (\<lambda>s. s\<lparr>sh_cache := []\<rparr>)))"

section \<open>Theorems about shared memory\<close>

text \<open>Every cached mapping is open and shows the file of its name.\<close>

definition shm_ok :: "shm \<Rightarrow> bool" where
  "shm_ok s \<longleftrightarrow> (\<forall>(path, h) \<in> set (sh_cache s). h < length (sh_maps s) \<and> m_open (sh_maps s ! h) \<and> m_path (sh_maps s ! h) = path)"

definition array_bytes :: "'n numpy \<Rightarrow> shm \<Rightarrow> 'n ndarray \<Rightarrow> bytes" where
  "array_bytes N s a = take (na_count a * n_itemsize N (na_dtype a)) (drop (na_offset a) (region s (na_mapping a)))"

lemma attach_shm_ok:
  assumes "shm_ok s" and "attach_shm may_open core_id size_bytes s = (Inr h, s')"
  shows "shm_ok s' \<and> h < length (sh_maps s') \<and> m_open (sh_maps s' ! h) \<and> m_path (sh_maps s' ! h) = shm_path core_id \<and>
    sh_files s' = sh_files s"
proof (cases "map_of (sh_cache s) (shm_path core_id)")
  case (Some h0)
  then have "h0 = h" "s' = s" using assms(2) by (auto simp: attach_shm_def bindE_run Let_def)
  moreover have "(shm_path core_id, h) \<in> set (sh_cache s)" using Some \<open>h0 = h\<close> by (auto dest: map_of_SomeD)
  ultimately show ?thesis using assms(1) by (auto simp: shm_ok_def)
next
  case None
  then show ?thesis
    using assms by (fastforce simp: attach_shm_def bindE_run Let_def new_mapping_def shm_ok_def nth_append
        split: option.splits if_splits sum.splits)
qed

text \<open>The steps of \<open>read_tensor\<close> on an open mapping.\<close>

lemma header_read:
  assumes "h < length (sh_maps s)" and "m_open (sh_maps s ! h)" and "0 \<le> pos" and "pos \<le> int (m_length (sh_maps s ! h))"
  shows "\<exists>s'. bindE (mmap_seek h pos) (\<lambda>_. mmap_read h n) s = (Inr (take n (drop (nat pos) (region s h))), s') \<and>
    sh_files s' = sh_files s \<and> sh_cache s' = sh_cache s \<and>
    (\<exists>p. sh_maps s' = (sh_maps s)[h := (sh_maps s ! h)\<lparr>m_pos := p\<rparr>])"
  using assms by (auto simp: mmap_seek_def mmap_read_def bindE_run update_mapping_def Let_def region_def)

lemma region_update:
  "sh_files s' = sh_files s \<Longrightarrow> sh_maps s' = (sh_maps s)[h := m] \<Longrightarrow> h < length (sh_maps s) \<Longrightarrow>
   m_path m = m_path (sh_maps s ! h) \<Longrightarrow> m_length m = m_length (sh_maps s ! h) \<Longrightarrow> region s' g = region s g"
  by (cases "g = h") (simp_all add: region_def)

lemma itemsize_documented: "numpy_documented N \<Longrightarrow> n_itemsize N (dtype_to_numpy N t) = element_size_bytes t"
  by (cases t) (auto simp: numpy_documented_def dtype_to_numpy_def element_size_bytes_def)

lemma read_tensor_bind:
  "read_tensor may_open N core_id byte_offset size_bytes = bindE (attach_shm may_open core_id size_bytes) (\<lambda>h.
     bindE (bindE (mmap_seek h byte_offset) (\<lambda>_. mmap_read h 64)) (\<lambda>header_bytes.
     bindE (liftE (from_bytes header_bytes)) (\<lambda>desc.
     if \<not> is_valid desc then raise BuiltinValueError
     else bindE (liftE (TensorDType (unat (d_dtype desc)))) (\<lambda>dtype_enum.
       (let np_dtype = dtype_to_numpy N dtype_enum;
            element_count = unat (d_payload_bytes desc) div n_itemsize N np_dtype
        in np_frombuffer N h np_dtype element_count (byte_offset + 64))))))"
  unfolding read_tensor_def by (rule ext) (simp add: bindE_run split: prod.split sum.split)

text \<open>C27: Reading at the offset of a valid descriptor gives an array of the descriptor's element type that looks at the
  payload right behind it, in place: as many whole elements as the payload holds, at the sizes the descriptor's
  own table names. The files are as before.\<close>

theorem block_read_in_place:
  assumes "numpy_documented N" and "shm_ok s" and "attach_shm may_open core_id size_bytes s = (Inr h, s1)"
    and "take 64 (drop off (region s1 h)) = to_bytes d" and "well_formed d" and "is_valid d"
    and "TensorDType (unat (d_dtype d)) = Inr t"
    and "off + 64 + unat (d_payload_bytes d) \<le> m_length (sh_maps s1 ! h)"
  shows "\<exists>a s'. read_tensor may_open N core_id (int off) size_bytes s = (Inr a, s') \<and> sh_files s' = sh_files s \<and> shm_ok s' \<and>
    na_dtype a = dtype_to_numpy N t \<and> na_count a = unat (d_payload_bytes d) div element_size_bytes t \<and>
    array_bytes N s' a = take (na_count a * element_size_bytes t) (drop (off + 64) (region s1 h)) \<and>
    0 < m_exports (sh_maps s' ! na_mapping a) \<and> m_open (sh_maps s' ! na_mapping a) \<and> na_mapping a < length (sh_maps s')"
proof -
  have s1: "shm_ok s1" "h < length (sh_maps s1)" "m_open (sh_maps s1 ! h)" "sh_files s1 = sh_files s"
    using attach_shm_ok [OF assms(2,3)] by auto
  obtain s2 p where s2: "bindE (mmap_seek h (int off)) (\<lambda>_. mmap_read h 64) s1 = (Inr (to_bytes d), s2)"
      "sh_files s2 = sh_files s1" "sh_cache s2 = sh_cache s1" "sh_maps s2 = (sh_maps s1)[h := (sh_maps s1 ! h)\<lparr>m_pos := p\<rparr>]"
    using header_read [OF s1(2,3), of "int off" 64] assms(4,8) by auto
  have desc: "from_bytes (to_bytes d) = Inr d" using from_to_bytes [OF assms(5), of "[]"] by simp
  let ?d = "dtype_to_numpy N t" and ?n = "unat (d_payload_bytes d) div element_size_bytes t"
  have "?n * element_size_bytes t \<le> unat (d_payload_bytes d)" by simp
  then have "off + 64 + ?n * element_size_bytes t \<le> m_length (sh_maps s1 ! h)" using assms(8) by linarith
  then have "n_frombuffer N (m_length (sh_maps s2 ! h)) ?d ?n (int off + 64) = None"
    using assms(1) s1(2) s2(4) itemsize_documented [OF assms(1), of t] by (simp add: numpy_documented_def nat_add_distrib)
  then have run: "np_frombuffer N h ?d ?n (int off + 64) s2 =
      (Inr \<lparr>na_dtype = ?d, na_mapping = h, na_offset = off + 64, na_count = ?n\<rparr>,
       s2\<lparr>sh_maps := (sh_maps s2)[h := (sh_maps s2 ! h)\<lparr>m_exports := m_exports (sh_maps s2 ! h) + 1\<rparr>]\<rparr>)"
    using s1(2,3) s2(4) by (simp add: np_frombuffer_def bindE_run update_mapping_def nat_add_distrib)
  let ?a = "\<lparr>na_dtype = ?d, na_mapping = h, na_offset = off + 64, na_count = ?n\<rparr>"
  let ?s' = "s2\<lparr>sh_maps := (sh_maps s2)[h := (sh_maps s2 ! h)\<lparr>m_exports := m_exports (sh_maps s2 ! h) + 1\<rparr>]\<rparr>"
  have "read_tensor may_open N core_id (int off) size_bytes s = (Inr ?a, ?s')"
    using assms(3,6,7) s2(1) desc run itemsize_documented [OF assms(1), of t]
    by (simp add: read_tensor_bind Let_def del: from_bytes_def)
  moreover have "region ?s' h = region s1 h"
    using s1(2) s2(2,4) by (simp add: region_def)
  moreover have "shm_ok ?s'" using s1(1,2,3) s2(3,4) by (auto simp: shm_ok_def nth_list_update)
  ultimately show ?thesis
    using s1 s2(2,4) itemsize_documented [OF assms(1), of t] by (auto simp: array_bytes_def)
qed

text \<open>The operations of the module.\<close>

inductive shm_step :: "(ustr \<Rightarrow> bool) \<Rightarrow> 'n numpy \<Rightarrow> shm \<Rightarrow> shm \<Rightarrow> bool" for may_open and N where
  attach: "attach_shm may_open core_id size_bytes s = (r, s') \<Longrightarrow> shm_step may_open N s s'"
| read: "read_tensor may_open N core_id byte_offset size_bytes s = (r, s') \<Longrightarrow> shm_step may_open N s s'"
| detach: "detach_all s = (r, s') \<Longrightarrow> shm_step may_open N s s'"

text \<open>What an array relies on: its mapping is open and still counts it.\<close>

definition viewed :: "nat \<Rightarrow> ustr \<Rightarrow> nat \<Rightarrow> shm \<Rightarrow> bool" where
  "viewed h path n s \<longleftrightarrow> h < length (sh_maps s) \<and> m_open (sh_maps s ! h) \<and> 0 < m_exports (sh_maps s ! h) \<and>
     m_path (sh_maps s ! h) = path \<and> m_length (sh_maps s ! h) = n"

text \<open>\<open>m\<close> keeps the views and the files, however it ends.\<close>

definition keeps_views :: "'a shm_op \<Rightarrow> bool" where
  "keeps_views m \<longleftrightarrow> (\<forall>h path n s. viewed h path n s \<longrightarrow>
     viewed h path n (snd (m s)) \<and> sh_files (snd (m s)) = sh_files s)"

lemma viewed_update:
  "viewed h path n s \<Longrightarrow> sh_maps s' = (sh_maps s)[g := m] \<Longrightarrow>
   (g = h \<Longrightarrow> viewed h path n s \<Longrightarrow> m_open m \<and> 0 < m_exports m \<and> m_path m = path \<and> m_length m = n) \<Longrightarrow> viewed h path n s'"
  by (cases "g = h") (auto simp: viewed_def)

lemma keeps_viewsD:
  "keeps_views m \<Longrightarrow> m s = (r, s') \<Longrightarrow> viewed h path n s \<Longrightarrow> viewed h path n s' \<and> sh_files s' = sh_files s"
  unfolding keeps_views_def by (metis snd_conv)

lemma keeps_viewsI:
  "(\<And>h path n s r s'. m s = (r, s') \<Longrightarrow> viewed h path n s \<Longrightarrow> viewed h path n s' \<and> sh_files s' = sh_files s) \<Longrightarrow>
   keeps_views m"
  unfolding keeps_views_def by (metis prod.collapse)

lemma keeps_views_basic [py_intros]:
  "keeps_views (ret x)" "keeps_views (raise e)" "keeps_views (liftE y)" "keeps_views (getsE f)"
  "keeps_views (modifyE (\<lambda>s. s\<lparr>sh_cache := g s\<rparr>))" "keeps_views (new_mapping path n)"
  by (auto simp: keeps_views_def new_mapping_def viewed_def nth_append)

lemma keeps_views_bindE [py_intros]:
  assumes "keeps_views m" and "\<And>x. keeps_views (k x)"
  shows "keeps_views (bindE m k)"
proof (rule keeps_viewsI)
  fix h path n s r s'
  assume run: "bindE m k s = (r, s')" and view: "viewed h path n s"
  obtain x s1 where x: "m s = (x, s1)" by (cases "m s")
  then have "viewed h path n s1 \<and> sh_files s1 = sh_files s" by (rule keeps_viewsD [OF assms(1) _ view])
  then show "viewed h path n s' \<and> sh_files s' = sh_files s"
    using run x keeps_viewsD [OF assms(2)] by (cases x) fastforce+
qed

lemma keeps_views_try [py_intros]:
  assumes "keeps_views m" and "\<And>e. keeps_views (k e)"
  shows "keeps_views (try_except m k)"
proof (rule keeps_viewsI)
  fix h path n s r s'
  assume run: "try_except m k s = (r, s')" and view: "viewed h path n s"
  obtain x s1 where x: "m s = (x, s1)" by (cases "m s")
  then have "viewed h path n s1 \<and> sh_files s1 = sh_files s" by (rule keeps_viewsD [OF assms(1) _ view])
  then show "viewed h path n s' \<and> sh_files s' = sh_files s"
    using run x keeps_viewsD [OF assms(2)] by (cases x) fastforce+
qed

lemma keeps_views_if [py_intros]: "(b \<Longrightarrow> keeps_views m) \<Longrightarrow> (\<not> b \<Longrightarrow> keeps_views n) \<Longrightarrow> keeps_views (if b then m else n)"
  by simp

lemma keeps_views_update [py_intros]:
  "(\<And>m. m_open m \<Longrightarrow> m_open (f m)) \<Longrightarrow> (\<And>m. m_exports m \<le> m_exports (f m)) \<Longrightarrow> (\<And>m. m_path (f m) = m_path m) \<Longrightarrow>
   (\<And>m. m_length (f m) = m_length m) \<Longrightarrow> keeps_views (update_mapping h f)"
proof (rule keeps_viewsI)
  fix g path n s r s'
  assume f: "\<And>m. m_open m \<Longrightarrow> m_open (f m)" "\<And>m. m_exports m \<le> m_exports (f m)" "\<And>m. m_path (f m) = m_path m"
    "\<And>m. m_length (f m) = m_length m" and run: "update_mapping h f s = (r, s')" and view: "viewed g path n s"
  have s': "s' = s\<lparr>sh_maps := (sh_maps s)[h := f (sh_maps s ! h)]\<rparr>" using run by (simp add: update_mapping_def)
  have "viewed g path n s'"
    by (rule viewed_update [OF view, of _ h "f (sh_maps s ! h)"])
      (use f s' less_le_trans [OF _ f(2)] in \<open>auto simp: viewed_def\<close>)
  then show "viewed g path n s' \<and> sh_files s' = sh_files s" using s' by simp
qed

lemma keeps_views_close: "keeps_views (mmap_close h)"
proof (rule keeps_viewsI)
  fix g path n s r s'
  assume run: "mmap_close h s = (r, s')" and view: "viewed g path n s"
  show "viewed g path n s' \<and> sh_files s' = sh_files s"
  proof (cases "m_exports (sh_maps s ! h) > 0")
    case True
    then show ?thesis using run view by (simp add: mmap_close_def bindE_run)
  next
    case False
    then have s': "s' = s\<lparr>sh_maps := (sh_maps s)[h := (sh_maps s ! h)\<lparr>m_open := False\<rparr>]\<rparr>"
      using run by (simp add: mmap_close_def bindE_run update_mapping_def)
    have "viewed g path n s'"
      by (rule viewed_update [OF view, of _ h "(sh_maps s ! h)\<lparr>m_open := False\<rparr>"])
        (use s' False in \<open>auto simp: viewed_def\<close>)
    then show ?thesis using s' by simp
  qed
qed

lemma keeps_views_attach: "keeps_views (attach_shm may_open core_id size_bytes)"
  unfolding attach_shm_def Let_def
  by (intro py_intros; (split prod.split option.split)+; intro py_intros allI impI conjI)

lemma keeps_views_read: "keeps_views (read_tensor may_open N core_id byte_offset size_bytes)"
proof -
  have "keeps_views (mmap_seek h pos)" for h pos
    unfolding mmap_seek_def by (intro py_intros) auto
  moreover have "keeps_views (mmap_read h n)" for h n
    unfolding mmap_read_def Let_def by (intro py_intros; split prod.split; intro py_intros allI impI) auto
  moreover have "keeps_views (np_frombuffer N h d count offset)" for h d count offset
    unfolding np_frombuffer_def by (intro py_intros; (split option.split)?; intro py_intros allI impI conjI) auto
  ultimately show ?thesis
    unfolding read_tensor_def Let_def by (intro py_intros keeps_views_attach)
qed

lemma keeps_views_detach: "keeps_views detach_all"
proof -
  have "keeps_views (close_all cached)" for cached
  proof (induction cached)
    case Nil
    show ?case unfolding close_all.simps by (rule keeps_views_basic)
  next
    case (Cons a cached)
    then show ?case by (cases a) (simp only: close_all.simps, intro py_intros keeps_views_close)
  qed
  then show ?thesis unfolding detach_all_def by (intro py_intros)
qed

inductive_cases shm_stepE: "shm_step may_open N s s'"

lemma shm_step_keeps:
  assumes "shm_step may_open N s s'" and "viewed h path n s"
  shows "viewed h path n s' \<and> sh_files s' = sh_files s"
  using assms(1)
  by (rule shm_stepE)
    (rule keeps_viewsD [OF keeps_views_attach _ assms(2)] keeps_viewsD [OF keeps_views_read _ assms(2)]
      keeps_viewsD [OF keeps_views_detach _ assms(2)], assumption)+

text \<open>An array that was read stays readable: no later \<open>attach_shm\<close>, \<open>read_tensor\<close> or \<open>detach_all\<close>, in whatever order and
  number, closes the mapping under it or changes what it shows.\<close>

theorem arrays_stay_readable:
  assumes "(shm_step may_open N)\<^sup>*\<^sup>* s s'" and "na_mapping a < length (sh_maps s)"
    and "m_open (sh_maps s ! na_mapping a)" and "0 < m_exports (sh_maps s ! na_mapping a)"
  shows "m_open (sh_maps s' ! na_mapping a) \<and> array_bytes N s' a = array_bytes N s a"
proof -
  let ?m = "sh_maps s ! na_mapping a"
  have "viewed (na_mapping a) (m_path ?m) (m_length ?m) s' \<and> sh_files s' = sh_files s"
    using assms(1)
  proof (induction rule: rtranclp_induct)
    case base
    then show ?case using assms(2-4) by (simp add: viewed_def)
  next
    case (step s1 s2)
    then show ?case using shm_step_keeps by metis
  qed
  then show ?thesis by (simp add: viewed_def array_bytes_def region_def)
qed

text \<open>\<open>detach_all\<close> closes what it can. \<open>idle h s\<close>: \<open>h\<close> is attached and no array looks into it.\<close>

definition idle :: "nat \<Rightarrow> shm \<Rightarrow> bool" where
  "idle h s \<longleftrightarrow> h \<in> snd ` set (sh_cache s) \<and> m_exports (sh_maps s ! h) = 0"

definition closed_if :: "bool \<Rightarrow> mapping \<Rightarrow> mapping" where
  "closed_if b m = (if b \<and> m_exports m = 0 then m\<lparr>m_open := False\<rparr> else m)"

lemma closed_if_simps [simp]:
  "closed_if False m = m" "closed_if b (closed_if True m) = closed_if True m"
  "m_path (closed_if b m) = m_path m" "m_length (closed_if b m) = m_length m"
  by (simp_all add: closed_if_def)

lemma mmap_close_suppressed:
  "try_except (mmap_close h) (\<lambda>_. ret ()) s =
     (Inr (), s\<lparr>sh_maps := (sh_maps s)[h := closed_if True (sh_maps s ! h)]\<rparr>)"
  by (simp add: try_except_run mmap_close_def bindE_run update_mapping_def closed_if_def)

lemma close_all_run:
  "\<exists>s'. close_all cached s = (Inr (), s') \<and> sh_cache s' = sh_cache s \<and> sh_files s' = sh_files s \<and>
     length (sh_maps s') = length (sh_maps s) \<and>
     (\<forall>h < length (sh_maps s). sh_maps s' ! h = closed_if (h \<in> snd ` set cached) (sh_maps s ! h))"
proof (induction cached arbitrary: s)
  case Nil
  then show ?case by simp
next
  case (Cons c cached)
  obtain path h where c: "c = (path, h)" by (cases c)
  let ?s1 = "s\<lparr>sh_maps := (sh_maps s)[h := closed_if True (sh_maps s ! h)]\<rparr>"
  obtain s' where s': "close_all cached ?s1 = (Inr (), s')" "sh_cache s' = sh_cache ?s1" "sh_files s' = sh_files ?s1"
    "length (sh_maps s') = length (sh_maps ?s1)"
    "\<forall>g < length (sh_maps ?s1). sh_maps s' ! g = closed_if (g \<in> snd ` set cached) (sh_maps ?s1 ! g)"
    using Cons.IH by blast
  have "close_all (c # cached) s = (Inr (), s')"
    using s'(1) by (simp only: c close_all.simps bindE_run mmap_close_suppressed prod.case sum.case)
  moreover have "sh_maps s' ! g = closed_if (g \<in> snd ` set (c # cached)) (sh_maps s ! g)" if "g < length (sh_maps s)" for g
    using s'(5) that by (cases "g = h") (simp_all add: c nth_list_update)
  ultimately show ?case using s'(2-4) by (intro exI [of _ s']) simp
qed

lemma attach_shm_again:
  "attach_shm may_open core_id size_bytes s = (Inr h, s') \<Longrightarrow> attach_shm may_open core_id later s' = (Inr h, s')"
  by (auto simp: attach_shm_def bindE_run Let_def new_mapping_def split: option.splits if_splits sum.splits)

lemma attach_shm_new:
  assumes "sh_cache s = []" and "attach_shm may_open core_id size_bytes s = (Inr h, s')"
  obtains content n where "sh_files s (shm_path core_id) = Some content" and "mmap_length (length content) size_bytes = Inr n"
    and "h = length (sh_maps s)"
    and "sh_maps s' = sh_maps s @ [\<lparr>m_path = shm_path core_id, m_length = n, m_pos = 0, m_exports = 0, m_open = True\<rparr>]"
  using assms by (auto simp: attach_shm_def bindE_run Let_def new_mapping_def split: option.splits if_splits sum.splits)

text \<open>C28: \<open>detach_all\<close> never raises. It forgets every region and closes exactly the attached mappings that no array
  looks into; a mapping that an array looks into stays open and unchanged, and the array shows the same bytes
  (the \<open>BufferError\<close> of its \<open>close\<close> is suppressed, so the region is forgotten but not unmapped). The next
  \<open>attach_shm\<close> of a region maps its file anew, at the size it is given, and the ones after it return that
  mapping, whatever their size.\<close>

theorem detach_all_closes_idle_mappings:
  "\<exists>s'. detach_all s = (Inr (), s') \<and> sh_cache s' = [] \<and> length (sh_maps s') = length (sh_maps s) \<and>
     (\<forall>h < length (sh_maps s). sh_maps s' ! h =
        (if idle h s then (sh_maps s ! h)\<lparr>m_open := False\<rparr> else sh_maps s ! h)) \<and>
     (\<forall>a. na_mapping a < length (sh_maps s) \<longrightarrow> array_bytes N s' a = array_bytes N s a) \<and>
     (\<forall>core_id size_bytes h s2. attach_shm may_open core_id size_bytes s' = (Inr h, s2) \<longrightarrow>
        h = length (sh_maps s) \<and>
        (\<exists>content n. sh_files s (shm_path core_id) = Some content \<and> mmap_length (length content) size_bytes = Inr n \<and>
          sh_maps s2 ! h = \<lparr>m_path = shm_path core_id, m_length = n, m_pos = 0, m_exports = 0, m_open = True\<rparr>) \<and>
        (\<forall>later. attach_shm may_open core_id later s2 = (Inr h, s2)))"
proof -
  obtain s1 where s1: "close_all (rev (sh_cache s)) s = (Inr (), s1)" "sh_files s1 = sh_files s"
    "length (sh_maps s1) = length (sh_maps s)"
    "\<forall>h < length (sh_maps s). sh_maps s1 ! h = closed_if (h \<in> snd ` set (rev (sh_cache s))) (sh_maps s ! h)"
    using close_all_run [of "rev (sh_cache s)" s] by blast
  let ?s' = "s1\<lparr>sh_cache := []\<rparr>"
  have run: "detach_all s = (Inr (), ?s')" using s1(1) by (simp add: detach_all_def bindE_run)
  have maps: "\<forall>h < length (sh_maps s). sh_maps ?s' ! h =
      (if idle h s then (sh_maps s ! h)\<lparr>m_open := False\<rparr> else sh_maps s ! h)"
    using s1(4) by (simp add: idle_def closed_if_def)
  have arrays: "\<forall>a. na_mapping a < length (sh_maps s) \<longrightarrow> array_bytes N ?s' a = array_bytes N s a"
    using s1(2,4) by (simp add: array_bytes_def region_def)
  have new: "h = length (sh_maps s) \<and>
        (\<exists>content n. sh_files s (shm_path core_id) = Some content \<and> mmap_length (length content) size_bytes = Inr n \<and>
          sh_maps s2 ! h = \<lparr>m_path = shm_path core_id, m_length = n, m_pos = 0, m_exports = 0, m_open = True\<rparr>) \<and>
        (\<forall>later. attach_shm may_open core_id later s2 = (Inr h, s2))"
    if attach: "attach_shm may_open core_id size_bytes ?s' = (Inr h, s2)" for core_id size_bytes h s2
    by (rule attach_shm_new [OF _ attach]) (use attach_shm_again [OF attach] s1(2,3) in \<open>simp_all add: nth_append\<close>)
  show ?thesis
    by (rule exI [of _ ?s']) (intro conjI run maps arrays, simp, simp add: s1(3), intro allI impI, rule new)
qed

text \<open>A region once attached keeps its first size until \<open>detach_all\<close>: the cache goes by the name alone, so a later
  \<open>size_bytes\<close> is ignored, and a block beyond the first size cannot be read, however large the size asked for.\<close>

theorem first_size_is_kept:
  assumes "shm_ok s" and "attach_shm may_open core_id first s = (Inr h, s1)"
    and "int (m_length (sh_maps s1 ! h)) < byte_offset + 64"
  shows "attach_shm may_open core_id later s1 = (Inr h, s1) \<and>
    (\<exists>s2. read_tensor may_open N core_id byte_offset later s1 = (Inl BuiltinValueError, s2))"
proof -
  have s1: "shm_ok s1" "h < length (sh_maps s1)" "m_open (sh_maps s1 ! h)"
    using attach_shm_ok [OF assms(1,2)] by auto
  have "map_of (sh_cache s1) (shm_path core_id) = Some h"
    using assms(2) by (auto simp: attach_shm_def bindE_run Let_def new_mapping_def split: option.splits if_splits sum.splits)
  then have again: "attach_shm may_open core_id later s1 = (Inr h, s1)"
    by (simp add: attach_shm_def bindE_run Let_def)
  show ?thesis
  proof (cases "byte_offset < 0 \<or> int (m_length (sh_maps s1 ! h)) < byte_offset")
    case True
    then show ?thesis using again s1(3) by (auto simp: read_tensor_def bindE_run mmap_seek_def)
  next
    case False
    then obtain s2 where s2: "bindE (mmap_seek h byte_offset) (\<lambda>_. mmap_read h 64) s1 =
        (Inr (take 64 (drop (nat byte_offset) (region s1 h))), s2)"
      using header_read [OF s1(2,3), of byte_offset 64] by auto
    have "length (region s1 h) \<le> m_length (sh_maps s1 ! h)" by (simp add: region_def)
    then have "from_bytes (take 64 (drop (nat byte_offset) (region s1 h))) = Inl BuiltinValueError"
      using assms(3) False by (simp add: from_bytes_def)
    then show ?thesis using again s2 by (auto simp: read_tensor_bind)
  qed
qed

section \<open>Witnesses\<close>

text \<open>Element types as numbers: 0 to 4 for the five the code names.\<close>

definition flat_numpy :: "nat numpy" where
  "flat_numpy = \<lparr>n_float32 = 0, n_float16 = 1, n_uint16 = 2, n_uint8 = 3, n_int8 = 4,
     n_itemsize = (\<lambda>d. if d = 0 then 4 else if d \<in> {1, 2} then 2 else 1),
     n_frombuffer = (\<lambda>len d count offset.
       if 0 \<le> offset \<and> nat offset + count * (if d = 0 then 4 else if d \<in> {1, 2} then 2 else 1) \<le> len
       then None else Some BuiltinValueError)\<rparr>"

lemma flat_numpy_documented: "numpy_documented flat_numpy"
  by (simp add: numpy_documented_def flat_numpy_def)

definition small_block :: tensor_descriptor where
  "small_block = TensorBlockDescriptor 0x4B414348 0 1 1 1 1 0 7 4"

definition one_file :: shm where
  "one_file = \<lparr>sh_files = [shm_path 0 \<mapsto> to_bytes small_block @ ''abcd''], sh_maps = [], sh_cache = []\<rparr>"

lemma one_file_ok: "shm_ok one_file"
  by (simp add: shm_ok_def one_file_def)

lemma small_block_facts:
  "well_formed small_block" "is_valid small_block" "TensorDType (unat (d_dtype small_block)) = Inr FP32"
  "unat (d_payload_bytes small_block) = 4"
  by (simp_all add: well_formed_def is_valid_def small_block_def TensorBlockDescriptor_def zeros_def DESCRIPTOR_MAGIC_def
      TensorDType_def)

lemma attach_one_file:
  "attach_shm (\<lambda>_. True) 0 68 one_file = (Inr 0, one_file\<lparr>sh_maps := [\<lparr>m_path = shm_path 0, m_length = 68, m_pos = 0,
     m_exports = 0, m_open = True\<rparr>], sh_cache := [(shm_path 0, 0)]\<rparr>)"
  using length_to_bytes [OF small_block_facts(1)]
  by (simp add: attach_shm_def one_file_def bindE_run Let_def mmap_length_def new_mapping_def)

lemma block_read_in_place_witness:
  "\<exists>a s'. read_tensor (\<lambda>_. True) flat_numpy 0 0 68 one_file = (Inr a, s') \<and> na_count a = 1 \<and> array_bytes flat_numpy s' a = ''abcd''"
proof -
  let ?s1 = "one_file\<lparr>sh_maps := [\<lparr>m_path = shm_path 0, m_length = 68, m_pos = 0,
     m_exports = 0, m_open = True\<rparr>], sh_cache := [(shm_path 0, 0)]\<rparr>"
  have region: "region ?s1 0 = to_bytes small_block @ ''abcd''"
    using length_to_bytes [OF small_block_facts(1)] by (simp add: region_def one_file_def)
  have header: "take 64 (drop 0 (region ?s1 0)) = to_bytes small_block"
    unfolding region using length_to_bytes [OF small_block_facts(1)] by simp
  have fits: "0 + 64 + unat (d_payload_bytes small_block) \<le> m_length (sh_maps ?s1 ! 0)"
    by (simp add: small_block_facts(4))
  from block_read_in_place [OF flat_numpy_documented one_file_ok attach_one_file header small_block_facts(1-3) fits]
  show ?thesis
    unfolding region using length_to_bytes [OF small_block_facts(1)]
    by (auto simp: small_block_facts(4) element_size_bytes_def)
qed

lemma arrays_stay_readable_witness:
  "array_bytes flat_numpy (snd (detach_all (one_file\<lparr>sh_maps := [\<lparr>m_path = shm_path 0, m_length = 68, m_pos = 0,
      m_exports = 1, m_open = True\<rparr>], sh_cache := [(shm_path 0, 0)]\<rparr>)))
    \<lparr>na_dtype = 0, na_mapping = 0, na_offset = 64, na_count = 1\<rparr> = ''abcd''"
proof -
  let ?s = "one_file\<lparr>sh_maps := [\<lparr>m_path = shm_path 0, m_length = 68, m_pos = 0,
      m_exports = 1, m_open = True\<rparr>], sh_cache := [(shm_path 0, 0)]\<rparr>"
  let ?a = "\<lparr>na_dtype = 0, na_mapping = 0, na_offset = 64, na_count = 1\<rparr> :: nat ndarray"
  have "(shm_step (\<lambda>_. True) flat_numpy)\<^sup>*\<^sup>* ?s (snd (detach_all ?s))"
    by (rule r_into_rtranclp) (rule shm_step.detach, rule prod.collapse [symmetric])
  then have "array_bytes flat_numpy (snd (detach_all ?s)) ?a = array_bytes flat_numpy ?s ?a"
    using arrays_stay_readable [of "\<lambda>_. True" flat_numpy ?s "snd (detach_all ?s)" ?a] by simp
  then show ?thesis
    using length_to_bytes [OF small_block_facts(1)]
    by (simp add: array_bytes_def region_def one_file_def flat_numpy_def)
qed

text \<open>Two regions attached, an array in the second one.\<close>

definition two_regions :: shm where
  "two_regions = \<lparr>sh_files = [shm_path 0 \<mapsto> to_bytes small_block @ ''abcd'', shm_path 1 \<mapsto> to_bytes small_block @ ''efgh''],
     sh_maps = [\<lparr>m_path = shm_path 0, m_length = 68, m_pos = 0, m_exports = 0, m_open = True\<rparr>,
       \<lparr>m_path = shm_path 1, m_length = 68, m_pos = 64, m_exports = 1, m_open = True\<rparr>],
     sh_cache = [(shm_path 1, 1), (shm_path 0, 0)]\<rparr>"

lemma detach_all_closes_idle_mappings_witness:
  "\<exists>s' s2. detach_all two_regions = (Inr (), s') \<and> \<not> m_open (sh_maps s' ! 0) \<and> m_open (sh_maps s' ! 1) \<and>
     array_bytes flat_numpy s' \<lparr>na_dtype = 0, na_mapping = 1, na_offset = 64, na_count = 1\<rparr> = ''efgh'' \<and>
     attach_shm (\<lambda>_. True) 0 0 s' = (Inr 2, s2) \<and> m_length (sh_maps s2 ! 2) = 68"
proof -
  let ?a = "\<lparr>na_dtype = 0, na_mapping = 1, na_offset = 64, na_count = 1\<rparr> :: nat ndarray"
  have len: "length (to_bytes small_block) = 64" by (rule length_to_bytes [OF small_block_facts(1)])
  have paths: "shm_path 0 \<noteq> shm_path 1" by code_simp
  have maps: "length (sh_maps two_regions) = 2" "idle 0 two_regions" "\<not> idle 1 two_regions" "m_open (sh_maps two_regions ! 1)"
    by (simp_all add: two_regions_def idle_def)
  have a: "array_bytes flat_numpy two_regions ?a = ''efgh''"
    using len paths by (simp add: array_bytes_def region_def two_regions_def flat_numpy_def)
  obtain s' where s': "detach_all two_regions = (Inr (), s')" "sh_cache s' = []"
    "\<forall>h < 2. sh_maps s' ! h = (if idle h two_regions then (sh_maps two_regions ! h)\<lparr>m_open := False\<rparr> else sh_maps two_regions ! h)"
    "\<forall>a. na_mapping a < 2 \<longrightarrow> array_bytes flat_numpy s' a = array_bytes flat_numpy two_regions a"
    "\<forall>core_id size_bytes h s2. attach_shm (\<lambda>_. True) core_id size_bytes s' = (Inr h, s2) \<longrightarrow> h = 2 \<and>
        (\<exists>content n. sh_files two_regions (shm_path core_id) = Some content \<and> mmap_length (length content) size_bytes = Inr n \<and>
          sh_maps s2 ! h = \<lparr>m_path = shm_path core_id, m_length = n, m_pos = 0, m_exports = 0, m_open = True\<rparr>)"
    using detach_all_closes_idle_mappings [of two_regions flat_numpy "\<lambda>_. True"] unfolding maps(1) by blast
  have content: "sh_files two_regions (shm_path 0) = Some (to_bytes small_block @ ''abcd'')" using paths by (simp add: two_regions_def)
  have "sh_files s' = sh_files two_regions"
    using keeps_viewsD [OF keeps_views_detach s'(1), of 1] maps by (simp add: viewed_def two_regions_def)
  then obtain h s2 where at: "attach_shm (\<lambda>_. True) 0 0 s' = (Inr h, s2)"
    using s'(2) content len by (simp add: attach_shm_def bindE_run Let_def mmap_length_def new_mapping_def)
  obtain c n where c: "h = 2" "sh_files two_regions (shm_path 0) = Some c" "mmap_length (length c) 0 = Inr n"
      "sh_maps s2 ! h = \<lparr>m_path = shm_path 0, m_length = n, m_pos = 0, m_exports = 0, m_open = True\<rparr>"
    using s'(5) at by blast
  then have "length c = 68" using content len by auto
  then have size: "m_length (sh_maps s2 ! 2) = 68"
    using c(1,3,4) by (cases "c = []") (simp_all add: mmap_length_def)
  have "attach_shm (\<lambda>_. True) 0 0 s' = (Inr 2, s2)" using at c(1) by simp
  moreover have "\<not> m_open (sh_maps s' ! 0)" "m_open (sh_maps s' ! 1)" using s'(3) maps by simp_all
  moreover have "array_bytes flat_numpy s' ?a = ''efgh''" using s'(4) a by simp
  ultimately show ?thesis using s'(1) size by blast
qed

lemma first_size_is_kept_witness:
  "\<exists>s1 s2. attach_shm (\<lambda>_. True) 0 64 one_file = (Inr 0, s1) \<and>
    read_tensor (\<lambda>_. True) flat_numpy 0 4 68 s1 = (Inl BuiltinValueError, s2)"
proof -
  let ?s1 = "one_file\<lparr>sh_maps := [\<lparr>m_path = shm_path 0, m_length = 64, m_pos = 0,
     m_exports = 0, m_open = True\<rparr>], sh_cache := [(shm_path 0, 0)]\<rparr>"
  have attach: "attach_shm (\<lambda>_. True) 0 64 one_file = (Inr 0, ?s1)"
    using length_to_bytes [OF small_block_facts(1)]
    by (simp add: attach_shm_def one_file_def bindE_run Let_def mmap_length_def new_mapping_def)
  from first_size_is_kept [OF one_file_ok attach, of 4 68 flat_numpy] attach show ?thesis by auto
qed

end
