(* ===== verification/Spec2Isabelle.thy ===== *)
theory Spec2Isabelle
  imports Resp_Types Pool_Progress Async_Tasks Sglang Vllm Langchain Chunker Transformers Shared_Memory
begin

text \<open>
  A verification development for the KacheDB client library (\<open>src/src/kachedb\<close>): a Python client of a key-value and
  vector server that speaks RESP2, with connection pools, pipelines, a tag filter, a semantic cache, and a data plane
  for KV-cache tensors with connectors for vLLM and SGLang.

  \<^bold>\<open>The parts and how they interact.\<close> A client (\<open>client.py\<close>, \<open>async_client.py\<close>) takes a connection from its pool
  (\<open>pool.py\<close>), or uses the dedicated one of a \<open>with\<close> block, sends a command in wire form (\<open>resp.py\<close>) and decodes the
  reply from the byte stream of that connection (\<open>connection.py\<close>). A pipeline (\<open>pipeline.py\<close>) does the same for a
  batch. The semantic cache and the integrations are programs over the client. The data plane is apart from it: a
  memory manager (\<open>dma.py\<close>) writes tensor blocks behind a 64-byte descriptor (\<open>descriptor.py\<close>) into a ring buffer, the
  connectors keep an index of what they have written under chained hashes, and \<open>tensor.py\<close> reads such blocks from
  the server's shared memory.

  \<^bold>\<open>How code becomes definitions.\<close> A method that changes its object and may raise is a function of type
  \<open>('s, 'e, 'a) py\<close> from the state to a result (\<open>Inl\<close> the exception, \<open>Inr\<close> the value) and the state it leaves, also
  when it raises; \<open>bindE\<close>, \<open>try_except\<close> and \<open>try_finally\<close> compose such functions as Python's statements do. Objects
  that are shared (the connections of a pool, the \<open>mmap\<close> objects) live in a store and are referred to by index.
  Exceptions are the datatype \<open>exc\<close>: those of \<open>exceptions.py\<close> and, with the prefix \<open>Builtin\<close>, Python's own. A \<open>bytes\<close>
  object is a \<open>char list\<close>, a \<open>str\<close> a list of code points, an \<open>int\<close> an \<open>int\<close>, a field of a descriptor a machine word of
  its declared width. The names are the code's; methods of an asynchronous class carry a prefix (\<open>a_\<close>, \<open>apl_\<close>, \<open>ak_\<close>,
  \<open>asc_\<close>) where both classes have the method.

  \<^bold>\<open>The theories.\<close>
  \<^item> \<open>Prelude\<close>, \<open>Py_Text\<close>: the exceptions, the combinators with their rules (\<open>raises\<close>, \<open>keeps\<close>, \<open>hoare\<close>), slices and
    little-endian fields; decimal numerals, UTF-8 and white space.
  \<^item> \<open>Resp\<close>, \<open>Resp_Spec\<close>, \<open>Reader_Laws\<close>, \<open>Resp_Reader\<close>, \<open>Resp_Async\<close>: \<open>resp.py\<close>. The encoder; the abstract parser of a
    stream; the interfaces \<open>byte_source\<close>, \<open>buffered_reader\<close> and \<open>frame_reader\<close> as locales, with the refinement proved
    once; the two decoders, which interpret them. \<open>Resp_Theorems\<close> and \<open>Resp_Types\<close> have the theorems: refinement,
    round trips under any fragmentation, truncation, agreement, and that decoded values are well typed.
  \<^item> \<open>Connection\<close>, \<open>Async_Transport\<close>: \<open>connection.py\<close> (TLS set-up, requests, replies and the exceptions they end in,
    health check) and the transport of the asynchronous client, both interpretations of the locale \<open>channel\<close>.
  \<^item> \<open>Pool\<close>, \<open>Async_Pool\<close>: \<open>pool.py\<close>, with the books of who has which connection as the locale \<open>pool_contract\<close>.
    \<open>Pool_Threads\<close> interleaves threads at the locks of the code, \<open>Async_Tasks\<close> asyncio tasks at its \<open>await\<close>s, with
    cancellation; both interpret the locale \<open>pool_tasks\<close>, and uninterrupted runs of either are the methods of the pool.
    \<open>Pool_Progress\<close> shows that no slot is lost and that whoever may be served is served.
  \<^item> \<open>Pipeline\<close>: \<open>pipeline.py\<close>. \<open>Tags\<close>: \<open>tags.py\<close>, the mask as a filter without false negatives. \<open>Values\<close>: what both
    clients do with arguments and replies. \<open>Client\<close>, \<open>Async_Client\<close>: every command of the two clients, what happens to
    their connection on every path, and that the two agree.
  \<^item> \<open>Semantic\<close>: \<open>semantic/cache.py\<close>. \<open>Quantizer\<close>: \<open>quantizer.py\<close>, with the error bound. \<open>Embedders\<close>,
    \<open>Transformers\<close>: \<open>semantic/embedders.py\<close>. \<open>Chunker\<close>: \<open>semantic/chunker.py\<close>; every line that is not blank is in a chunk.
  \<^item> \<open>Json\<close>: \<open>json.dumps\<close> and \<open>json.loads\<close>, with their round trip. \<open>Kv_Store\<close>, \<open>Langchain\<close>: the integrations, down to
    the bytes of the exchange with the server.
  \<^item> \<open>Descriptor\<close>, \<open>Tensor_Codec\<close>, \<open>Dma\<close>, \<open>Layers\<close>: \<open>descriptor.py\<close> and \<open>dma.py\<close>; layout and round trip of the
    descriptor, and that a block reads back what was written.
  \<^item> \<open>Prefix_Cache\<close>, \<open>Vllm\<close>: \<open>vllm/prefix_cache.py\<close> and \<open>vllm/connector.py\<close>. \<open>Radix\<close>, \<open>Sglang\<close>:
    \<open>sglang/radix_adapter.py\<close> and \<open>sglang/connector.py\<close>. The chained hashes identify prefixes, sent or offloaded
    tensors are what is received or restored while they are intact in the ring, and after a wrap of the ring either
    connector serves other tensors.
  \<^item> \<open>Shared_Memory\<close>: \<open>tensor.py\<close>, with the mappings, their positions, the arrays that keep them open, and what
    \<open>detach_all\<close> can close.

  \<^bold>\<open>Bounds and fuel.\<close> The depth of nested replies is an argument of the decoders, the frames that Python's recursion
  limit leaves them; at zero they raise \<open>BuiltinRecursionError\<close>. The theorems ask only for the depth of the reply, and
  \<open>depth_bounded_by_stream\<close> bounds by the length of the stream what a depth can be needed for. The nesting limit of
  \<open>json\<close> is an argument in the same way. No other loop has fuel: the reading loops end because every event of the socket
  or stream is consumed once, the walk over radix nodes is a \<open>partial_function (option)\<close> with the proof that it ends
  (\<open>matching_nodes_spell_prefix\<close>), all others recurse on their data.

  \<^bold>\<open>Parameters.\<close> Code that is not in the repository is an argument: PyTorch and NumPy, as records of the operations used
  with what their documentation promises as named hypotheses (\<open>documented\<close>, \<open>numpy_documented\<close>, \<open>torch_pooling\<close>), each
  with a concrete instance; the embedding models, LangChain's \<open>Generation\<close>, and the network, as the sequence of what the
  calls to it will meet. Of the standard library, SHA-256, MD5 and BLAKE2b, the Unicode tables behind \<open>str.lower\<close>, \<open>repr\<close> and
  \<open>\\w\<close>, and the text form of floating-point numbers are parameters as well. Float arithmetic is a record; the bounds
  are proved of its exact instance, and rounding to single precision is not part of them.

  \<^bold>\<open>Not modelled.\<close> The re-exports of the package files, the version string, logging, and the base class of
  vLLM, which only keeps the configuration. Python's limit on the digits of an integer conversion. The moment at
  which the garbage collector closes a socket. Failures of \<open>create_connection\<close> and \<open>wrap_socket\<close> that are no
  \<open>OSError\<close> (a host name that cannot be encoded). Cancellation of a task inside the asynchronous cache. Memory
  effects between processes on the shared-memory region: a reader sees the bytes of the file as they are at the
  time of a call.
\<close>

end
